(* ===== verification/Text.thy ===== *)
theory Text
  imports Prelude
begin

text \<open>
  Python text and bytes. A \<open>str\<close> that ends up in a URL or a header field is a HOL
  \<open>string\<close>: a list of characters with code points below 256, which is exactly what the
  latin-1 encoding of a header can carry. A \<open>str\<close> that is encoded as UTF-8 (form fields,
  file names, query parameters, credentials) is a list of code points, \<open>ustr\<close>, so that
  every code point and the surrogates that UTF-8 refuses are in the model. A \<open>bytes\<close>
  object is a list of 8-bit words.

  \<open>str.lower\<close> and \<open>str.upper\<close> are written out for code points below 256. \<open>lower\<close> is
  exact there. \<open>upper\<close> maps the sharp s to two letters as Python does; the micro sign
  and the y with diaeresis, whose capitals lie above 255, are kept, and \<open>upper_utf8\<close>,
  which the native request is built from, encodes their capitals.
\<close>

type_synonym bytes = "8 word list"
type_synonym ustr = "nat list"

section \<open>Literals\<close>

definition cps :: "string \<Rightarrow> ustr" where
  "cps s = map of_char s"

definition latin1 :: "string \<Rightarrow> bytes" where
  "latin1 s = map of_char s"

definition of_latin1 :: "bytes \<Rightarrow> string" where
  "of_latin1 b = map (\<lambda>w. char_of (unat w)) b"

lemma cps_simps [simp]: "cps [] = []" "cps (c # s) = of_char c # cps s" "cps (s @ t) = cps s @ cps t"
  by (simp_all add: cps_def)

lemma latin1_simps [simp]:
  "latin1 [] = []" "latin1 (c # s) = of_char c # latin1 s" "latin1 (s @ t) = latin1 s @ latin1 t"
  by (simp_all add: latin1_def)

lemma length_latin1 [simp]: "length (latin1 s) = length s"
  by (simp add: latin1_def)

lemma unat_of_char [simp]: "unat (of_char c :: 8 word) = of_char c"
proof -
  have "unat (of_nat (of_char c) :: 8 word) = of_char c"
    by (simp only: unat_of_nat) simp
  then show ?thesis by (simp only: of_nat_of_char)
qed

lemma of_latin1_latin1 [simp]: "of_latin1 (latin1 s) = s"
  by (simp add: of_latin1_def latin1_def comp_def)

lemma latin1_inj [simp]: "latin1 s = latin1 t \<longleftrightarrow> s = t"
  by (metis of_latin1_latin1)

section \<open>Case\<close>

definition lower_char :: "char \<Rightarrow> char" where
  "lower_char c =
     (let n = (of_char c :: nat) in
      if 65 \<le> n \<and> n \<le> 90 \<or> 192 \<le> n \<and> n \<le> 222 \<and> n \<noteq> 215 then char_of (n + 32) else c)"

definition lower :: "string \<Rightarrow> string" where
  "lower s = map lower_char s"

definition upper_char :: "char \<Rightarrow> string" where
  "upper_char c =
     (let n = (of_char c :: nat) in
      if 97 \<le> n \<and> n \<le> 122 \<or> 224 \<le> n \<and> n \<le> 254 \<and> n \<noteq> 247 then [char_of (n - 32)]
      else if n = 223 then ''SS'' else [c])"

definition upper :: "string \<Rightarrow> string" where
  "upper s = concat (map upper_char s)"

lemma lower_char_idem [simp]: "lower_char (lower_char c) = lower_char c"
proof (cases "(65 \<le> (of_char c :: nat) \<and> (of_char c :: nat) \<le> 90) \<or>
    (192 \<le> (of_char c :: nat) \<and> (of_char c :: nat) \<le> 222 \<and> (of_char c :: nat) \<noteq> 215)")
  case True
  then have "(of_char (char_of ((of_char c :: nat) + 32) :: char) :: nat) = of_char c + 32"
    by (auto simp: of_char_of)
  with True show ?thesis by (auto simp: lower_char_def Let_def)
next
  case False
  then show ?thesis by (auto simp: lower_char_def Let_def)
qed

lemma lower_idem [simp]: "lower (lower s) = lower s"
  by (simp add: lower_def comp_def)

lemma lower_Nil_iff [simp]: "lower s = [] \<longleftrightarrow> s = []"
  by (simp add: lower_def)

lemma lower_append: "lower (s @ t) = lower s @ lower t"
  by (simp add: lower_def)

section \<open>UTF-8\<close>

text \<open>
  \<open>str.encode()\<close> in strict mode: one to four bytes for a code point, nothing for a
  surrogate or for a number that is no code point.
\<close>

definition byte :: "nat \<Rightarrow> 8 word" where
  "byte n = of_nat n"

lemma unat_byte: "k < 256 \<Longrightarrow> unat (byte k) = k"
  by (simp add: byte_def unat_of_nat)

definition utf8_cp :: "nat \<Rightarrow> bytes option" where
  "utf8_cp n =
     (if n < 128 then Some [byte n]
      else if n < 2048 then Some [byte (192 + n div 64), byte (128 + n mod 64)]
      else if 55296 \<le> n \<and> n < 57344 then None
      else if n < 65536 then
        Some [byte (224 + n div 4096), byte (128 + n div 64 mod 64), byte (128 + n mod 64)]
      else if n < 1114112 then
        Some [byte (240 + n div 262144), byte (128 + n div 4096 mod 64),
              byte (128 + n div 64 mod 64), byte (128 + n mod 64)]
      else None)"

fun utf8 :: "ustr \<Rightarrow> bytes option" where
  "utf8 [] = Some []"
| "utf8 (c # s) =
     (case utf8_cp c of None \<Rightarrow> None
      | Some b \<Rightarrow> (case utf8 s of None \<Rightarrow> None | Some bs \<Rightarrow> Some (b @ bs)))"

definition scalar :: "nat \<Rightarrow> bool" where
  "scalar n \<longleftrightarrow> n < 55296 \<or> 57344 \<le> n \<and> n < 1114112"

lemma utf8_cp_defined: "(\<exists>b. utf8_cp n = Some b) \<longleftrightarrow> scalar n"
  by (auto simp: utf8_cp_def scalar_def)

lemma utf8_defined: "(\<exists>b. utf8 s = Some b) \<longleftrightarrow> list_all scalar s"
proof (induction s)
  case (Cons c s)
  then show ?case using utf8_cp_defined [of c]
    by (cases "utf8_cp c"; cases "utf8 s") auto
qed simp

lemma utf8_append:
  "utf8 (s @ t) = (case utf8 s of None \<Rightarrow> None
     | Some a \<Rightarrow> (case utf8 t of None \<Rightarrow> None | Some b \<Rightarrow> Some (a @ b)))"
  by (induction s) (auto split: option.splits)

lemma utf8_ascii: "list_all (\<lambda>n. n < 128) s \<Longrightarrow> utf8 s = Some (map byte s)"
  by (induction s) (auto simp: utf8_cp_def)

text \<open>Every string of the header domain has a UTF-8 form.\<close>

definition utf8_string :: "string \<Rightarrow> bytes" where
  "utf8_string s = concat (map (\<lambda>c. the (utf8_cp (of_char c))) s)"

lemma utf8_cps: "utf8 (cps s) = Some (utf8_string s)"
proof (induction s)
  case (Cons c s)
  have "scalar (of_char c)" using nat_of_char_less_256 [of c] unfolding scalar_def by linarith
  then obtain b where "utf8_cp (of_char c) = Some b" using utf8_cp_defined by blast
  with Cons show ?case by (simp add: utf8_string_def)
qed (simp add: utf8_string_def)

definition upper_utf8 :: "string \<Rightarrow> bytes" where
  "upper_utf8 s =
     concat (map (\<lambda>c. let n = (of_char c :: nat) in
        if n = 181 then [206, 156] else if n = 255 then [197, 184]
        else utf8_string (upper_char c)) s)"

section \<open>Decoding UTF-8\<close>

text \<open>
  \<open>utf8_items\<close> reads a byte string into code points, with \<open>None\<close> for each maximal
  ill-formed piece. \<open>bytes.decode()\<close> in strict mode fails on the first \<open>None\<close>; with
  \<open>errors="replace"\<close> each \<open>None\<close> becomes U+FFFD. The bounds on the second byte are what
  excludes overlong forms, surrogates and numbers above U+10FFFF.
\<close>

definition continuation :: "8 word \<Rightarrow> bool" where
  "continuation b \<longleftrightarrow> 128 \<le> unat b \<and> unat b < 192"

definition second_ok :: "nat \<Rightarrow> 8 word \<Rightarrow> bool" where
  "second_ok lead b \<longleftrightarrow>
     (if lead = 224 then 160 \<le> unat b \<and> unat b < 192
      else if lead = 237 then 128 \<le> unat b \<and> unat b < 160
      else if lead = 240 then 144 \<le> unat b \<and> unat b < 192
      else if lead = 244 then 128 \<le> unat b \<and> unat b < 144
      else continuation b)"

definition low6 :: "8 word \<Rightarrow> nat" where
  "low6 b = unat b mod 64"

fun utf8_items :: "bytes \<Rightarrow> nat option list" where
  "utf8_items [] = []"
| "utf8_items (b # bs) =
     (let n = unat b in
      if n < 128 then Some n # utf8_items bs
      else if 194 \<le> n \<and> n \<le> 223 then
        (case bs of [] \<Rightarrow> [None]
         | c # r \<Rightarrow> if continuation c then Some ((n - 192) * 64 + low6 c) # utf8_items r
                    else None # utf8_items bs)
      else if 224 \<le> n \<and> n \<le> 239 then
        (case bs of [] \<Rightarrow> [None]
         | c # r \<Rightarrow>
             if \<not> second_ok n c then None # utf8_items bs
             else (case r of [] \<Rightarrow> [None]
               | d # q \<Rightarrow>
                   if continuation d then
                     Some ((n - 224) * 4096 + low6 c * 64 + low6 d) # utf8_items q
                   else None # utf8_items r))
      else if 240 \<le> n \<and> n \<le> 244 then
        (case bs of [] \<Rightarrow> [None]
         | c # r \<Rightarrow>
             if \<not> second_ok n c then None # utf8_items bs
             else (case r of [] \<Rightarrow> [None]
               | d # q \<Rightarrow>
                   if \<not> continuation d then None # utf8_items r
                   else (case q of [] \<Rightarrow> [None]
                     | e # t \<Rightarrow>
                         if continuation e then
                           Some ((n - 240) * 262144 + low6 c * 4096 + low6 d * 64 + low6 e)
                             # utf8_items t
                         else None # utf8_items q)))
      else None # utf8_items bs)"

declare utf8_items.simps(2) [simp del]

definition decode_strict :: "bytes \<Rightarrow> ustr option" where
  "decode_strict b = (if None \<in> set (utf8_items b) then None else Some (map the (utf8_items b)))"

definition decode_replace :: "bytes \<Rightarrow> ustr" where
  "decode_replace b = map (\<lambda>i. case i of None \<Rightarrow> 65533 | Some n \<Rightarrow> n) (utf8_items b)"

lemma continuation_byte:
  assumes "k < 64"
  shows "continuation (byte (128 + k))" and "low6 (byte (128 + k)) = k"
proof -
  have "unat (byte (128 + k)) = k + 2 * 64" using assms by (simp add: unat_byte)
  moreover have "(k + 2 * 64) mod 64 = k"
    using assms by (simp only: mod_mult_self1 mod_less)
  ultimately show "continuation (byte (128 + k))" and "low6 (byte (128 + k)) = k"
    using assms by (simp_all only: continuation_def low6_def) simp
qed

text \<open>The three long forms, over the base-64 digits they carry.\<close>

lemma utf8_items_two:
  "2 \<le> p \<Longrightarrow> p < 32 \<Longrightarrow> r < 64 \<Longrightarrow>
   utf8_items (byte (192 + p) # byte (128 + r) # bs) = Some (p * 64 + r) # utf8_items bs"
  by (simp add: utf8_items.simps(2) [of _ "_ # bs"] unat_byte continuation_byte Let_def)

lemma utf8_items_three:
  "p < 16 \<Longrightarrow> s < 64 \<Longrightarrow> r < 64 \<Longrightarrow> second_ok (224 + p) (byte (128 + s)) \<Longrightarrow>
   utf8_items (byte (224 + p) # byte (128 + s) # byte (128 + r) # bs) =
     Some (p * 4096 + s * 64 + r) # utf8_items bs"
  by (simp add: utf8_items.simps(2) [of _ "_ # _ # bs"] unat_byte continuation_byte Let_def)

lemma utf8_items_four:
  "q < 5 \<Longrightarrow> t < 64 \<Longrightarrow> s < 64 \<Longrightarrow> r < 64 \<Longrightarrow> second_ok (240 + q) (byte (128 + t)) \<Longrightarrow>
   utf8_items (byte (240 + q) # byte (128 + t) # byte (128 + s) # byte (128 + r) # bs) =
     Some (q * 262144 + t * 4096 + s * 64 + r) # utf8_items bs"
  by (simp add: utf8_items.simps(2) [of _ "_ # _ # _ # bs"] unat_byte continuation_byte Let_def)

lemma second_ok_three:
  assumes "s < 64" and "p < 16" and "p = 0 \<Longrightarrow> 32 \<le> s" and "p = 13 \<Longrightarrow> s < 32"
  shows "second_ok (224 + p) (byte (128 + s))"
  using assms by (auto simp: second_ok_def continuation_def unat_byte)

lemma second_ok_four:
  assumes "t < 64" and "q < 5" and "q = 0 \<Longrightarrow> 16 \<le> t" and "q = 4 \<Longrightarrow> t < 16"
  shows "second_ok (240 + q) (byte (128 + t))"
  using assms by (auto simp: second_ok_def continuation_def unat_byte)

lemma digits64: "n = 64 * (n div 64) + n mod 64" "n mod 64 < 64" for n :: nat
  by simp_all

lemma utf8_cp_digits:
  "n div 4096 = n div 64 div 64" "n div 262144 = n div 64 div 64 div 64" for n :: nat
  by (simp_all add: div_mult2_eq [symmetric])

lemma utf8_items_medium:
  assumes "2048 \<le> n" and "n < 65536" and "\<not> (55296 \<le> n \<and> n < 57344)"
  shows "utf8_items (byte (224 + n div 4096) # byte (128 + n div 64 mod 64) #
           byte (128 + n mod 64) # bs) = Some n # utf8_items bs"
proof -
  define p s r where "p = n div 64 div 64" and "s = n div 64 mod 64" and "r = n mod 64"
  have n: "n = p * 4096 + s * 64 + r" and b: "r < 64" "s < 64"
    using digits64 [of n] digits64 [of "n div 64"] unfolding p_def s_def r_def by linarith+
  have p: "p < 16" using assms(2) unfolding n by linarith
  have "second_ok (224 + p) (byte (128 + s))"
    using assms b n by (intro second_ok_three p) linarith+
  from utf8_items_three [OF p b(2,1) this, of bs, folded n] show ?thesis
    by (simp only: utf8_cp_digits p_def s_def r_def)
qed

lemma utf8_items_large:
  assumes "65536 \<le> n" and "n < 1114112"
  shows "utf8_items (byte (240 + n div 262144) # byte (128 + n div 4096 mod 64) #
           byte (128 + n div 64 mod 64) # byte (128 + n mod 64) # bs) = Some n # utf8_items bs"
proof -
  define q t s r where "q = n div 64 div 64 div 64" and "t = n div 64 div 64 mod 64"
    and "s = n div 64 mod 64" and "r = n mod 64"
  have n: "n = q * 262144 + t * 4096 + s * 64 + r" and b: "r < 64" "s < 64" "t < 64"
    using digits64 [of n] digits64 [of "n div 64"] digits64 [of "n div 64 div 64"]
    unfolding q_def t_def s_def r_def by linarith+
  have q: "q < 5" using assms(2) unfolding n by linarith
  have "second_ok (240 + q) (byte (128 + t))"
    using assms b n by (intro second_ok_four q) linarith+
  from utf8_items_four [OF q b(3,2,1) this, of bs, folded n] show ?thesis
    by (simp only: utf8_cp_digits q_def t_def s_def r_def)
qed

lemma utf8_items_one:
  assumes "utf8_cp n = Some b"
  shows "utf8_items (b @ bs) = Some n # utf8_items bs"
  using assms utf8_items_two [of "n div 64" "n mod 64" bs] utf8_items_medium [of n bs]
    utf8_items_large [of n bs]
  by (auto simp: utf8_cp_def utf8_items.simps(2) [of _ bs] unat_byte Let_def split: if_splits)

lemma utf8_items_utf8: "utf8 s = Some b \<Longrightarrow> utf8_items b = map Some s"
proof (induction s arbitrary: b)
  case (Cons c s)
  then obtain x y where "utf8_cp c = Some x" and "utf8 s = Some y" and "b = x @ y"
    by (auto split: option.splits)
  with Cons.IH show ?case by (simp add: utf8_items_one)
qed simp

lemma decode_strict_utf8: "utf8 s = Some b \<Longrightarrow> decode_strict b = Some s"
  by (auto simp: decode_strict_def utf8_items_utf8 comp_def)

lemma decode_replace_utf8: "utf8 s = Some b \<Longrightarrow> decode_replace b = s"
  by (simp add: decode_replace_def utf8_items_utf8 comp_def)

text \<open>What the decoder yields, replacements included, can be encoded again.\<close>

lemma low6_less: "low6 c < 64"
  by (simp add: low6_def)

lemma second_ok_low6:
  "second_ok 237 c \<Longrightarrow> low6 c < 32"
  "second_ok 244 c \<Longrightarrow> low6 c < 16"
proof -
  have mod: "128 \<le> m \<Longrightarrow> m < 192 \<Longrightarrow> m mod 64 = m - 128" for m :: nat
    using mod_less [of "m - 128" 64] mod_add_self2 [of "m - 128" 64] mod_add_self2 [of "m - 64" 64]
    by simp
  show "second_ok 237 c \<Longrightarrow> low6 c < 32" and "second_ok 244 c \<Longrightarrow> low6 c < 16"
    by (auto simp: second_ok_def low6_def mod)
qed

lemma scalar_two: "n < 224 \<Longrightarrow> scalar ((n - 192) * 64 + low6 c)"
  using low6_less [of c] unfolding scalar_def by linarith

lemma scalar_three:
  assumes "224 \<le> n" and "n \<le> 239" and "second_ok n c"
  shows "scalar ((n - 224) * 4096 + low6 c * 64 + low6 d)"
proof (cases "n = 237")
  case True
  then show ?thesis
    using second_ok_low6(1) [of c] low6_less [of d] assms(3) unfolding scalar_def by simp
next
  case False
  with assms(1,2) have "n - 224 \<le> 12 \<or> 14 \<le> n - 224 \<and> n - 224 \<le> 15" by linarith
  with low6_less [of c] low6_less [of d] show ?thesis unfolding scalar_def by linarith
qed

lemma scalar_four:
  assumes "240 \<le> n" and "n \<le> 244" and "second_ok n c"
  shows "scalar ((n - 240) * 262144 + low6 c * 4096 + low6 d * 64 + low6 e)"
proof -
  note less = low6_less [of c] low6_less [of d] low6_less [of e]
  consider "n = 240" | "n = 244" | "1 \<le> n - 240" "n - 240 \<le> 3" using assms by linarith
  then show ?thesis
  proof cases
    case 1
    have "144 \<le> unat c" "unat c < 192" using assms(3) 1 by (simp_all add: second_ok_def)
    then have "unat c = (unat c - 128) + 2 * 64" and "unat c - 128 < 64" by simp_all
    then have "low6 c = unat c - 128"
      unfolding low6_def by (metis mod_mult_self1 mod_less mult.commute)
    with \<open>144 \<le> unat c\<close> \<open>unat c - 128 < 64\<close> have "16 \<le> low6 c" by linarith
    with 1 less show ?thesis unfolding scalar_def by simp
  next
    case 2
    with assms(3) less second_ok_low6(2) [of c] show ?thesis unfolding scalar_def by simp
  next
    case 3
    with less show ?thesis unfolding scalar_def by linarith
  qed
qed

lemma utf8_items_scalar: "Some m \<in> set (utf8_items b) \<Longrightarrow> scalar m"
proof (induction b rule: length_induct)
  case (1 xs)
  show ?case
  proof (cases xs)
    case Nil
    with 1 show ?thesis by simp
  next
    case (Cons b bs)
    note step = utf8_items.simps(2) [of b, unfolded Let_def]
    have shorter: "length ys \<le> length bs \<Longrightarrow> Some m \<in> set (utf8_items ys) \<longrightarrow> scalar m" for ys
      using 1(1) [THEN spec, of ys] by (simp add: Cons less_Suc_eq_le)
    have ih: "Some m \<in> set (utf8_items bs) \<longrightarrow> scalar m"
      "Some m \<in> set (utf8_items (tl bs)) \<longrightarrow> scalar m"
      "Some m \<in> set (utf8_items (tl (tl bs))) \<longrightarrow> scalar m"
      "Some m \<in> set (utf8_items (tl (tl (tl bs)))) \<longrightarrow> scalar m"
      by (rule shorter; simp)+
    have m: "Some m \<in> set (utf8_items (b # bs))" using 1(2) by (simp add: Cons)
    consider "unat b < 128" | "194 \<le> unat b" "unat b \<le> 223" | "224 \<le> unat b" "unat b \<le> 239"
      | "240 \<le> unat b" "unat b \<le> 244"
      | "\<not> unat b < 128" "\<not> (194 \<le> unat b \<and> unat b \<le> 223)" "\<not> (224 \<le> unat b \<and> unat b \<le> 239)"
        "\<not> (240 \<le> unat b \<and> unat b \<le> 244)"
      by linarith
    then show ?thesis
    proof cases
      case 1
      with m ih(1) show ?thesis by (auto simp: step scalar_def)
    next
      case 2
      with m ih(1,2) show ?thesis
        by (cases bs) (auto simp: step scalar_two split: if_splits)
    next
      case 3
      show ?thesis
      proof (cases bs)
        case Nil
        with 3 m show ?thesis by (simp add: step)
      next
        case (Cons c r)
        with 3 m ih(1-3) scalar_three [OF 3, of c] show ?thesis
          by (cases r) (auto simp: step split: if_splits)
      qed
    next
      case 4
      show ?thesis
      proof (cases bs)
        case Nil
        with 4 m show ?thesis by (simp add: step)
      next
        case (Cons c r)
        note c = this
        show ?thesis
        proof (cases r)
          case Nil
          with c 4 m ih(1) show ?thesis by (simp add: step split: if_splits)
        next
          case (Cons d q)
          with c 4 m ih scalar_four [OF 4, of c] show ?thesis
            by (cases q) (auto simp: step split: if_splits)
        qed
      qed
    next
      case 5
      with m ih(1) show ?thesis by (simp add: step)
    qed
  qed
qed

lemma decode_replace_scalar: "list_all scalar (decode_replace b)"
  using utf8_items_scalar
  by (force simp: decode_replace_def list_all_iff scalar_def split: option.splits)

section \<open>Decimal numerals\<close>

fun show_nat :: "nat \<Rightarrow> string" where
  "show_nat n =
     (if n < 10 then [char_of (48 + n)] else show_nat (n div 10) @ [char_of (48 + n mod 10)])"

declare show_nat.simps [simp del]

definition show_int :: "int \<Rightarrow> string" where
  "show_int i = (if i < 0 then ''-'' @ show_nat (nat (- i)) else show_nat (nat i))"

definition is_digit :: "char \<Rightarrow> bool" where
  "is_digit c \<longleftrightarrow> 48 \<le> (of_char c :: nat) \<and> (of_char c :: nat) \<le> 57"

definition read_nat :: "string \<Rightarrow> nat" where
  "read_nat s = foldl (\<lambda>n c. 10 * n + (of_char c - 48)) 0 s"

lemma of_char_digit: "d < 10 \<Longrightarrow> (of_char (char_of (48 + d :: nat) :: char) :: nat) = 48 + d"
  by (simp add: of_char_of)

lemma show_nat_digits: "list_all is_digit (show_nat n) \<and> show_nat n \<noteq> []"
proof (induction n rule: show_nat.induct)
  case (1 n)
  then show ?case
    by (subst (1 2) show_nat.simps) (use mod_less_divisor [of 10 n] in \<open>simp add: is_digit_def [of "char_of _"] del: mod_less_divisor\<close>)
qed

lemma read_nat_show_nat: "read_nat (show_nat n) = n"
proof (induction n rule: show_nat.induct)
  case (1 n)
  then show ?case
    by (subst show_nat.simps) (auto simp: read_nat_def of_char_digit)
qed

end
