(* ===== verification/Headers.thy ===== *)
theory Headers
  imports Text "HOL-Library.Multiset"
begin

text \<open>
  The \<open>Headers\<close> class of \<open>src/cronet/headers.py\<close>: header pairs in wire order, repeats
  kept, names matched without regard to case. The loops that carry a set of names already
  handled (\<open>__iter__\<close> and \<open>with_defaults\<close>) are recursive functions with that set as an
  argument. A \<open>KeyError\<close> of \<open>__getitem__\<close> is the value \<open>None\<close>.

  The locale \<open>header_map\<close> is what the request builder relies on: looking a name up after
  laying one header block over another, and after appending pairs. It is interpreted on
  the class's own operations at the end of the theory.
\<close>

type_synonym pairs = "(string \<times> string) list"

datatype headers = Headers (header_items: pairs)

text \<open>What a caller may pass as headers; a mapping is iterated through its \<open>items()\<close>.\<close>

datatype header_source = NoHeaders | MappingHeaders pairs | PairHeaders pairs

fun source_pairs :: "header_source \<Rightarrow> pairs" where
  "source_pairs NoHeaders = []"
| "source_pairs (MappingHeaders ps) = ps"
| "source_pairs (PairHeaders ps) = ps"

definition mk_headers :: "header_source \<Rightarrow> headers" where
  "mk_headers src = Headers (source_pairs src)"

section \<open>Lookup\<close>

definition get_list :: "headers \<Rightarrow> string \<Rightarrow> string list" where
  "get_list h name =
     map snd (filter (\<lambda>p. lower (fst p) = lower name) (header_items h))"

definition getitem :: "headers \<Rightarrow> string \<Rightarrow> string option" where
  "getitem h name =
     (let values = get_list h name in
      if values = [] then None else Some (join '', '' values))"

definition contains :: "headers \<Rightarrow> string \<Rightarrow> bool" where
  "contains h name \<longleftrightarrow> list_ex (\<lambda>p. lower (fst p) = lower name) (header_items h)"

definition header_get :: "headers \<Rightarrow> string \<Rightarrow> string \<Rightarrow> string" where
  "header_get h name dflt = (case getitem h name of None \<Rightarrow> dflt | Some v \<Rightarrow> v)"

fun iter_loop :: "string set \<Rightarrow> pairs \<Rightarrow> string list" where
  "iter_loop seen [] = []"
| "iter_loop seen ((name, v) # ps) =
     (if lower name \<notin> seen then name # iter_loop (insert (lower name) seen) ps
      else iter_loop seen ps)"

definition iter_names :: "headers \<Rightarrow> string list" where
  "iter_names h = iter_loop {} (header_items h)"

definition header_len :: "headers \<Rightarrow> nat" where
  "header_len h = card (set (map (\<lambda>p. lower (fst p)) (header_items h)))"

section \<open>Laying headers over defaults\<close>

definition own_names :: "pairs \<Rightarrow> string set" where
  "own_names ps = set (map (\<lambda>p. lower (fst p)) ps)"

definition named :: "string \<Rightarrow> pairs \<Rightarrow> pairs" where
  "named folded ps = filter (\<lambda>p. lower (fst p) = folded) ps"

fun defaults_loop :: "pairs \<Rightarrow> pairs \<Rightarrow> string set \<Rightarrow> pairs \<Rightarrow> string set \<times> pairs" where
  "defaults_loop own [] emitted result = (emitted, result)"
| "defaults_loop own ((name, v) # ds) emitted result =
     (if lower name \<notin> own_names own then defaults_loop own ds emitted (result @ [(name, v)])
      else if lower name \<notin> emitted then
        defaults_loop own ds (insert (lower name) emitted) (result @ named (lower name) own)
      else defaults_loop own ds emitted result)"

definition with_defaults :: "headers \<Rightarrow> headers \<Rightarrow> headers" where
  "with_defaults h defaults =
     (case defaults_loop (header_items h) (header_items defaults) {} [] of
        (emitted, result) \<Rightarrow>
          Headers (result @ filter (\<lambda>p. lower (fst p) \<notin> emitted) (header_items h)))"

text \<open>\<open>Headers([*merged.items(), *additions])\<close>, the way the request builder appends.\<close>

definition append_pairs :: "headers \<Rightarrow> pairs \<Rightarrow> headers" where
  "append_pairs h ps = Headers (header_items h @ ps)"

section \<open>Facts about lookup\<close>

lemma lower_in_own_names: "n \<in> own_names ps \<longleftrightarrow> (\<exists>p \<in> set ps. lower (fst p) = n)"
  by (auto simp: own_names_def)

lemma own_names_append [simp]: "own_names (ps @ qs) = own_names ps \<union> own_names qs"
  by (simp add: own_names_def)

lemma named_append [simp]: "named n (ps @ qs) = named n ps @ named n qs"
  by (simp add: named_def)

lemma named_named: "named n (named m ps) = (if n = m then named m ps else [])"
  by (induction ps) (auto simp: named_def)

lemma named_Nil_iff: "named n ps = [] \<longleftrightarrow> n \<notin> own_names ps"
  by (auto simp: named_def filter_empty_conv lower_in_own_names)

lemma get_list_named: "get_list h name = map snd (named (lower name) (header_items h))"
  by (simp add: get_list_def named_def)

lemma contains_own_names: "contains h name \<longleftrightarrow> lower name \<in> own_names (header_items h)"
  by (auto simp: contains_def list_ex_iff lower_in_own_names)

lemma contains_get_list: "contains h name \<longleftrightarrow> get_list h name \<noteq> []"
  by (simp add: contains_own_names get_list_named named_Nil_iff)

lemma getitem_None_iff: "getitem h name = None \<longleftrightarrow> \<not> contains h name"
  by (simp add: getitem_def contains_get_list Let_def)

lemma contains_lower: "lower n = lower m \<Longrightarrow> contains h n = contains h m"
  by (simp add: contains_def)

lemma iter_loop_lower:
  "set (map lower (iter_loop seen ps)) = own_names ps - seen \<and>
   distinct (map lower (iter_loop seen ps))"
proof (induction seen ps rule: iter_loop.induct)
  case (1 seen)
  then show ?case by (simp add: own_names_def)
next
  case (2 seen name v ps)
  then show ?case by (auto simp: own_names_def)
qed

lemma iter_loop_first: "name \<in> set (iter_loop seen ps) \<Longrightarrow> name \<in> fst ` set ps"
  by (induction seen ps rule: iter_loop.induct) (auto split: if_splits)

section \<open>What the merge loop computes\<close>

lemma defaults_loop_result:
  "defaults_loop own ds em res = (em', res') \<Longrightarrow>
   em' = em \<union> (own_names own \<inter> own_names ds) \<and>
   (\<forall>n. named n res' =
      named n res @ (if n \<in> own_names own then (if n \<in> em' - em then named n own else [])
                     else named n ds))"
proof (induction own ds em res arbitrary: em' res' rule: defaults_loop.induct)
  case (1 own em res)
  then show ?case by (auto simp: own_names_def named_def)
next
  case (2 own name v ds em res)
  consider (fresh) "lower name \<notin> own_names own"
    | (first) "lower name \<in> own_names own" "lower name \<notin> em"
    | (again) "lower name \<in> own_names own" "lower name \<in> em" by blast
  then show ?case
  proof cases
    case fresh
    then have run: "defaults_loop own ds em (res @ [(name, v)]) = (em', res')"
      using "2.prems" by simp
    from "2.IH"(1) [OF fresh run] fresh show ?thesis
      by (auto simp: own_names_def named_def)
  next
    case first
    then have run: "defaults_loop own ds (insert (lower name) em)
        (res @ named (lower name) own) = (em', res')"
      using "2.prems" by simp
    have ih: "em' = insert (lower name) em \<union> (own_names own \<inter> own_names ds)"
      "named n res' = named n (res @ named (lower name) own) @
         (if n \<in> own_names own then (if n \<in> em' - insert (lower name) em then named n own else [])
          else named n ds)" for n
      using "2.IH"(2) [OF _ first(2) run] first(1) by blast+
    show ?thesis
    proof (intro conjI allI)
      show "em' = em \<union> (own_names own \<inter> own_names ((name, v) # ds))"
        using ih(1) first by (auto simp: own_names_def)
      fix n
      show "named n res' = named n res @ (if n \<in> own_names own
          then (if n \<in> em' - em then named n own else []) else named n ((name, v) # ds))"
        using ih(2) [of n] ih(1) first
        by (auto simp: named_named) (auto simp: named_def)
    qed
  next
    case again
    then have run: "defaults_loop own ds em res = (em', res')"
      using "2.prems" by simp
    from "2.IH"(3) [OF _ _ run] again show ?thesis
      by (auto simp: own_names_def named_def)
  qed
qed

lemma named_with_defaults:
  "named n (header_items (with_defaults h d)) =
     (if n \<in> own_names (header_items h) then named n (header_items h)
      else named n (header_items d))"
proof -
  obtain em res where run: "defaults_loop (header_items h) (header_items d) {} [] = (em, res)"
    by (cases "defaults_loop (header_items h) (header_items d) {} []") auto
  note facts = defaults_loop_result [OF run]
  have tail: "named n (filter (\<lambda>p. lower (fst p) \<notin> em) (header_items h)) =
      (if n \<in> em then [] else named n (header_items h))"
    by (auto simp: named_def filter_empty_conv intro: filter_cong)
  have "named n (header_items h) = []" if "n \<notin> own_names (header_items h)"
    using that by (simp add: named_Nil_iff)
  then show ?thesis using facts tail
    by (auto simp: with_defaults_def run named_def [of _ "[]"])
qed

lemma get_list_with_defaults:
  "get_list (with_defaults h d) name =
     (if contains h name then get_list h name else get_list d name)"
  by (simp add: get_list_named named_with_defaults contains_own_names)

lemma get_list_append_pairs:
  "get_list (append_pairs h ps) name = get_list h name @ map snd (named (lower name) ps)"
  by (simp add: append_pairs_def get_list_named)

section \<open>Which pairs survive a merge, and where\<close>

lemma mset_by_named: "(\<And>n. mset (named n xs) = mset (named n ys)) \<Longrightarrow> mset xs = mset ys"
proof (rule multiset_eqI)
  fix p :: "string \<times> string"
  assume eq: "\<And>n. mset (named n xs) = mset (named n ys)"
  have "count (mset zs) p = count (mset (named (lower (fst p)) zs)) p" for zs
    by (simp add: named_def)
  from this [of xs] this [of ys] eq [of "lower (fst p)"]
  show "count (mset xs) p = count (mset ys) p" by (simp only:)
qed

definition firsts :: "string set \<Rightarrow> pairs \<Rightarrow> string list" where
  "firsts seen ps = map lower (iter_loop seen ps)"

lemma firsts_simps [simp]:
  "firsts seen [] = []"
  "firsts seen (p # ps) =
     (if lower (fst p) \<in> seen then firsts seen ps
      else lower (fst p) # firsts (insert (lower (fst p)) seen) ps)"
  by (cases p; simp add: firsts_def)+

lemma firsts_append: "firsts seen (ps @ qs) = firsts seen ps @ firsts (seen \<union> own_names ps) qs"
  by (induction ps arbitrary: seen) (auto simp: own_names_def insert_absorb Un_commute)

lemma firsts_Un: "firsts (A \<union> B) ps = filter (\<lambda>n. n \<notin> A) (firsts B ps)"
proof (induction ps arbitrary: B)
  case (Cons p ps)
  have ih: "firsts (insert (lower (fst p)) (A \<union> B)) ps =
      filter (\<lambda>n. n \<notin> A) (firsts (insert (lower (fst p)) B) ps)"
    using Cons.IH [of "insert (lower (fst p)) B"] by simp
  then have "filter (\<lambda>n. n \<notin> A) (firsts B ps) =
      filter (\<lambda>n. n \<notin> A) (firsts (insert (lower (fst p)) B) ps)" if "lower (fst p) \<in> A"
    using that Cons.IH [of B] by (simp add: insert_absorb)
  then show ?case using Cons.IH [of B] ih by auto
qed simp

lemma firsts_named: "n \<in> own_names own \<Longrightarrow> n \<notin> seen \<Longrightarrow> firsts seen (named n own) = [n]"
proof (induction own)
  case (Cons p own)
  have all: "firsts (insert n S) (named n qs) = []" for qs S
    by (induction qs) (auto simp: named_def)
  show ?case
  proof (cases "lower (fst p) = n")
    case True
    with Cons.prems all show ?thesis by (simp add: named_def)
  next
    case False
    with Cons show ?thesis by (simp add: named_def own_names_def)
  qed
qed (simp add: own_names_def)

lemma own_names_named: "own_names (named n own) = (if n \<in> own_names own then {n} else {})"
  by (force simp: own_names_def named_def)

lemma defaults_loop_firsts:
  "defaults_loop own ds em res = (em', res') \<Longrightarrow> em = own_names own \<inter> own_names res \<Longrightarrow>
   firsts {} res' = firsts {} res @ firsts (own_names res) ds \<and>
   own_names res' = own_names res \<union> own_names ds"
proof (induction own ds em res arbitrary: em' res' rule: defaults_loop.induct)
  case (1 own em res)
  then show ?case by (simp add: own_names_def)
next
  case (2 own name v ds em res)
  have single: "own_names ((name, v) # ds) = insert (lower name) (own_names ds)"
    by (simp add: own_names_def)
  consider (fresh) "lower name \<notin> own_names own"
    | (first) "lower name \<in> own_names own" "lower name \<notin> em"
    | (again) "lower name \<in> own_names own" "lower name \<in> em" by blast
  then show ?case
  proof cases
    case fresh
    then have run: "defaults_loop own ds em (res @ [(name, v)]) = (em', res')"
      using "2.prems" by simp
    have "em = own_names own \<inter> own_names (res @ [(name, v)])"
      using fresh "2.prems"(2) by (auto simp: own_names_def)
    from "2.IH"(1) [OF fresh run this] show ?thesis
      by (auto simp: firsts_append single own_names_def insert_absorb)
  next
    case first
    then have run: "defaults_loop own ds (insert (lower name) em)
        (res @ named (lower name) own) = (em', res')"
      using "2.prems" by simp
    have "insert (lower name) em = own_names own \<inter> own_names (res @ named (lower name) own)"
      using first "2.prems"(2) by (auto simp: own_names_named)
    from "2.IH"(2) [OF _ first(2) run this] first "2.prems"(2) show ?thesis
      by (auto simp: firsts_append single own_names_named firsts_named)
  next
    case again
    then have run: "defaults_loop own ds em res = (em', res')"
      using "2.prems" by simp
    from "2.IH"(3) [OF _ _ run "2.prems"(2)] again "2.prems"(2) show ?thesis
      by (auto simp: single)
  qed
qed

section \<open>The interface the request builder uses\<close>

locale header_map =
  fixes lookup_all :: "'h \<Rightarrow> string \<Rightarrow> string list"
    and has :: "'h \<Rightarrow> string \<Rightarrow> bool"
    and over :: "'h \<Rightarrow> 'h \<Rightarrow> 'h"
    and add_pairs :: "'h \<Rightarrow> pairs \<Rightarrow> 'h"
  assumes has_iff: "has h n \<longleftrightarrow> lookup_all h n \<noteq> []"
    and lookup_over: "lookup_all (over h d) n = (if has h n then lookup_all h n else lookup_all d n)"
    and lookup_add: "lookup_all (add_pairs h ps) n =
       lookup_all h n @ map snd (filter (\<lambda>p. lower (fst p) = lower n) ps)"
begin

lemma has_over: "has (over h d) n \<longleftrightarrow> has h n \<or> has d n"
  using has_iff lookup_over by auto

lemma has_add: "has (add_pairs h ps) n \<longleftrightarrow> has h n \<or> (\<exists>p \<in> set ps. lower (fst p) = lower n)"
  by (auto simp: has_iff lookup_add filter_empty_conv)

lemma add_absent: "(\<And>p. p \<in> set ps \<Longrightarrow> lower (fst p) \<noteq> lower n) \<Longrightarrow>
  lookup_all (add_pairs h ps) n = lookup_all h n"
  by (simp add: lookup_add filter_False)

text \<open>A name added only when it was absent is looked up to exactly the value added.\<close>

lemma add_if_absent: "\<not> has h n \<Longrightarrow> lookup_all (add_pairs h [(n, v)]) n = [v]"
  by (simp add: lookup_add has_iff)

end

interpretation hdrs: header_map get_list contains with_defaults append_pairs
proof unfold_locales
  fix h d :: headers and n ps
  show "contains h n \<longleftrightarrow> get_list h n \<noteq> []" by (rule contains_get_list)
  show "get_list (with_defaults h d) n = (if contains h n then get_list h n else get_list d n)"
    by (rule get_list_with_defaults)
  show "get_list (append_pairs h ps) n =
      get_list h n @ map snd (filter (\<lambda>p. lower (fst p) = lower n) ps)"
    by (simp add: get_list_append_pairs named_def)
qed

section \<open>Properties of the merge\<close>

lemma with_defaults_parts:
  obtains em res where "defaults_loop (header_items h) (header_items d) {} [] = (em, res)"
    and "em = own_names (header_items h) \<inter> own_names (header_items d)"
    and "firsts {} res = firsts {} (header_items d)"
    and "own_names res = own_names (header_items d)"
proof -
  obtain em res where run: "defaults_loop (header_items h) (header_items d) {} [] = (em, res)"
    by (cases "defaults_loop (header_items h) (header_items d) {} []") auto
  have "em = own_names (header_items h) \<inter> own_names (header_items d)"
    using defaults_loop_result [OF run] by simp
  moreover have "firsts {} res = firsts {} (header_items d) \<and> own_names res = own_names (header_items d)"
    using defaults_loop_firsts [OF run] by (simp add: own_names_def)
  ultimately show ?thesis using run that by blast
qed

lemma own_names_filter_names:
  "firsts seen (filter (\<lambda>p. lower (fst p) \<notin> A) ps) = filter (\<lambda>n. n \<notin> A) (firsts seen ps)"
proof (induction ps arbitrary: seen)
  case (Cons p ps)
  show ?case
  proof (cases "lower (fst p) \<in> A")
    case True
    have "filter (\<lambda>n. n \<notin> A) (firsts (insert (lower (fst p)) seen) ps) =
        filter (\<lambda>n. n \<notin> A) (firsts seen ps)"
      using firsts_Un [of "{lower (fst p)}" seen ps] True
      by (simp add: filter_filter, intro filter_cong) auto
    with True Cons.IH show ?thesis by simp
  next
    case False
    with Cons.IH show ?thesis by simp
  qed
qed simp

text \<open>C36. Laying a caller's headers over a session's: a name the caller spoke for has exactly the
  caller's values, in the caller's order and repeats included; every other name has exactly the
  session's.\<close>

theorem merge_lookup:
  "get_list (with_defaults h d) n = (if contains h n then get_list h n else get_list d n)"
  by (rule hdrs.lookup_over)

text \<open>The order a session establishes is not disturbed by a request's headers: the folded
  names of the merge, each where it first appears on the wire, are the session's in the
  session's order, followed by the caller's other names in the caller's order.\<close>

theorem merge_order:
  "map lower (iter_names (with_defaults h d)) =
     map lower (iter_names d) @
     filter (\<lambda>n. n \<notin> own_names (header_items d)) (map lower (iter_names h))"
proof -
  obtain em res where run: "defaults_loop (header_items h) (header_items d) {} [] = (em, res)"
    and em: "em = own_names (header_items h) \<inter> own_names (header_items d)"
    and f: "firsts {} res = firsts {} (header_items d)"
    and o: "own_names res = own_names (header_items d)"
    by (rule with_defaults_parts)
  let ?tail = "filter (\<lambda>p. lower (fst p) \<notin> em) (header_items h)"
  have tail: "?tail = filter (\<lambda>p. lower (fst p) \<notin> own_names (header_items d)) (header_items h)"
    by (intro filter_cong refl) (auto simp: em own_names_def)
  have "firsts {} (res @ ?tail) = firsts {} (header_items d) @
      filter (\<lambda>n. n \<notin> own_names (header_items d)) (firsts {} (header_items h))"
    using firsts_Un [of "own_names (header_items d)" "{}"]
    by (simp add: firsts_append f o tail own_names_filter_names)
  then show ?thesis
    by (simp add: iter_names_def with_defaults_def run firsts_def)
qed

text \<open>Nothing is lost or invented by a merge: the pairs of the result are the caller's pairs
  and the session's pairs for the names the caller left alone, each exactly as often as it was
  given.\<close>

theorem merge_pairs:
  "mset (header_items (with_defaults h d)) =
     mset (header_items h) +
     mset (filter (\<lambda>p. \<not> contains h (fst p)) (header_items d))"
proof -
  have "mset (header_items (with_defaults h d)) =
      mset (header_items h @ filter (\<lambda>p. \<not> contains h (fst p)) (header_items d))"
  proof (rule mset_by_named)
    fix n
    have rest: "named n (filter (\<lambda>p. \<not> contains h (fst p)) ps) =
        (if n \<in> own_names (header_items h) then [] else named n ps)" for ps
      by (auto simp: named_def filter_empty_conv contains_own_names intro: filter_cong)
    have "named n (header_items h) = []" if "n \<notin> own_names (header_items h)"
      using that by (simp add: named_Nil_iff)
    then show "mset (named n (header_items (with_defaults h d))) =
        mset (named n (header_items h @ filter (\<lambda>p. \<not> contains h (fst p)) (header_items d)))"
      by (simp add: named_with_defaults rest)
  qed
  then show ?thesis by simp
qed

text \<open>The mapping protocol of the class is coherent: iterating yields one spelling of each name,
  as many as its length says, exactly the names that indexing finds, and a name has the values
  joined by a comma and a space.\<close>

theorem mapping_coherent:
  "length (iter_names h) = header_len h \<and>
   distinct (map lower (iter_names h)) \<and>
   (contains h n \<longleftrightarrow> lower n \<in> lower ` set (iter_names h)) \<and>
   getitem h n = (if contains h n then Some (join '', '' (get_list h n)) else None)"
proof -
  have names: "set (map lower (iter_names h)) = own_names (header_items h)"
    and dist: "distinct (map lower (iter_names h))"
    using iter_loop_lower [of "{}" "header_items h"] by (auto simp: iter_names_def)
  have "length (iter_names h) = card (set (map lower (iter_names h)))"
    using dist by (simp only: distinct_card length_map)
  then have "length (iter_names h) = header_len h"
    by (simp only: names header_len_def own_names_def)
  moreover have "contains h n \<longleftrightarrow> lower n \<in> lower ` set (iter_names h)"
    using names by (simp add: contains_own_names)
  moreover have "getitem h n = (if contains h n then Some (join '', '' (get_list h n)) else None)"
    by (simp add: getitem_def contains_get_list)
  ultimately show ?thesis using dist by blast
qed

end
