(* ===== verification/Wire.thy ===== *)
theory Wire
  imports Headers
begin

text \<open>
  The data that crosses from the native library to the caller: the timing struct of the
  C ABI and its Python copy (\<open>Metrics\<close> in \<open>src/cronet/_bridge.py\<close>), a call's metadata
  (\<open>RawResponse\<close>) and the \<open>Response\<close> object (\<open>src/cronet/response.py\<close>). The operations of
  \<open>Response\<close> are in the theory Responses; only the data is here, because the exceptions of
  the theory Errors carry a response.
\<close>

definition NO_TIME :: int where
  "NO_TIME = -1"

section \<open>Timings\<close>

text \<open>\<open>cronet_metrics\<close>: thirteen \<open>int64_t\<close> and one \<open>int32_t\<close>, read as two's complement.\<close>

record c_metrics =
  c_request_start_us :: "64 word"
  c_dns_start_us :: "64 word"
  c_dns_end_us :: "64 word"
  c_connect_start_us :: "64 word"
  c_connect_end_us :: "64 word"
  c_ssl_start_us :: "64 word"
  c_ssl_end_us :: "64 word"
  c_send_start_us :: "64 word"
  c_send_end_us :: "64 word"
  c_response_start_us :: "64 word"
  c_request_end_us :: "64 word"
  c_sent_bytes :: "64 word"
  c_received_bytes :: "64 word"
  c_socket_reused :: "32 word"

text \<open>A ctypes struct starts out zeroed.\<close>

definition zero_metrics :: c_metrics where
  "zero_metrics = \<lparr>c_request_start_us = 0, c_dns_start_us = 0, c_dns_end_us = 0,
     c_connect_start_us = 0, c_connect_end_us = 0, c_ssl_start_us = 0, c_ssl_end_us = 0,
     c_send_start_us = 0, c_send_end_us = 0, c_response_start_us = 0, c_request_end_us = 0,
     c_sent_bytes = 0, c_received_bytes = 0, c_socket_reused = 0\<rparr>"

record metrics =
  request_start_us :: int
  dns_start_us :: int
  dns_end_us :: int
  connect_start_us :: int
  connect_end_us :: int
  ssl_start_us :: int
  ssl_end_us :: int
  send_start_us :: int
  send_end_us :: int
  response_start_us :: int
  request_end_us :: int
  sent_bytes :: int
  received_bytes :: int
  socket_reused :: bool

definition from_native :: "c_metrics \<Rightarrow> metrics" where
  "from_native m = \<lparr>
     request_start_us = sint (c_request_start_us m),
     dns_start_us = sint (c_dns_start_us m),
     dns_end_us = sint (c_dns_end_us m),
     connect_start_us = sint (c_connect_start_us m),
     connect_end_us = sint (c_connect_end_us m),
     ssl_start_us = sint (c_ssl_start_us m),
     ssl_end_us = sint (c_ssl_end_us m),
     send_start_us = sint (c_send_start_us m),
     send_end_us = sint (c_send_end_us m),
     response_start_us = sint (c_response_start_us m),
     request_end_us = sint (c_request_end_us m),
     sent_bytes = sint (c_sent_bytes m),
     received_bytes = sint (c_received_bytes m),
     socket_reused = (c_socket_reused m \<noteq> 0)\<rparr>"

definition total_us :: "metrics \<Rightarrow> int" where
  "total_us m =
     (if request_start_us m = NO_TIME \<or> request_end_us m = NO_TIME then NO_TIME
      else request_end_us m - request_start_us m)"

section \<open>A call's metadata\<close>

text \<open>
  Strings decoded as UTF-8 are code point lists; the status text and the headers are
  decoded as latin-1 and stay in the header domain.
\<close>

record raw_response =
  raw_status_code :: int
  raw_reason :: string
  raw_headers :: pairs
  raw_url :: ustr
  raw_http_version :: ustr
  raw_redirect_count :: int
  raw_from_cache :: bool
  raw_proxy :: ustr
  raw_metrics :: metrics

section \<open>The response object\<close>

text \<open>
  The iterator behind a streamed body: the pieces it has still to yield, and whether it
  then raises \<open>TimeoutError\<close> instead of ending. The generator of the bridge that
  produces it is in the theory Bridge.
\<close>

datatype body_stream = BodyStream (pieces: "bytes list") (times_out: bool)

datatype response = Response
  (status_code: int)
  (reason: string)
  (resp_headers: headers)
  (content: bytes)
  (resp_url: ustr)
  (http_version: ustr)
  (redirect_count: int)
  (from_cache: bool)
  (resp_proxy: ustr)
  (resp_metrics: metrics)
  (history: "response list")
  (stream: "body_stream option")

definition from_raw :: "raw_response \<Rightarrow> bytes \<Rightarrow> response" where
  "from_raw raw body =
     Response (raw_status_code raw) (raw_reason raw) (Headers (raw_headers raw)) body
       (raw_url raw) (raw_http_version raw) (raw_redirect_count raw) (raw_from_cache raw)
       (raw_proxy raw) (raw_metrics raw) [] None"

fun with_history :: "response \<Rightarrow> response list \<Rightarrow> response" where
  "with_history (Response s r h c u v n f p m _ st) hist = Response s r h c u v n f p m hist st"

fun with_content :: "response \<Rightarrow> bytes \<Rightarrow> body_stream option \<Rightarrow> response" where
  "with_content (Response s r h _ u v n f p m hist _) c st = Response s r h c u v n f p m hist st"

lemma with_history_simps [simp]:
  "history (with_history r hs) = hs"
  "status_code (with_history r hs) = status_code r"
  "resp_headers (with_history r hs) = resp_headers r"
  "content (with_history r hs) = content r"
  "http_version (with_history r hs) = http_version r"
  by (cases r; simp)+

lemma with_content_simps [simp]:
  "content (with_content r c st) = c"
  "stream (with_content r c st) = st"
  "status_code (with_content r c st) = status_code r"
  "resp_headers (with_content r c st) = resp_headers r"
  by (cases r; simp)+

lemma from_raw_simps [simp]:
  "status_code (from_raw raw b) = raw_status_code raw"
  "content (from_raw raw b) = b"
  "history (from_raw raw b) = []"
  "stream (from_raw raw b) = None"
  "http_version (from_raw raw b) = raw_http_version raw"
  "resp_headers (from_raw raw b) = Headers (raw_headers raw)"
  by (simp_all add: from_raw_def)

end
