(* ===== verification/Errors.thy ===== *)
theory Errors
  imports Wire
begin

text \<open>
  Everything the package raises (\<open>src/cronet/errors.py\<close>), together with the built-in
  exceptions its guards raise. Message texts are kept where the code composes them from
  data; a guard's fixed wording is represented by a constructor that names the guard.
\<close>

text \<open>The subclasses of \<open>RequestError\<close>, and \<open>RequestError\<close> itself.\<close>

datatype request_class =
    RequestError | ConnectionFailed | Timeout | Cancelled | TooManyRedirects
  | ProxyFailed | CertificateError

datatype type_reason =
    UnknownOptions "string list"
  | NoScheme string string
  | UnusableScheme string string
  | NoHostNamed string
  | TwoAuthorizations
  | TwoBodies "string list"
  | FilesBeside string
  | NotAFile

datatype value_reason =
    StackOwned string string string
  | Http3SwitchedOff
  | Http3ThroughProxy
  | BadEnumValue string
  | PortNotNumeric string
  | PortOutOfRange nat
  | BracketedHost
  | BadVersion string string
  | UnknownAlpn "string list"
  | Unorderable "int list"
  | RepeatedExtension
  | ByteOutOfRange int

datatype exn =
    TypeError type_reason
  | ValueError value_reason
  | UnicodeEncodeError
  | UnicodeDecodeError
  | LookupError string
  | RuntimeError string
  | TimeoutError
  | OSError
  | LibraryError ustr
  | SessionClosed
  | RequestFailed request_class (message: ustr) (net_error: int) (err_url: string)
  | HTTPStatusError ustr response
  | ProtocolDowngraded ustr response

text \<open>\<open>isinstance(e, CronetError)\<close>.\<close>

fun is_cronet_error :: "exn \<Rightarrow> bool" where
  "is_cronet_error (LibraryError m) = True"
| "is_cronet_error SessionClosed = True"
| "is_cronet_error (RequestFailed c m n u) = True"
| "is_cronet_error (HTTPStatusError m r) = True"
| "is_cronet_error (ProtocolDowngraded m r) = True"
| "is_cronet_error _ = False"

section \<open>Sorting Chromium's error codes\<close>

definition ERROR_TIMED_OUT :: int where
  "ERROR_TIMED_OUT = -7"

definition ERROR_TOO_MANY_REDIRECTS :: int where
  "ERROR_TOO_MANY_REDIRECTS = -31"

definition PROXY_ERRORS :: "int list" where
  "PROXY_ERRORS = [-115, -127, -130, -131, -136, -144, -336]"

definition SSL_ERRORS :: "int list" where
  "SSL_ERRORS = [-107, -113, -117, -122, -126, -141, -164]"

definition TIMEOUT_ERRORS :: "int list" where
  "TIMEOUT_ERRORS = [-7, -118]"

definition CANCELLED :: int where
  "CANCELLED = -3"

definition REDIRECT_LIMIT :: int where
  "REDIRECT_LIMIT = -31"

definition error_text :: "int \<Rightarrow> ustr \<Rightarrow> string \<Rightarrow> ustr" where
  "error_text code msg url =
     (if url \<noteq> [] then
        (if msg \<noteq> [] then msg else cps ''network error '' @ cps (show_int code)) @
        cps '' for '' @ cps url
      else msg)"

definition error_class :: "int \<Rightarrow> request_class" where
  "error_class code =
     (if code \<in> set TIMEOUT_ERRORS then Timeout
      else if code = CANCELLED then Cancelled
      else if code = REDIRECT_LIMIT then TooManyRedirects
      else if code \<in> set PROXY_ERRORS then ProxyFailed
      else if code \<in> set SSL_ERRORS \<or> -300 < code \<and> code \<le> -200 then CertificateError
      else if -200 < code \<and> code \<le> -100 then ConnectionFailed
      else RequestError)"

definition error_for :: "int \<Rightarrow> ustr \<Rightarrow> string \<Rightarrow> exn" where
  "error_for code msg url = RequestFailed (error_class code) (error_text code msg url) code url"

lemmas error_sets =
  PROXY_ERRORS_def SSL_ERRORS_def TIMEOUT_ERRORS_def CANCELLED_def REDIRECT_LIMIT_def

lemma error_for_keeps [simp]:
  "net_error (error_for code msg url) = code"
  "err_url (error_for code msg url) = url"
  "is_cronet_error (error_for code msg url)"
  by (simp_all add: error_for_def)

text \<open>
  The order of the tests in \<open>error_for\<close> does not matter between the named sets: they are
  disjoint, so a code has one class whichever test is made first.
\<close>

lemma error_sets_disjoint:
  "set TIMEOUT_ERRORS \<inter> set PROXY_ERRORS = {}"
  "set TIMEOUT_ERRORS \<inter> set SSL_ERRORS = {}"
  "set PROXY_ERRORS \<inter> set SSL_ERRORS = {}"
  "CANCELLED \<notin> set TIMEOUT_ERRORS \<union> set PROXY_ERRORS \<union> set SSL_ERRORS"
  "REDIRECT_LIMIT \<notin> set TIMEOUT_ERRORS \<union> set PROXY_ERRORS \<union> set SSL_ERRORS"
  by (simp_all add: error_sets)

text \<open>Each class of error is raised for exactly the codes documented for it: the band
  -100 to -199 is a failed connection except for the codes named as timeout, proxy or TLS
  failures, the band -200 to -299 is a certificate failure, the named sets have their own
  class wherever they lie, and every other code is the plain \<open>RequestError\<close>.\<close>

theorem error_class_sorts:
  "(error_class c = Timeout \<longleftrightarrow> c \<in> {-7, -118}) \<and>
   (error_class c = Cancelled \<longleftrightarrow> c = -3) \<and>
   (error_class c = TooManyRedirects \<longleftrightarrow> c = -31) \<and>
   (error_class c = ProxyFailed \<longleftrightarrow> c \<in> {-115, -127, -130, -131, -136, -144, -336}) \<and>
   (error_class c = CertificateError \<longleftrightarrow>
     c \<in> {-299..-200} \<union> {-107, -113, -117, -122, -126, -141, -164}) \<and>
   (error_class c = ConnectionFailed \<longleftrightarrow>
     c \<in> {-199..-100} - set PROXY_ERRORS - set SSL_ERRORS - set TIMEOUT_ERRORS)"
  by (auto simp: error_class_def error_sets)

end
