(* ===== verification/Responses.thy ===== *)
theory Responses
  imports Errors
begin

text \<open>
  The operations of the \<open>Response\<close> class (\<open>src/cronet/response.py\<close>) over the data of the
  theory Wire. \<open>read\<close> changes the object, so it returns the new one beside its result.
  The codec registry that \<open>text\<close> asks (\<open>bytes.decode\<close> with a named encoding) and the JSON
  backend are parameters.
\<close>

section \<open>Reading the body\<close>

text \<open>
  \<open>iter_bytes()\<close> as what the iterator yields: for a response read whole its content, once,
  and nothing for an empty one; for a streamed response the pieces still to come.
\<close>

definition iter_bytes :: "response \<Rightarrow> body_stream" where
  "iter_bytes r =
     (case stream r of
        None \<Rightarrow> BodyStream (if content r \<noteq> [] then [content r] else []) False
      | Some s \<Rightarrow> s)"

text \<open>
  \<open>read()\<close> joins what is left of the stream. A \<open>TimeoutError\<close> on the way leaves the content
  as it was and the iterator finished, as a generator that raised is.
\<close>

definition read_body :: "response \<Rightarrow> (exn + bytes) \<times> response" where
  "read_body r =
     (case stream r of
        None \<Rightarrow> (Inr (content r), r)
      | Some (BodyStream ps late) \<Rightarrow>
          if late then (Inl TimeoutError, with_content r (content r) (Some (BodyStream [] False)))
          else let r' = with_content r (concat ps) None in (Inr (content r'), r'))"

section \<open>Status and timing\<close>

definition ok :: "response \<Rightarrow> bool" where
  "ok r \<longleftrightarrow> 200 \<le> status_code r \<and> status_code r < 300"

definition elapsed :: "response \<Rightarrow> rat" where
  "elapsed r =
     (let total = total_us (resp_metrics r) in
      if total = NO_TIME then -1 else of_int total / 1000000)"

definition raise_for_status :: "response \<Rightarrow> exn + response" where
  "raise_for_status r =
     (if status_code r \<ge> 400 then
        Inl (HTTPStatusError (cps (show_int (status_code r)) @ cps '' '' @ cps (reason r) @
               cps '' for '' @ resp_url r) r)
      else Inr r)"

definition response_repr :: "response \<Rightarrow> ustr" where
  "response_repr r =
     cps ''<Response ['' @ cps (show_int (status_code r)) @ cps ''] '' @ http_version r @
     cps '' '' @ cps (show_nat (length (content r))) @ cps '' bytes from '' @ resp_url r @ cps ''>''"

section \<open>The declared charset\<close>

text \<open>The characters below 256 that \<open>str.strip()\<close> removes.\<close>

definition is_space :: "char \<Rightarrow> bool" where
  "is_space c \<longleftrightarrow> (of_char c :: nat) \<in> {9, 10, 11, 12, 13, 28, 29, 30, 31, 32, 133, 160}"

definition strip_chars :: "(char \<Rightarrow> bool) \<Rightarrow> string \<Rightarrow> string" where
  "strip_chars P s = rev (dropWhile P (rev (dropWhile P s)))"

fun charset_of :: "string list \<Rightarrow> string" where
  "charset_of [] = ''utf-8''"
| "charset_of (parameter # ps) =
     (case partition_at (CHR ''='') parameter of
        (name, eq, value) \<Rightarrow>
          if lower (strip_chars is_space name) = ''charset'' then
            (let v = strip_chars (\<lambda>c. c = CHR 0x22) (strip_chars is_space value) in
             if v \<noteq> [] then v else ''utf-8'')
          else charset_of ps)"

definition encoding :: "response \<Rightarrow> string" where
  "encoding r =
     charset_of (tl (split_on (CHR '';'') (header_get (resp_headers r) ''content-type'' '''')))"

definition resp_text :: "(string \<Rightarrow> (bytes \<Rightarrow> ustr) option) \<Rightarrow> response \<Rightarrow> exn + ustr" where
  "resp_text codecs r =
     (case codecs (encoding r) of
        None \<Rightarrow> Inl (LookupError (encoding r))
      | Some decode \<Rightarrow> Inr (decode (content r)))"

definition resp_json :: "(bytes \<Rightarrow> exn + 'json) \<Rightarrow> response \<Rightarrow> exn + 'json" where
  "resp_json decode r = decode (content r)"

section \<open>Properties\<close>

lemma charset_of_nonempty: "charset_of ps \<noteq> []"
  by (induction ps) (auto simp: Let_def split: prod.splits)

text \<open>Reading a response gives exactly the bytes that walking it with \<open>iter_bytes\<close> gives,
  whichever kind it is, and afterwards the response is a whole one: reading again returns the
  same bytes and the stream is gone.\<close>

theorem read_joins_iter_bytes:
  assumes "\<not> times_out (iter_bytes r)"
  shows "fst (read_body r) = Inr (concat (pieces (iter_bytes r))) \<and>
         fst (read_body (snd (read_body r))) = fst (read_body r) \<and>
         stream (snd (read_body r)) = None"
  using assms by (auto simp: read_body_def iter_bytes_def Let_def split: option.splits body_stream.splits)

theorem read_joins_iter_bytes_witness:
  "fst (read_body (Response 200 [] (Headers []) [] [] [] 0 False [] (from_native zero_metrics) []
      (Some (BodyStream [[1, 2], [3]] False)))) = Inr [1, 2, 3]"
  using read_joins_iter_bytes [of "Response 200 [] (Headers []) [] [] [] 0 False [] (from_native zero_metrics) []
      (Some (BodyStream [[1, 2], [3]] False))"]
  by (simp add: iter_bytes_def)

end
