(* ===== verification/Url.thy ===== *)
theory Url
  imports Errors
begin

text \<open>
  URLs. The first part is the standard library's \<open>urllib.parse\<close> as the package uses it:
  \<open>urlsplit\<close> and the properties of its result, \<open>urlunsplit\<close>, \<open>urljoin\<close>, the two quoting
  functions and their inverses. The second part is what \<open>src/cronet/request.py\<close> builds on
  it: \<open>with_proxy_credentials\<close>, \<open>checked_url\<close>, \<open>with_query\<close> and \<open>origin\<close>.

  A URL is a \<open>string\<close>, code points below 256. For those the NFKC test of \<open>urlsplit\<close> never
  fires: no such character normalises to one of \<open>/?#@:\<close>. Decoded query fields and
  credentials are lists of code points.
\<close>

section \<open>Character classes\<close>

definition is_alpha :: "char \<Rightarrow> bool" where
  "is_alpha c \<longleftrightarrow> (let n = (of_char c :: nat) in 65 \<le> n \<and> n \<le> 90 \<or> 97 \<le> n \<and> n \<le> 122)"

definition is_alnum :: "char \<Rightarrow> bool" where
  "is_alnum c \<longleftrightarrow> is_alpha c \<or> is_digit c"

definition is_hex :: "char \<Rightarrow> bool" where
  "is_hex c \<longleftrightarrow> is_digit c \<or>
     (let n = (of_char c :: nat) in 65 \<le> n \<and> n \<le> 70 \<or> 97 \<le> n \<and> n \<le> 102)"

definition hex_value :: "char \<Rightarrow> nat" where
  "hex_value c =
     (let n = (of_char c :: nat) in if n \<le> 57 then n - 48 else if n \<le> 70 then n - 55 else n - 87)"

definition hex_char :: "nat \<Rightarrow> char" where
  "hex_char d = char_of (if d < 10 then 48 + d else 55 + d)"

definition scheme_char :: "char \<Rightarrow> bool" where
  "scheme_char c \<longleftrightarrow> is_alnum c \<or> c \<in> set ''+-.''"

definition is_c0_or_space :: "char \<Rightarrow> bool" where
  "is_c0_or_space c \<longleftrightarrow> (of_char c :: nat) \<le> 32"

definition unsafe_url_char :: "char \<Rightarrow> bool" where
  "unsafe_url_char c \<longleftrightarrow> (of_char c :: nat) \<in> {9, 10, 13}"

definition is_ascii :: "char \<Rightarrow> bool" where
  "is_ascii c \<longleftrightarrow> (of_char c :: nat) < 128"

definition always_safe :: "char \<Rightarrow> bool" where
  "always_safe c \<longleftrightarrow> is_alnum c \<or> c \<in> set ''_.-~''"

section \<open>Bracketed hosts\<close>

text \<open>\<open>ipaddress.ip_address\<close> restricted to the question whether it yields an IPv6 address.\<close>

definition octet_ok :: "string \<Rightarrow> bool" where
  "octet_ok s \<longleftrightarrow> s \<noteq> [] \<and> list_all is_digit s \<and> length s \<le> 3 \<and>
     (s = ''0'' \<or> hd s \<noteq> CHR ''0'') \<and> read_nat s \<le> 255"

definition ip4_ok :: "string \<Rightarrow> bool" where
  "ip4_ok s \<longleftrightarrow> (let os = split_on (CHR ''.'') s in length os = 4 \<and> list_all octet_ok os)"

definition hextet_ok :: "string \<Rightarrow> bool" where
  "hextet_ok s \<longleftrightarrow> s \<noteq> [] \<and> list_all is_hex s \<and> length s \<le> 4"

definition expand_ip4_tail :: "string list \<Rightarrow> string list option" where
  "expand_ip4_tail ps =
     (if CHR ''.'' \<in> set (last ps)
      then if ip4_ok (last ps) then Some (butlast ps @ [''0'', ''0'']) else None
      else Some ps)"

definition hextets_ok :: "string list \<Rightarrow> bool" where
  "hextets_ok ps \<longleftrightarrow>
     (let n = length ps; skips = filter (\<lambda>i. ps ! i = []) [1..<n - 1] in
      n \<le> 9 \<and>
      (case skips of
         [] \<Rightarrow> n = 8 \<and> list_all hextet_ok ps
       | [i] \<Rightarrow>
           let hi = (if hd ps = [] then i - 1 else i);
               lo = (if last ps = [] then n - i - 2 else n - i - 1) in
           (hd ps = [] \<longrightarrow> hi = 0) \<and> (last ps = [] \<longrightarrow> lo = 0) \<and> hi + lo < 8 \<and>
           list_all hextet_ok (take hi ps) \<and> list_all hextet_ok (drop (n - lo) ps)
       | _ \<Rightarrow> False))"

definition ip6_ok :: "string \<Rightarrow> bool" where
  "ip6_ok s \<longleftrightarrow>
     (case partition_at (CHR ''%'') s of (addr, scoped, scope) \<Rightarrow>
        (scoped \<longrightarrow> scope \<noteq> [] \<and> CHR ''%'' \<notin> set scope) \<and>
        addr \<noteq> [] \<and> length addr \<le> 45 \<and>
        (let ps = split_on (CHR '':'') addr in
         3 \<le> length ps \<and>
         (case expand_ip4_tail ps of None \<Rightarrow> False | Some qs \<Rightarrow> hextets_ok qs)))"

definition ip_future_ok :: "string \<Rightarrow> bool" where
  "ip_future_ok s \<longleftrightarrow>
     (let r = tl s; h = takeWhile is_hex r; t = dropWhile is_hex r in
      h \<noteq> [] \<and> t \<noteq> [] \<and> hd t = CHR ''.'' \<and> tl t \<noteq> [])"

definition bracketed_host_ok :: "string \<Rightarrow> bool" where
  "bracketed_host_ok host = (if starts_with ''v'' host then ip_future_ok host else ip6_ok host)"

definition bracketed_netloc_ok :: "string \<Rightarrow> bool" where
  "bracketed_netloc_ok netloc =
     (let hostinfo = snd (snd (rpartition_at (CHR ''@'') netloc)) in
      case partition_at (CHR ''['') hostinfo of (front, opened, bracketed) \<Rightarrow>
        if opened then
          (case partition_at (CHR '']'') bracketed of (host, _, port) \<Rightarrow>
             front = [] \<and> (port = [] \<or> starts_with '':'' port) \<and> bracketed_host_ok host)
        else bracketed_host_ok (fst (partition_at (CHR '':'') hostinfo)))"

section \<open>Splitting\<close>

record split_result =
  up_scheme :: string
  up_netloc :: string
  up_path :: string
  up_query :: string
  up_fragment :: string

definition clean_url :: "string \<Rightarrow> string" where
  "clean_url url = filter (\<lambda>c. \<not> unsafe_url_char c) (dropWhile is_c0_or_space url)"

definition split_scheme :: "string \<Rightarrow> string \<Rightarrow> string \<times> string" where
  "split_scheme dflt url =
     (case partition_at (CHR '':'') url of (pre, found, rest) \<Rightarrow>
        if found \<and> pre \<noteq> [] \<and> is_alpha (hd pre) \<and> list_all scheme_char pre
        then (lower pre, rest) else (dflt, url))"

definition netloc_char :: "char \<Rightarrow> bool" where
  "netloc_char c \<longleftrightarrow> c \<notin> set ''/?#''"

definition split_netloc :: "string \<Rightarrow> string \<times> string" where
  "split_netloc url =
     (if starts_with ''//'' url
      then (takeWhile netloc_char (drop 2 url), dropWhile netloc_char (drop 2 url))
      else ([], url))"

definition netloc_ok :: "string \<Rightarrow> bool" where
  "netloc_ok netloc \<longleftrightarrow>
     (CHR ''['' \<in> set netloc \<longleftrightarrow> CHR '']'' \<in> set netloc) \<and>
     (CHR ''['' \<in> set netloc \<longrightarrow> bracketed_netloc_ok netloc)"

definition split_tail :: "string \<Rightarrow> string \<times> string \<times> string" where
  "split_tail rest =
     (case partition_at (CHR ''#'') rest of (front, _, fragment) \<Rightarrow>
      case partition_at (CHR ''?'') front of (path, _, query) \<Rightarrow> (path, query, fragment))"

definition urlsplit_with :: "string \<Rightarrow> string \<Rightarrow> exn + split_result" where
  "urlsplit_with dflt url =
     (case split_scheme dflt (clean_url url) of (scheme, rest) \<Rightarrow>
      case split_netloc rest of (netloc, tail) \<Rightarrow>
      bindE (guardE (netloc_ok netloc) (ValueError BracketedHost)) (\<lambda>_.
      case split_tail tail of (path, query, fragment) \<Rightarrow>
        Inr \<lparr>up_scheme = scheme, up_netloc = netloc, up_path = path, up_query = query,
             up_fragment = fragment\<rparr>))"

definition urlsplit :: "string \<Rightarrow> exn + split_result" where
  "urlsplit url = urlsplit_with [] url"

section \<open>The parts of a network location\<close>

definition userinfo :: "split_result \<Rightarrow> string option \<times> string option" where
  "userinfo p =
     (case rpartition_at (CHR ''@'') (up_netloc p) of (info, have_info, _) \<Rightarrow>
        if have_info then
          (case partition_at (CHR '':'') info of (user, have_password, password) \<Rightarrow>
             (Some user, if have_password then Some password else None))
        else (None, None))"

definition url_username :: "split_result \<Rightarrow> string option" where
  "url_username p = fst (userinfo p)"

definition url_password :: "split_result \<Rightarrow> string option" where
  "url_password p = snd (userinfo p)"

definition hostinfo :: "split_result \<Rightarrow> string \<times> string" where
  "hostinfo p =
     (let info = snd (snd (rpartition_at (CHR ''@'') (up_netloc p))) in
      case partition_at (CHR ''['') info of (_, opened, bracketed) \<Rightarrow>
        if opened then
          (case partition_at (CHR '']'') bracketed of (host, _, rest) \<Rightarrow>
             (host, snd (snd (partition_at (CHR '':'') rest))))
        else (case partition_at (CHR '':'') info of (host, _, port) \<Rightarrow> (host, port)))"

definition hostname :: "split_result \<Rightarrow> string option" where
  "hostname p =
     (let host = fst (hostinfo p) in
      if host = [] then None
      else case partition_at (CHR ''%'') host of (name, percent, zone) \<Rightarrow>
        Some (lower name @ (if percent then ''%'' else []) @ zone))"

definition url_port :: "split_result \<Rightarrow> exn + nat option" where
  "url_port p =
     (let port = snd (hostinfo p) in
      if port = [] then Inr None
      else if \<not> list_all is_digit port then Inl (ValueError (PortNotNumeric port))
      else if read_nat port \<le> 65535 then Inr (Some (read_nat port))
      else Inl (ValueError (PortOutOfRange (read_nat port))))"

section \<open>Putting together and joining\<close>

definition uses_relative :: "string set" where
  "uses_relative = {'''', ''ftp'', ''http'', ''gopher'', ''nntp'', ''imap'', ''wais'', ''file'',
     ''https'', ''shttp'', ''mms'', ''prospero'', ''rtsp'', ''rtsps'', ''rtspu'', ''sftp'',
     ''svn'', ''svn+ssh'', ''ws'', ''wss''}"

definition uses_netloc :: "string set" where
  "uses_netloc = {'''', ''ftp'', ''http'', ''gopher'', ''nntp'', ''telnet'', ''imap'', ''wais'',
     ''file'', ''mms'', ''https'', ''shttp'', ''snews'', ''prospero'', ''rtsp'', ''rtsps'',
     ''rtspu'', ''rsync'', ''svn'', ''svn+ssh'', ''sftp'', ''nfs'', ''git'', ''git+ssh'',
     ''ws'', ''wss'', ''itms-services''}"

definition uses_params :: "string set" where
  "uses_params = {'''', ''ftp'', ''hdl'', ''prospero'', ''http'', ''imap'', ''https'', ''shttp'',
     ''rtsp'', ''rtsps'', ''rtspu'', ''sip'', ''sips'', ''mms'', ''sftp'', ''tel''}"

definition urlunsplit :: "split_result \<Rightarrow> string" where
  "urlunsplit p =
     (let path = up_path p;
          body = (if up_netloc p \<noteq> [] \<or>
                     up_scheme p \<noteq> [] \<and> up_scheme p \<in> uses_netloc \<and> \<not> starts_with ''//'' path
                  then ''//'' @ up_netloc p @
                    (if path \<noteq> [] \<and> \<not> starts_with ''/'' path then ''/'' @ path else path)
                  else path) in
      (if up_scheme p \<noteq> [] then up_scheme p @ '':'' else []) @ body @
      (if up_query p \<noteq> [] then ''?'' @ up_query p else []) @
      (if up_fragment p \<noteq> [] then ''#'' @ up_fragment p else []))"

definition split_params :: "string \<Rightarrow> string \<Rightarrow> string \<times> string" where
  "split_params scheme path =
     (if scheme \<in> uses_params then
        (case rpartition_at (CHR ''/'') path of (dir, slash, leaf) \<Rightarrow>
         case partition_at (CHR '';'') leaf of (seg, _, params) \<Rightarrow>
           ((if slash then dir @ ''/'' else []) @ seg, params))
      else (path, []))"

definition with_params :: "string \<Rightarrow> string \<Rightarrow> string" where
  "with_params path params = (if params \<noteq> [] then path @ '';'' @ params else path)"

fun resolve_dots :: "string list \<Rightarrow> string list \<Rightarrow> string list" where
  "resolve_dots done_segs [] = done_segs"
| "resolve_dots done_segs (seg # segs) =
     (if seg = ''..'' then resolve_dots (butlast done_segs) segs
      else if seg = ''.'' then resolve_dots done_segs segs
      else resolve_dots (done_segs @ [seg]) segs)"

definition join_path :: "string \<Rightarrow> string \<Rightarrow> string" where
  "join_path bpath path =
     (let base_parts = split_on (CHR ''/'') bpath;
          base_dirs = (if last base_parts \<noteq> [] then butlast base_parts else base_parts);
          segments =
            (if starts_with ''/'' path then split_on (CHR ''/'') path
             else let all = base_dirs @ split_on (CHR ''/'') path in
                  (if length all \<le> 1 then all
                   else hd all # filter (\<lambda>s. s \<noteq> []) (butlast (tl all)) @ [last all]));
          resolved = resolve_dots [] segments @
            (if last segments \<in> {''.'', ''..''} then [''''] else []);
          joined = join ''/'' resolved in
      if joined = [] then ''/'' else joined)"

definition urljoin :: "string \<Rightarrow> string \<Rightarrow> exn + string" where
  "urljoin base url =
     (if base = [] then Inr url
      else if url = [] then Inr base
      else
        bindE (urlsplit base) (\<lambda>b.
        bindE (urlsplit_with (up_scheme b) url) (\<lambda>u.
        case split_params (up_scheme b) (up_path b) of (bpath, bparams) \<Rightarrow>
        case split_params (up_scheme u) (up_path u) of (path, params) \<Rightarrow>
        if up_scheme u \<noteq> up_scheme b \<or> up_scheme u \<notin> uses_relative then Inr url
        else if up_scheme u \<in> uses_netloc \<and> up_netloc u \<noteq> [] then
          Inr (urlunsplit (u\<lparr>up_path := with_params path params\<rparr>))
        else
          let netloc = (if up_scheme u \<in> uses_netloc then up_netloc b else up_netloc u) in
          if path = [] \<and> params = [] then
            Inr (urlunsplit (u\<lparr>up_netloc := netloc, up_path := with_params bpath bparams,
              up_query := (if up_query u = [] then up_query b else up_query u)\<rparr>))
          else
            Inr (urlunsplit (u\<lparr>up_netloc := netloc,
              up_path := with_params (join_path bpath path) params\<rparr>)))))"

section \<open>Percent-encoding\<close>

definition percent :: "8 word \<Rightarrow> string" where
  "percent b = [CHR ''%'', hex_char (unat b div 16), hex_char (unat b mod 16)]"

definition quote_byte :: "8 word \<Rightarrow> string" where
  "quote_byte b =
     (let c = (char_of (unat b) :: char) in
      if always_safe c then [c] else percent b)"

definition quote_plus_byte :: "8 word \<Rightarrow> string" where
  "quote_plus_byte b = (if b = 32 then ''+'' else quote_byte b)"

text \<open>\<open>quote(s, safe="")\<close> and \<open>quote_plus(s)\<close>; both encode as UTF-8 in strict mode.\<close>

definition encode_text :: "ustr \<Rightarrow> exn + bytes" where
  "encode_text s = (case utf8 s of None \<Rightarrow> Inl UnicodeEncodeError | Some b \<Rightarrow> Inr b)"

definition quote_all :: "ustr \<Rightarrow> exn + string" where
  "quote_all s = bindE (encode_text s) (\<lambda>b. Inr (concat (map quote_byte b)))"

definition quote_plus :: "ustr \<Rightarrow> exn + string" where
  "quote_plus s = bindE (encode_text s) (\<lambda>b. Inr (concat (map quote_plus_byte b)))"

definition urlencode :: "(ustr \<times> ustr) list \<Rightarrow> exn + string" where
  "urlencode ps =
     bindE (mapE (\<lambda>(k, v). bindE (quote_plus k) (\<lambda>k'. bindE (quote_plus v) (\<lambda>v'.
        Inr (k' @ ''='' @ v')))) ps)
     (\<lambda>fields. Inr (join ''&'' fields))"

fun unquote_impl :: "string \<Rightarrow> bytes" where
  "unquote_impl [] = []"
| "unquote_impl (c # s) =
     (if c = CHR ''%'' then
        (case s of
           a # b # r \<Rightarrow>
             if is_hex a \<and> is_hex b then byte (16 * hex_value a + hex_value b) # unquote_impl r
             else 37 # unquote_impl s
         | _ \<Rightarrow> 37 # unquote_impl s)
      else byte (of_char c) # unquote_impl s)"

text \<open>Runs of ASCII are unquoted and decoded; other characters are kept as they stand.\<close>

fun unquote_runs :: "string \<Rightarrow> string \<Rightarrow> ustr" where
  "unquote_runs run [] = decode_replace (unquote_impl run)"
| "unquote_runs run (c # s) =
     (if is_ascii c then unquote_runs (run @ [c]) s
      else decode_replace (unquote_impl run) @ of_char c # unquote_runs [] s)"

definition unquote :: "string \<Rightarrow> ustr" where
  "unquote s = unquote_runs [] s"

definition unquote_plus :: "string \<Rightarrow> ustr" where
  "unquote_plus s = unquote (map (\<lambda>c. if c = CHR ''+'' then CHR '' '' else c) s)"

text \<open>\<open>parse_qsl(query, keep_blank_values=True)\<close>.\<close>

definition parse_field :: "string \<Rightarrow> ustr \<times> ustr" where
  "parse_field s =
     (case partition_at (CHR ''='') s of (name, _, value) \<Rightarrow>
        (unquote_plus name, unquote_plus value))"

definition parse_qsl :: "string \<Rightarrow> (ustr \<times> ustr) list" where
  "parse_qsl qs =
     (if qs = [] then []
      else map parse_field (filter (\<lambda>s. s \<noteq> []) (split_on (CHR ''&'') qs)))"

section \<open>What the package does with them\<close>

definition with_proxy_credentials :: "string \<Rightarrow> ustr \<Rightarrow> ustr \<Rightarrow> exn + string" where
  "with_proxy_credentials rules username password =
     (if username = [] \<or> \<not> (starts_with ''socks5://'' rules \<or> starts_with ''socks4://'' rules)
      then Inr rules
      else
        bindE (urlsplit rules) (\<lambda>parts.
        case hostname parts of
          None \<Rightarrow> Inr rules
        | Some host \<Rightarrow>
            if url_username parts \<noteq> None \<and> url_username parts \<noteq> Some [] then Inr rules
            else
              bindE (quote_all username) (\<lambda>user.
              bindE (if password \<noteq> [] then bindE (quote_all password) (\<lambda>pw. Inr (user @ '':'' @ pw))
                     else Inr user) (\<lambda>quoted.
              bindE (url_port parts) (\<lambda>port.
              Inr (up_scheme parts @ ''://'' @ quoted @ ''@'' @ host @
                   (case port of Some p \<Rightarrow> if p \<noteq> 0 then '':'' @ show_nat p else [] | None \<Rightarrow> []) @
                   up_path parts))))))"

definition checked_url :: "string \<Rightarrow> exn + string" where
  "checked_url url =
     bindE (urlsplit url) (\<lambda>parts.
     if up_scheme parts = [] then
       Inl (TypeError (NoScheme url (hd (split_on (CHR ''/'') url))))
     else if up_scheme parts \<notin> {''http'', ''https''} then
       Inl (TypeError (UnusableScheme url (up_scheme parts)))
     else if hostname parts = None then Inl (TypeError (NoHostNamed url))
     else Inr url)"

definition with_query :: "string \<Rightarrow> (ustr \<times> ustr) list \<Rightarrow> exn + string" where
  "with_query url params =
     (if params = [] then Inr url
      else
        bindE (urlsplit url) (\<lambda>parts.
        bindE (urlencode (parse_qsl (up_query parts) @ params)) (\<lambda>query.
        Inr (urlunsplit (parts\<lparr>up_query := query\<rparr>)))))"

definition origin :: "string \<Rightarrow> exn + (string \<times> string \<times> nat option)" where
  "origin url =
     bindE (urlsplit url) (\<lambda>parts.
     bindE (url_port parts) (\<lambda>port.
     Inr (up_scheme parts, (case hostname parts of None \<Rightarrow> [] | Some h \<Rightarrow> h), port)))"

end
