(* ===== verification/UrlLaws.thy ===== *)
theory UrlLaws
  imports Url
begin

text \<open>
  The laws of the URL layer: decoding a field undoes quoting it, \<open>urlsplit\<close> undoes
  \<open>urlunsplit\<close> on the results it produces for an absolute URL, and so what \<open>with_query\<close> and
  \<open>with_proxy_credentials\<close> do to a URL is seen in the parts of the result.
\<close>

section \<open>Quoting\<close>

lemma hex_char_facts:
  assumes "d < 16"
  shows "is_hex (hex_char d)" and "hex_value (hex_char d) = d"
    and "always_safe (hex_char d)" and "hex_char d \<noteq> CHR ''+''"
proof -
  have n: "(of_char (hex_char d) :: nat) = (if d < 10 then 48 + d else 55 + d)"
    using assms by (simp add: hex_char_def of_char_of)
  show "is_hex (hex_char d)" and "hex_value (hex_char d) = d" and "always_safe (hex_char d)"
    using assms
    by (simp_all add: is_hex_def is_digit_def hex_value_def always_safe_def is_alnum_def
        is_alpha_def n)
  show "hex_char d \<noteq> CHR ''+''"
  proof
    assume "hex_char d = CHR ''+''"
    then have "(of_char (hex_char d) :: nat) = 43" by simp
    then show False using n by (simp split: if_splits)
  qed
qed

lemma unat_digits: "16 * (unat b div 16) + unat b mod 16 = unat (b :: 8 word)"
  by simp

lemma byte_unat [simp]: "byte (unat b) = b"
  by (simp add: byte_def)

lemma unat_byte_less [simp]: "unat (b :: 8 word) < 256"
  using unsigned_less [of b] by simp

lemma percent_facts:
  "unquote_impl (percent b @ s) = b # unquote_impl s"
  "list_all (\<lambda>c. always_safe c \<or> c = CHR ''%'') (percent b)"
  "CHR ''+'' \<notin> set (percent b)"
proof -
  have h: "unat b div 16 < 16" "unat b mod 16 < 16"
    using unat_byte_less [of b] by linarith simp
  note facts = hex_char_facts [OF h(1)] hex_char_facts [OF h(2)]
  show "unquote_impl (percent b @ s) = b # unquote_impl s"
    by (simp add: percent_def facts)
  show "list_all (\<lambda>c. always_safe c \<or> c = CHR ''%'') (percent b)"
    by (simp add: percent_def facts)
  show "CHR ''+'' \<notin> set (percent b)"
    using facts(4) facts(8) by (auto simp: percent_def)
qed

lemma always_safe_facts:
  assumes "always_safe c"
  shows "c \<noteq> CHR ''%''" and "c \<noteq> CHR ''+''" and "c \<noteq> CHR ''&''" and "c \<noteq> CHR ''=''"
    and "c \<noteq> CHR ''#''" and "c \<noteq> CHR ''?''" and "c \<noteq> CHR ''/''" and "c \<noteq> CHR ''@''"
    and "c \<noteq> CHR '':''" and "c \<noteq> CHR ''[''" and "c \<noteq> CHR '']''"
    and "is_ascii c" and "\<not> unsafe_url_char c" and "\<not> is_c0_or_space c"
  using assms
  by (auto simp: always_safe_def is_alnum_def is_alpha_def is_digit_def is_ascii_def
      unsafe_url_char_def is_c0_or_space_def Let_def)

definition form_char :: "char \<Rightarrow> bool" where
  "form_char c \<longleftrightarrow> always_safe c \<or> c = CHR ''%'' \<or> c = CHR ''+''"

lemma form_char_facts:
  assumes "form_char c"
  shows "c \<noteq> CHR ''&''" and "c \<noteq> CHR ''=''" and "c \<noteq> CHR ''#''" and "is_ascii c"
    and "\<not> unsafe_url_char c" and "c \<noteq> CHR ''?''" and "c \<noteq> CHR ''/''" and "c \<noteq> CHR ''@''"
    and "c \<noteq> CHR '':''"
proof -
  from assms consider "always_safe c" | "c = CHR ''%''" | "c = CHR ''+''"
    unfolding form_char_def by blast
  then have "c \<noteq> CHR ''&'' \<and> c \<noteq> CHR ''='' \<and> c \<noteq> CHR ''#'' \<and> is_ascii c \<and>
      \<not> unsafe_url_char c \<and> c \<noteq> CHR ''?'' \<and> c \<noteq> CHR ''/'' \<and> c \<noteq> CHR ''@'' \<and> c \<noteq> CHR '':''"
  proof cases
    case 1
    show ?thesis by (intro conjI always_safe_facts [OF 1])
  qed (simp_all add: is_ascii_def unsafe_url_char_def)
  then show "c \<noteq> CHR ''&''" and "c \<noteq> CHR ''=''" and "c \<noteq> CHR ''#''" and "is_ascii c"
    and "\<not> unsafe_url_char c" and "c \<noteq> CHR ''?''" and "c \<noteq> CHR ''/''" and "c \<noteq> CHR ''@''"
    and "c \<noteq> CHR '':''"
    by - (elim conjE; assumption)+
qed

definition unplus :: "char \<Rightarrow> char" where
  "unplus c = (if c = CHR ''+'' then CHR '' '' else c)"

lemma map_unplus_id: "CHR ''+'' \<notin> set s \<Longrightarrow> map unplus s = s"
  by (induction s) (auto simp: unplus_def)

lemma quote_byte_facts:
  "unquote_impl (quote_byte b @ s) = b # unquote_impl s"
  "list_all (\<lambda>c. always_safe c \<or> c = CHR ''%'') (quote_byte b)"
  "CHR ''+'' \<notin> set (quote_byte b)"
proof -
  let ?c = "char_of (unat b) :: char"
  have code: "(of_char ?c :: nat) = unat b" using unat_byte_less [of b] by (simp add: of_char_of)
  show "unquote_impl (quote_byte b @ s) = b # unquote_impl s"
    using always_safe_facts(1) [of ?c] percent_facts(1) [of b s]
    by (auto simp: quote_byte_def Let_def code)
  show "list_all (\<lambda>c. always_safe c \<or> c = CHR ''%'') (quote_byte b)"
    using percent_facts(2) [of b] by (auto simp: quote_byte_def Let_def)
  show "CHR ''+'' \<notin> set (quote_byte b)"
    using always_safe_facts(2) [of ?c] percent_facts(3) [of b] by (auto simp: quote_byte_def Let_def)
qed

lemma quote_plus_byte_facts:
  "unquote_impl (map unplus (quote_plus_byte b) @ s) = b # unquote_impl s"
  "list_all form_char (quote_plus_byte b)"
proof -
  show "unquote_impl (map unplus (quote_plus_byte b) @ s) = b # unquote_impl s"
  proof (cases "b = 32")
    case True
    then show ?thesis by (simp add: quote_plus_byte_def unplus_def byte_def)
  next
    case False
    then show ?thesis
      by (simp add: quote_plus_byte_def map_unplus_id quote_byte_facts)
  qed
  show "list_all form_char (quote_plus_byte b)"
    using quote_byte_facts(2) [of b]
    by (auto simp: quote_plus_byte_def form_char_def list_all_iff)
qed

lemma unquote_runs_ascii:
  "list_all is_ascii s \<Longrightarrow> unquote_runs run s = decode_replace (unquote_impl (run @ s))"
  by (induction run s rule: unquote_runs.induct) auto

lemma unquote_plus_ascii:
  assumes "list_all is_ascii s"
  shows "unquote_plus s = decode_replace (unquote_impl (map unplus s))"
proof -
  have "list_all is_ascii (map unplus s)"
    using assms by (auto simp: list_all_iff unplus_def is_ascii_def)
  then show ?thesis
    by (simp add: unquote_plus_def unquote_def unquote_runs_ascii unplus_def [abs_def])
qed

lemma unquote_impl_quoted:
  "unquote_impl (map unplus (concat (map quote_plus_byte b)) @ s) = b @ unquote_impl s"
proof (induction b)
  case (Cons x b)
  then show ?case
    using quote_plus_byte_facts(1) [of x "map unplus (concat (map quote_plus_byte b)) @ s"] by simp
qed simp

lemma form_chars_quoted: "list_all form_char (concat (map quote_plus_byte b))"
  using quote_plus_byte_facts(2) by (auto simp: list_all_iff)

lemma quote_plus_Inr:
  assumes "quote_plus s = Inr q"
  shows "unquote_plus q = s" and "list_all form_char q"
proof -
  obtain b where b: "utf8 s = Some b" and q: "q = concat (map quote_plus_byte b)"
    using assms by (auto simp: quote_plus_def encode_text_def bindE_eq_Inr split: option.splits)
  show form: "list_all form_char q" using form_chars_quoted by (simp add: q)
  have "list_all is_ascii q" using form form_char_facts(4) by (auto simp: list_all_iff)
  then have "unquote_plus q = decode_replace (unquote_impl (map unplus q))"
    by (rule unquote_plus_ascii)
  also have "\<dots> = decode_replace b"
    using unquote_impl_quoted [of b "[]"] by (simp add: q)
  finally show "unquote_plus q = s" using decode_replace_utf8 [OF b] by simp
qed

lemma quote_plus_defined: "(\<exists>q. quote_plus s = Inr q) \<longleftrightarrow> list_all scalar s"
  using utf8_defined [of s]
  by (auto simp: quote_plus_def encode_text_def split: option.splits)

lemma quote_plus_Inl: "quote_plus s = Inl e \<Longrightarrow> e = UnicodeEncodeError"
  by (auto simp: quote_plus_def encode_text_def split: option.splits)

section \<open>Fields and query strings\<close>

definition encode_field :: "ustr \<times> ustr \<Rightarrow> exn + string" where
  "encode_field = (\<lambda>(k, v). bindE (quote_plus k) (\<lambda>k'. bindE (quote_plus v) (\<lambda>v'.
     Inr (k' @ ''='' @ v'))))"

lemma urlencode_fields:
  "urlencode ps = bindE (mapE encode_field ps) (\<lambda>fields. Inr (join ''&'' fields))"
  by (simp add: urlencode_def encode_field_def)

lemma encode_field_Inr:
  assumes "encode_field p = Inr f"
  shows "parse_field f = p" and "list_all (\<lambda>c. form_char c \<or> c = CHR ''='') f" and "f \<noteq> []"
proof -
  obtain k v where p: "p = (k, v)" by force
  obtain k' v' where k: "quote_plus k = Inr k'" and v: "quote_plus v = Inr v'"
    and f: "f = k' @ CHR ''='' # v'"
    using assms by (auto simp: p encode_field_def bindE_eq_Inr)
  have "CHR ''='' \<notin> set k'"
    using quote_plus_Inr(2) [OF k] form_char_facts(2) by (auto simp: list_all_iff)
  then show "parse_field f = p"
    using quote_plus_Inr(1) [OF k] quote_plus_Inr(1) [OF v]
    by (simp add: parse_field_def f p partition_at_first)
  show "list_all (\<lambda>c. form_char c \<or> c = CHR ''='') f"
    using quote_plus_Inr(2) [OF k] quote_plus_Inr(2) [OF v] by (auto simp: f list_all_iff)
  show "f \<noteq> []" by (simp add: f)
qed

definition query_char :: "char \<Rightarrow> bool" where
  "query_char c \<longleftrightarrow> form_char c \<or> c = CHR ''='' \<or> c = CHR ''&''"

lemma join_chars: "(\<And>x. x \<in> set xs \<Longrightarrow> list_all P x) \<Longrightarrow> list_all P sep \<Longrightarrow> list_all P (join sep xs)"
  by (induction sep xs rule: join.induct) auto

lemma urlencode_Inr:
  assumes "urlencode ps = Inr q"
  shows "parse_qsl q = ps" and "list_all query_char q" and "q = [] \<longleftrightarrow> ps = []"
proof -
  obtain fs where fs: "mapE encode_field ps = Inr fs" and q: "q = join ''&'' fs"
    using assms by (auto simp: urlencode_fields bindE_eq_Inr)
  have all: "list_all2 (\<lambda>p f. encode_field p = Inr f) ps fs" using fs by (simp add: mapE_Inr_iff)
  then have parsed: "map parse_field fs = ps"
    by (induction rule: list_all2_induct) (simp_all add: encode_field_Inr(1))
  have each: "f \<noteq> [] \<and> list_all (\<lambda>c. form_char c \<or> c = CHR ''='') f" if "f \<in> set fs" for f
    using all that
    by (induction rule: list_all2_induct) (auto simp: encode_field_Inr(2) dest: encode_field_Inr(3))
  have noamp: "CHR ''&'' \<notin> set f" if "f \<in> set fs" for f
    using each [OF that] form_char_facts(1) by (auto simp: list_all_iff)
  have split: "split_on (CHR ''&'') q = fs" if "fs \<noteq> []"
    unfolding q by (rule split_on_join [OF that noamp])
  have empty: "q = [] \<longleftrightarrow> fs = []"
  proof (cases fs)
    case (Cons f fs')
    with each [of f] show ?thesis by (cases fs') (auto simp: q)
  qed (simp add: q)
  show "parse_qsl q = ps"
  proof (cases "fs = []")
    case True
    with empty parsed show ?thesis by (simp add: parse_qsl_def)
  next
    case False
    then have "filter (\<lambda>s. s \<noteq> []) (split_on (CHR ''&'') q) = fs"
      using each by (simp add: split filter_id_conv)
    with False empty parsed show ?thesis by (simp add: parse_qsl_def)
  qed
  show "list_all query_char q"
    unfolding q
    by (rule join_chars) (use each in \<open>auto simp: list_all_iff query_char_def\<close>)
  show "q = [] \<longleftrightarrow> ps = []" using empty parsed by auto
qed

definition encodable_pairs :: "(ustr \<times> ustr) list \<Rightarrow> bool" where
  "encodable_pairs ps \<longleftrightarrow> list_all (\<lambda>(k, v). list_all scalar k \<and> list_all scalar v) ps"

lemma encode_field_defined:
  "(\<exists>f. encode_field p = Inr f) \<longleftrightarrow> list_all scalar (fst p) \<and> list_all scalar (snd p)"
  using quote_plus_defined [of "fst p"] quote_plus_defined [of "snd p"]
  by (cases p) (auto simp: encode_field_def bindE_eq_Inr)

lemma urlencode_defined: "(\<exists>q. urlencode ps = Inr q) \<longleftrightarrow> encodable_pairs ps"
proof -
  have "(\<exists>fs. mapE encode_field ps = Inr fs) \<longleftrightarrow> encodable_pairs ps"
  proof (induction ps)
    case (Cons p ps)
    have "(\<exists>fs. mapE encode_field (p # ps) = Inr fs) \<longleftrightarrow>
        (\<exists>f. encode_field p = Inr f) \<and> (\<exists>fs. mapE encode_field ps = Inr fs)"
      by (auto simp: bindE_eq_Inr)
    then show ?case
      by (simp add: encode_field_defined Cons.IH) (simp add: encodable_pairs_def case_prod_beta)
  qed (simp add: encodable_pairs_def)
  then show ?thesis by (auto simp: urlencode_fields bindE_eq_Inr)
qed

lemma urlencode_Inl: "urlencode ps = Inl e \<Longrightarrow> e = UnicodeEncodeError"
proof -
  have "mapE encode_field qs = Inl e \<Longrightarrow> e = UnicodeEncodeError" for qs
    by (induction qs)
      (auto simp: bindE_eq_Inl encode_field_def dest!: quote_plus_Inl split: prod.splits)
  then show "urlencode ps = Inl e \<Longrightarrow> e = UnicodeEncodeError"
    by (auto simp: urlencode_fields bindE_eq_Inl)
qed

section \<open>Splitting undoes putting together\<close>

text \<open>What \<open>urlsplit\<close> returns for a URL with a scheme and a network location.\<close>

definition clean_part :: "string \<Rightarrow> bool" where
  "clean_part s \<longleftrightarrow> list_all (\<lambda>c. \<not> unsafe_url_char c) s"

definition absolute_parts :: "split_result \<Rightarrow> bool" where
  "absolute_parts p \<longleftrightarrow>
     up_scheme p \<noteq> [] \<and> is_alpha (hd (up_scheme p)) \<and> list_all scheme_char (up_scheme p) \<and>
     lower (up_scheme p) = up_scheme p \<and>
     up_netloc p \<noteq> [] \<and> list_all netloc_char (up_netloc p) \<and> netloc_ok (up_netloc p) \<and>
     (up_path p = [] \<or> hd (up_path p) = CHR ''/'') \<and>
     CHR ''?'' \<notin> set (up_path p) \<and> CHR ''#'' \<notin> set (up_path p) \<and> CHR ''#'' \<notin> set (up_query p) \<and>
     clean_part (up_netloc p) \<and> clean_part (up_path p) \<and> clean_part (up_query p) \<and>
     clean_part (up_fragment p)"

lemma clean_part_simps [simp]:
  "clean_part []" "clean_part (c # s) \<longleftrightarrow> \<not> unsafe_url_char c \<and> clean_part s"
  "clean_part (s @ t) \<longleftrightarrow> clean_part s \<and> clean_part t"
  by (simp_all add: clean_part_def)

lemma clean_url_id:
  "s \<noteq> [] \<Longrightarrow> \<not> is_c0_or_space (hd s) \<Longrightarrow> clean_part s \<Longrightarrow> clean_url s = s"
  by (cases s) (auto simp: clean_url_def clean_part_def list_all_iff filter_id_conv)

lemma clean_part_clean_url: "clean_part (clean_url s)"
  by (simp add: clean_url_def clean_part_def list_all_iff)

lemma delimiters_clean: "\<not> unsafe_url_char CHR '':''" "\<not> unsafe_url_char CHR ''/''"
  "\<not> unsafe_url_char CHR ''?''" "\<not> unsafe_url_char CHR ''#''"
  by (simp_all add: unsafe_url_char_def)

lemma scheme_char_facts:
  assumes "scheme_char c"
  shows "c \<noteq> CHR '':''" and "\<not> unsafe_url_char c" and "scheme_char (lower_char c)"
proof -
  consider (alpha) "is_alpha c" | (digit) "is_digit c" | (mark) "c \<in> set ''+-.''"
    using assms by (auto simp: scheme_char_def is_alnum_def)
  then have "c \<noteq> CHR '':'' \<and> \<not> unsafe_url_char c \<and> scheme_char (lower_char c)"
  proof cases
    case alpha
    then show ?thesis
      by (auto simp: is_alpha_def unsafe_url_char_def scheme_char_def is_alnum_def lower_char_def
          of_char_of Let_def)
  next
    case digit
    then show ?thesis
      by (auto simp: is_digit_def unsafe_url_char_def scheme_char_def is_alnum_def lower_char_def
          of_char_of Let_def)
  next
    case mark
    then show ?thesis
      by (auto simp: unsafe_url_char_def scheme_char_def lower_char_def Let_def)
  qed
  then show "c \<noteq> CHR '':''" and "\<not> unsafe_url_char c" and "scheme_char (lower_char c)"
    by - (elim conjE; assumption)+
qed

lemma is_alpha_facts: "is_alpha c \<Longrightarrow> \<not> is_c0_or_space c" "is_alpha c \<Longrightarrow> is_alpha (lower_char c)"
  by (auto simp: is_alpha_def is_c0_or_space_def lower_char_def of_char_of Let_def)

lemma scheme_chars_lower: "list_all scheme_char s \<Longrightarrow> list_all scheme_char (lower s)"
  by (auto simp: list_all_iff lower_def scheme_char_facts(3))

lemma split_tail_parts:
  assumes "split_tail s = (path, query, fragment)"
  shows "CHR ''?'' \<notin> set path" and "CHR ''#'' \<notin> set path" and "CHR ''#'' \<notin> set query"
    and "path \<noteq> [] \<Longrightarrow> s \<noteq> [] \<and> hd s = hd path"
    and "clean_part s \<Longrightarrow> clean_part path \<and> clean_part query \<and> clean_part fragment"
proof -
  obtain front hf where f: "partition_at (CHR ''#'') s = (front, hf, fragment)"
    and "\<exists>hq. partition_at (CHR ''?'') front = (path, hq, query)"
    using assms by (auto simp: split_tail_def split: prod.splits)
  then obtain hq where q: "partition_at (CHR ''?'') front = (path, hq, query)" by blast
  have s: "(s = front @ CHR ''#'' # fragment \<or> s = front \<and> fragment = []) \<and> CHR ''#'' \<notin> set front"
    using f by (cases hf) (auto simp: partition_at_found partition_at_not_found)
  have front: "(front = path @ CHR ''?'' # query \<or> front = path \<and> query = []) \<and>
      CHR ''?'' \<notin> set path"
    using q by (cases hq) (auto simp: partition_at_found partition_at_not_found)
  show "CHR ''?'' \<notin> set path" using front by (rule conjunct2)
  show "CHR ''#'' \<notin> set path" and "CHR ''#'' \<notin> set query"
    using s front by (elim conjE disjE; simp)+
  show "path \<noteq> [] \<Longrightarrow> s \<noteq> [] \<and> hd s = hd path"
    using s front by (elim conjE disjE) simp_all
  show "clean_part s \<Longrightarrow> clean_part path \<and> clean_part query \<and> clean_part fragment"
    using s front by (elim conjE disjE) simp_all
qed

lemma split_scheme_some:
  assumes "split_scheme [] s = (scheme, rest)" and "scheme \<noteq> []"
  shows "is_alpha (hd scheme) \<and> list_all scheme_char scheme \<and> lower scheme = scheme \<and>
    (\<exists>pre. s = pre @ CHR '':'' # rest)"
proof -
  obtain pre found r where p: "partition_at (CHR '':'') s = (pre, found, r)"
    by (cases "partition_at (CHR '':'') s") auto
  then have c: "found" "pre \<noteq> []" "is_alpha (hd pre)" "list_all scheme_char pre"
    and e: "scheme = lower pre" "rest = r"
    using assms by (auto simp: split_scheme_def split: if_splits)
  have "hd (lower pre) = lower_char (hd pre)" using c(2) by (cases pre) (simp_all add: lower_def)
  then have "is_alpha (hd scheme)" using c(3) by (simp add: e is_alpha_facts(2))
  moreover have "s = pre @ CHR '':'' # rest" using p c(1) by (simp add: e partition_at_found)
  ultimately show ?thesis using scheme_chars_lower [OF c(4)] by (auto simp: e)
qed

lemma split_netloc_some:
  assumes "split_netloc s = (netloc, tail)" and "netloc \<noteq> []"
  shows "list_all netloc_char netloc" and "tail \<noteq> [] \<Longrightarrow> \<not> netloc_char (hd tail)"
    and "clean_part s \<Longrightarrow> clean_part netloc \<and> clean_part tail"
proof -
  have pre: "starts_with ''//'' s" and n: "netloc = takeWhile netloc_char (drop 2 s)"
    and t: "tail = dropWhile netloc_char (drop 2 s)"
    using assms by (auto simp: split_netloc_def split: if_splits)
  show "list_all netloc_char netloc" using set_takeWhileD [of _ netloc_char "drop 2 s"] by (simp add: n list_all_iff)
  show "tail \<noteq> [] \<Longrightarrow> \<not> netloc_char (hd tail)" unfolding t by (rule hd_dropWhile)
  assume "clean_part s"
  then have "clean_part (drop 2 s)" by (auto simp: clean_part_def list_all_iff dest: in_set_dropD)
  moreover have "drop 2 s = netloc @ tail" by (simp only: n t takeWhile_dropWhile_id)
  ultimately show "clean_part netloc \<and> clean_part tail" by simp
qed

lemma urlsplit_Inr:
  assumes "urlsplit url = Inr p"
  obtains rest tail where "split_scheme [] (clean_url url) = (up_scheme p, rest)"
    and "split_netloc rest = (up_netloc p, tail)" and "netloc_ok (up_netloc p)"
    and "split_tail tail = (up_path p, up_query p, up_fragment p)"
proof -
  obtain scheme rest where s: "split_scheme [] (clean_url url) = (scheme, rest)" by force
  obtain netloc tail where n: "split_netloc rest = (netloc, tail)" by force
  obtain path query fragment where t: "split_tail tail = (path, query, fragment)"
    by (cases "split_tail tail") auto
  have "netloc_ok netloc \<and> p = \<lparr>up_scheme = scheme, up_netloc = netloc, up_path = path,
      up_query = query, up_fragment = fragment\<rparr>"
    using assms by (simp add: urlsplit_def urlsplit_with_def s n t bindE_eq_Inr)
  with s n t show ?thesis using that by simp
qed

lemma urlsplit_absolute:
  assumes "urlsplit url = Inr p" and "up_scheme p \<noteq> []" and "up_netloc p \<noteq> []"
  shows "absolute_parts p"
proof -
  obtain rest tail where
    s: "split_scheme [] (clean_url url) = (up_scheme p, rest)"
    and n: "split_netloc rest = (up_netloc p, tail)" and ok: "netloc_ok (up_netloc p)"
    and t: "split_tail tail = (up_path p, up_query p, up_fragment p)"
    using assms(1) by (rule urlsplit_Inr)
  note ne = assms(2,3)
  note sch = split_scheme_some [OF s ne(1)]
  have "clean_part rest" using sch clean_part_clean_url [of url] by auto
  note net = split_netloc_some [OF n ne(2)] and clean = split_netloc_some(3) [OF n ne(2) this]
  note tl = split_tail_parts [OF t]
  have "hd (up_path p) = CHR ''/''" if "(up_path p) \<noteq> []"
  proof -
    have "tail \<noteq> []" "hd tail = hd (up_path p)" using tl(4) [OF that] by simp_all
    with net(2) have "hd (up_path p) \<in> set ''/?#''" by (simp add: netloc_char_def)
    moreover have "hd (up_path p) \<in> set (up_path p)" using that by simp
    ultimately show ?thesis using tl(1,2) by (auto simp only: set_simps insert_iff empty_iff)
  qed
  then have "(up_path p) = [] \<or> hd (up_path p) = CHR ''/''" by blast
  moreover have "is_alpha (hd (up_scheme p))" "list_all scheme_char (up_scheme p)" "lower (up_scheme p) = (up_scheme p)"
    using sch by simp_all
  moreover have "clean_part (up_netloc p)" "clean_part (up_path p)" "clean_part (up_query p)" "clean_part (up_fragment p)"
    using clean tl(5) by simp_all
  ultimately show ?thesis
    using ne net(1) ok tl(1-3) by (simp add: absolute_parts_def)
qed

lemma split_tail_put:
  assumes "CHR ''?'' \<notin> set path" and "CHR ''#'' \<notin> set path" and "CHR ''#'' \<notin> set query"
  shows "split_tail (path @ (if query \<noteq> [] then ''?'' @ query else []) @
    (if fragment \<noteq> [] then ''#'' @ fragment else [])) = (path, query, fragment)"
proof -
  let ?front = "path @ (if query \<noteq> [] then ''?'' @ query else [])"
  have "CHR ''#'' \<notin> set ?front" using assms by simp
  then have "\<exists>h. partition_at (CHR ''#'') (?front @ (if fragment \<noteq> [] then ''#'' @ fragment else [])) =
      (?front, h, fragment)"
    using partition_at_first [of "CHR ''#''" ?front fragment] partition_at_absent [of "CHR ''#''" ?front]
    by (cases "fragment = []") auto
  moreover have "\<exists>h. partition_at (CHR ''?'') ?front = (path, h, query)"
    using partition_at_first [of "CHR ''?''" path query] partition_at_absent [of "CHR ''?''" path] assms(1)
    by (cases "query = []") auto
  ultimately show ?thesis by (auto simp: split_tail_def)
qed

lemma urlsplit_urlunsplit:
  assumes "absolute_parts p"
  shows "urlsplit (urlunsplit p) = Inr p"
proof -
  note a = assms [unfolded absolute_parts_def]
  let ?scheme = "up_scheme p" and ?netloc = "up_netloc p"
  define tail where "tail = up_path p @ (if up_query p \<noteq> [] then ''?'' @ up_query p else []) @
    (if up_fragment p \<noteq> [] then ''#'' @ up_fragment p else [])"
  have slash: "up_path p = [] \<or> starts_with ''/'' (up_path p)"
    using a by (cases "up_path p") (simp_all add: starts_with_def)
  have url: "urlunsplit p = ?scheme @ CHR '':'' # ''//'' @ ?netloc @ tail"
    using a slash by (simp add: urlunsplit_def tail_def Let_def)
  have "clean_part ?scheme" using a scheme_char_facts(2) by (auto simp: clean_part_def list_all_iff)
  then have "clean_part (urlunsplit p)" using a by (simp add: url tail_def delimiters_clean)
  moreover have "\<not> is_c0_or_space (hd (urlunsplit p))"
    using a is_alpha_facts(1) by (cases ?scheme) (simp_all add: url)
  ultimately have clean: "clean_url (urlunsplit p) = urlunsplit p"
    using a by (intro clean_url_id) (simp_all add: url)
  have "CHR '':'' \<notin> set ?scheme" using a scheme_char_facts(1) by (auto simp: list_all_iff)
  then have scheme: "split_scheme [] (urlunsplit p) = (?scheme, ''//'' @ ?netloc @ tail)"
    using a by (simp add: split_scheme_def url partition_at_first del: append.simps append_Cons)
  have "takeWhile netloc_char tail = []"
  proof (cases "up_path p")
    case Nil
    then show ?thesis by (simp add: tail_def netloc_char_def)
  next
    case (Cons c s)
    with a show ?thesis by (simp add: tail_def netloc_char_def)
  qed
  then have "takeWhile netloc_char (?netloc @ tail) = ?netloc"
    "dropWhile netloc_char (?netloc @ tail) = tail"
    using a by (simp_all add: list_all_iff takeWhile_eq_Nil_iff dropWhile_eq_self_iff)
  then have netloc: "split_netloc (''//'' @ ?netloc @ tail) = (?netloc, tail)"
    by (simp add: split_netloc_def starts_with_def)
  have "split_tail tail = (up_path p, up_query p, up_fragment p)"
    unfolding tail_def using a by (intro split_tail_put) simp_all
  with netloc a show ?thesis
    by (simp add: urlsplit_def urlsplit_with_def clean scheme del: append.simps append_Cons)
qed

section \<open>Query parameters\<close>

lemma unquote_runs_scalar:
  "list_all is_ascii run \<Longrightarrow> list_all scalar (unquote_runs run s)"
proof (induction run s rule: unquote_runs.induct)
  case (2 run c s)
  have "scalar (of_char c)" using nat_of_char_less_256 [of c] unfolding scalar_def by linarith
  with 2 show ?case by (simp add: decode_replace_scalar)
qed (simp add: decode_replace_scalar)

lemma parse_qsl_encodable: "encodable_pairs (parse_qsl q)"
proof -
  have "list_all scalar (unquote_plus s)" for s
    by (simp add: unquote_plus_def unquote_def unquote_runs_scalar)
  then show ?thesis
    by (auto simp: encodable_pairs_def parse_qsl_def parse_field_def list_all_iff split: prod.splits)
qed

lemma hostname_netloc: "hostname p \<noteq> None \<Longrightarrow> up_netloc p \<noteq> []"
proof
  assume "hostname p \<noteq> None" and "up_netloc p = []"
  moreover have "rpartition_at (CHR ''@'') [] = ([], False, [])" by (rule rpartition_at_absent) simp
  ultimately show False by (simp add: hostname_def hostinfo_def)
qed

lemma checked_url_Inr:
  assumes "checked_url url = Inr u"
  obtains p where "u = url" and "urlsplit url = Inr p" and "up_scheme p \<in> {''http'', ''https''}"
    and "hostname p \<noteq> None" and "absolute_parts p"
proof -
  obtain p where p: "urlsplit url = Inr p" and u: "u = url"
    and s: "up_scheme p \<in> {''http'', ''https''}" and h: "hostname p \<noteq> None"
    using assms by (auto simp: checked_url_def bindE_eq_Inr split: if_splits)
  moreover have "absolute_parts p" using s hostname_netloc [OF h] by (intro urlsplit_absolute [OF p]) auto
  ultimately show ?thesis using that by blast
qed

lemma query_chars_clean:
  assumes "list_all query_char q"
  shows "CHR ''#'' \<notin> set q" and "clean_part q"
proof -
  have "c \<noteq> CHR ''#'' \<and> \<not> unsafe_url_char c" if "query_char c" for c
    using that form_char_facts(3,5) [of c] unfolding query_char_def
    by (elim disjE) (simp_all add: unsafe_url_char_def)
  with assms show "CHR ''#'' \<notin> set q" and "clean_part q"
    by (auto simp: list_all_iff clean_part_def)
qed

lemma hostname_query [simp]: "hostname (p\<lparr>up_query := q\<rparr>) = hostname p"
  by (simp add: hostname_def hostinfo_def)

text \<open>C37. Adding query parameters to a URL adds exactly them: the result is again a URL the library
  accepts, with the scheme, location, path and fragment it had, and its query decodes to the
  pairs that were there followed by the new pairs, whatever characters those contain.\<close>

theorem with_query_adds:
  assumes "checked_url url = Inr url" and "encodable_pairs params" and "params \<noteq> []"
  shows "\<exists>u p q. with_query url params = Inr u \<and> urlsplit url = Inr p \<and> urlsplit u = Inr q \<and>
    q\<lparr>up_query := up_query p\<rparr> = p \<and>
    parse_qsl (up_query q) = parse_qsl (up_query p) @ params \<and> checked_url u = Inr u"
proof -
  obtain p where p: "urlsplit url = Inr p" and s: "up_scheme p \<in> {''http'', ''https''}"
    and h: "hostname p \<noteq> None" and a: "absolute_parts p"
    using assms(1) by (rule checked_url_Inr)
  have "encodable_pairs (parse_qsl (up_query p) @ params)"
    using parse_qsl_encodable [of "up_query p"] assms(2) by (simp add: encodable_pairs_def)
  then obtain qs where qs: "urlencode (parse_qsl (up_query p) @ params) = Inr qs"
    using urlencode_defined by blast
  let ?q = "p\<lparr>up_query := qs\<rparr>"
  have "absolute_parts ?q"
    using a query_chars_clean [OF urlencode_Inr(2) [OF qs]] by (simp add: absolute_parts_def)
  then have split: "urlsplit (urlunsplit ?q) = Inr ?q" by (rule urlsplit_urlunsplit)
  have "with_query url params = Inr (urlunsplit ?q)"
    using assms(3) by (simp add: with_query_def p qs)
  moreover have "checked_url (urlunsplit ?q) = Inr (urlunsplit ?q)"
    using s h by (auto simp: checked_url_def split)
  moreover have "?q\<lparr>up_query := up_query p\<rparr> = p" by simp
  ultimately show ?thesis using p split urlencode_Inr(1) [OF qs] by fastforce
qed

theorem with_query_adds_witness:
  "\<exists>u p q. with_query ''https://h/p?a=1#f'' [([8364], [38])] = Inr u \<and>
    urlsplit ''https://h/p?a=1#f'' = Inr p \<and> urlsplit u = Inr q \<and>
    q\<lparr>up_query := up_query p\<rparr> = p \<and>
    parse_qsl (up_query q) = parse_qsl (up_query p) @ [([8364], [38])] \<and> checked_url u = Inr u"
proof (rule with_query_adds)
  show "checked_url ''https://h/p?a=1#f'' = Inr ''https://h/p?a=1#f''" by code_simp
  show "encodable_pairs [([8364], [38])]" by (simp add: encodable_pairs_def scalar_def)
qed simp

section \<open>Proxy credentials\<close>

lemma unquote_quoted: "unquote_impl (concat (map quote_byte b) @ s) = b @ unquote_impl s"
  by (induction b) (simp_all add: quote_byte_facts(1))

definition userinfo_char :: "char \<Rightarrow> bool" where
  "userinfo_char c \<longleftrightarrow> always_safe c \<or> c = CHR ''%''"

lemma userinfo_char_facts:
  assumes "userinfo_char c"
  shows "c \<noteq> CHR ''@''" and "c \<noteq> CHR '':''" and "netloc_char c" and "c \<noteq> CHR ''[''"
    and "c \<noteq> CHR '']''" and "\<not> unsafe_url_char c" and "is_ascii c"
proof -
  from assms consider "always_safe c" | "c = CHR ''%''" unfolding userinfo_char_def by blast
  then have "c \<noteq> CHR ''@'' \<and> c \<noteq> CHR '':'' \<and> netloc_char c \<and> c \<noteq> CHR ''['' \<and>
      c \<noteq> CHR '']'' \<and> \<not> unsafe_url_char c \<and> is_ascii c"
  proof cases
    case 1
    have "netloc_char c" using always_safe_facts(5-7) [OF 1] by (simp add: netloc_char_def)
    then show ?thesis by (intro conjI always_safe_facts [OF 1])
  qed (simp_all add: is_ascii_def unsafe_url_char_def netloc_char_def)
  then show "c \<noteq> CHR ''@''" and "c \<noteq> CHR '':''" and "netloc_char c" and "c \<noteq> CHR ''[''"
    and "c \<noteq> CHR '']''" and "\<not> unsafe_url_char c" and "is_ascii c"
    by - (elim conjE; assumption)+
qed

lemma quote_all_Inr:
  assumes "quote_all s = Inr q"
  shows "unquote q = s" and "list_all userinfo_char q"
proof -
  obtain b where b: "utf8 s = Some b" and q: "q = concat (map quote_byte b)"
    using assms by (auto simp: quote_all_def encode_text_def bindE_eq_Inr split: option.splits)
  show form: "list_all userinfo_char q"
    using quote_byte_facts(2) by (fastforce simp: q list_all_iff userinfo_char_def)
  have "list_all is_ascii q" using form userinfo_char_facts(7) by (auto simp: list_all_iff)
  then have "unquote q = decode_replace (unquote_impl q)"
    by (simp add: unquote_def unquote_runs_ascii)
  also have "\<dots> = decode_replace b" using unquote_quoted [of b "[]"] by (simp add: q)
  finally show "unquote q = s" using decode_replace_utf8 [OF b] by simp
qed

lemma quote_all_defined: "list_all scalar s \<Longrightarrow> \<exists>q. quote_all s = Inr q"
  using utf8_defined [of s] by (auto simp: quote_all_def encode_text_def)

definition plain_host_char :: "char \<Rightarrow> bool" where
  "plain_host_char c \<longleftrightarrow> is_alnum c \<or> c = CHR ''-'' \<or> c = CHR ''.''"

lemma plain_host_char_userinfo: "plain_host_char c \<Longrightarrow> userinfo_char c \<and> c \<noteq> CHR ''%''"
proof -
  assume c: "plain_host_char c"
  then have "always_safe c" by (auto simp: plain_host_char_def always_safe_def)
  then show "userinfo_char c \<and> c \<noteq> CHR ''%''"
    using always_safe_facts(1) by (simp add: userinfo_char_def)
qed

lemma digits_userinfo: "list_all is_digit s \<Longrightarrow> list_all userinfo_char s"
  by (auto simp: list_all_iff userinfo_char_def always_safe_def is_alnum_def)

lemma lower_userinfo:
  assumes "list_all plain_host_char h"
  shows "list_all plain_host_char (lower h)"
proof -
  have "plain_host_char (lower_char c)" if c: "plain_host_char c" for c
  proof -
    consider "is_alpha c" | "is_digit c" | "c = CHR ''-''" | "c = CHR ''.''"
      using c by (auto simp: plain_host_char_def is_alnum_def)
    then show ?thesis
    proof cases
      case 1
      then show ?thesis by (simp add: plain_host_char_def is_alnum_def is_alpha_facts(2))
    next
      case 2
      then have "lower_char c = c" by (auto simp: is_digit_def lower_char_def Let_def)
      with 2 show ?thesis by (simp add: plain_host_char_def is_alnum_def)
    qed (simp_all add: plain_host_char_def lower_char_def)
  qed
  with assms show ?thesis by (auto simp: lower_def list_all_iff)
qed

text \<open>The parts of a location made of quoted user information and a plain host and port.\<close>

lemma location_parts:
  assumes "list_all (\<lambda>c. userinfo_char c \<or> c = CHR '':'') info"
    and "list_all plain_host_char host" and "host \<noteq> []"
    and "list_all is_digit port" and "port \<noteq> []" and "read_nat port \<le> 65535"
    and "up_netloc p = pre @ host @ CHR '':'' # port"
    and "pre = [] \<and> who = None \<or> pre = info @ ''@'' \<and> who = Some info"
  shows "hostname p = Some (lower host)" and "url_port p = Inr (Some (read_nat port))"
    and "userinfo p = (case who of None \<Rightarrow> (None, None) | Some i \<Rightarrow>
      (case partition_at (CHR '':'') i of (user, hp, pw) \<Rightarrow>
        (Some user, if hp then Some pw else None)))"
proof -
  have "c \<noteq> CHR ''@'' \<and> c \<noteq> CHR '':'' \<and> c \<noteq> CHR ''['' \<and> c \<noteq> CHR ''%''" if "c \<in> set host" for c
  proof -
    have "userinfo_char c" "c \<noteq> CHR ''%''"
      using assms(2) that plain_host_char_userinfo by (auto simp: list_all_iff)
    then show ?thesis using userinfo_char_facts(1,2,4) [of c] by simp
  qed
  then have hostchars: "CHR ''@'' \<notin> set host" "CHR '':'' \<notin> set host" "CHR ''['' \<notin> set host"
    "CHR ''%'' \<notin> set host"
    by blast+
  have "c \<noteq> CHR ''@'' \<and> c \<noteq> CHR ''[''" if "c \<in> set port" for c
    using digits_userinfo [OF assms(4)] that userinfo_char_facts(1,4) [of c] by (simp add: list_all_iff)
  then have portchars: "CHR ''@'' \<notin> set port" "CHR ''['' \<notin> set port" by blast+
  let ?hp = "host @ CHR '':'' # port"
  have at: "CHR ''@'' \<notin> set ?hp" using hostchars portchars by simp
  have rp: "rpartition_at (CHR ''@'') (up_netloc p) =
      (case who of None \<Rightarrow> ([], False, ?hp) | Some i \<Rightarrow> (i, True, ?hp))"
  proof (cases who)
    case None
    then show ?thesis using assms(7,8) rpartition_at_absent [OF at] by simp
  next
    case (Some i)
    then have "up_netloc p = info @ CHR ''@'' # ?hp" "i = info" using assms(7,8) by simp_all
    then show ?thesis using Some rpartition_at_last [OF at, of info] by simp
  qed
  then have hi: "snd (snd (rpartition_at (CHR ''@'') (up_netloc p))) = ?hp"
    by (cases who) simp_all
  have "partition_at (CHR ''['') ?hp = (?hp, False, [])"
    using hostchars portchars by (intro partition_at_absent) simp
  then have info: "hostinfo p = (host, port)"
    using hostchars(2) by (simp add: hostinfo_def hi partition_at_first)
  show "hostname p = Some (lower host)"
    using assms(3) hostchars(4) by (simp add: hostname_def info partition_at_absent)
  show "url_port p = Inr (Some (read_nat port))"
    using assms(4,5,6) by (simp add: url_port_def info)
  show "userinfo p = (case who of None \<Rightarrow> (None, None) | Some i \<Rightarrow>
      (case partition_at (CHR '':'') i of (user, hp, pw) \<Rightarrow>
        (Some user, if hp then Some pw else None)))"
    by (cases who) (simp_all add: userinfo_def rp)
qed

lemma socks_location:
  assumes "list_all (\<lambda>c. userinfo_char c \<or> c = CHR '':'' \<or> c = CHR ''@'') loc" and "loc \<noteq> []"
  shows "urlsplit (''socks5://'' @ loc) = Inr \<lparr>up_scheme = ''socks5'', up_netloc = loc, up_path = [],
    up_query = [], up_fragment = []\<rparr>"
proof -
  let ?p = "\<lparr>up_scheme = ''socks5'', up_netloc = loc, up_path = [], up_query = [], up_fragment = []\<rparr>"
  have each: "netloc_char c \<and> \<not> unsafe_url_char c \<and> c \<noteq> CHR ''['' \<and> c \<noteq> CHR '']''"
    if "c \<in> set loc" for c
  proof -
    have "userinfo_char c \<or> c = CHR '':'' \<or> c = CHR ''@''" using assms(1) that by (simp add: list_all_iff)
    then show ?thesis using userinfo_char_facts(3-6) [of c]
      by (elim disjE) (simp_all add: netloc_char_def unsafe_url_char_def)
  qed
  then have "netloc_ok loc" by (auto simp: netloc_ok_def)
  moreover have "list_all scheme_char ''socks5''" "lower ''socks5'' = ''socks5''" "is_alpha (CHR ''s'')"
    by code_simp+
  ultimately have "absolute_parts ?p"
    using each assms(2) by (auto simp: absolute_parts_def list_all_iff clean_part_def)
  then have "urlsplit (urlunsplit ?p) = Inr ?p" by (rule urlsplit_urlunsplit)
  then show ?thesis using assms(2) by (simp add: urlunsplit_def)
qed



text \<open>The parts of a SOCKS5 rule that names an IPv6 address.\<close>

definition ipv6_rule_parts :: split_result where
  "ipv6_rule_parts = \<lparr>up_scheme = ''socks5'', up_netloc = ''[::1]:1080'', up_path = [], up_query = [],
     up_fragment = []\<rparr>"

lemma ipv6_rule_facts:
  "urlsplit ''socks5://[::1]:1080'' = Inr ipv6_rule_parts"
  "hostname ipv6_rule_parts = Some ''::1''"
  "url_username ipv6_rule_parts = None"
  "snd (hostinfo ipv6_rule_parts) = ''1080''"
  "up_scheme ipv6_rule_parts = ''socks5''"
  "up_path ipv6_rule_parts = []"
  by code_simp+

lemma ipv6_rule_port: "url_port ipv6_rule_parts = Inr (Some 1080)"
  by (simp add: url_port_def ipv6_rule_facts is_digit_def read_nat_def)

lemma ipv6_credentials:
  "with_proxy_credentials ''socks5://[::1]:1080'' (cps ''u'') (cps ''p'') =
     Inr ''socks5://u:p@::1:1080''"
proof -
  have q: "quote_all (cps ''u'') = Inr ''u''" "quote_all (cps ''p'') = Inr ''p''"
    "show_nat 1080 = ''1080''"
    by code_simp+
  show ?thesis
    by (simp only: with_proxy_credentials_def ipv6_rule_facts ipv6_rule_port q bindE_simps option.case)
      (simp add: starts_with_def cps_def)
qed

text \<open>An IPv6 proxy loses its brackets when credentials are folded in: the rule that comes out
  no longer has a host, and its port does not parse.\<close>

theorem proxy_credentials_lose_ipv6:
  "with_proxy_credentials ''socks5://[::1]:1080'' (cps ''u'') (cps ''p'') =
     Inr ''socks5://u:p@::1:1080'' \<and>
   bindE (urlsplit ''socks5://[::1]:1080'') (\<lambda>p. Inr (hostname p)) = Inr (Some ''::1'') \<and>
   bindE (urlsplit ''socks5://u:p@::1:1080'') (\<lambda>p. Inr (hostname p)) = Inr None \<and>
   bindE (urlsplit ''socks5://u:p@::1:1080'') url_port = Inl (ValueError (PortNotNumeric '':1:1080''))"
proof (intro conjI)
  show "with_proxy_credentials ''socks5://[::1]:1080'' (cps ''u'') (cps ''p'') =
     Inr ''socks5://u:p@::1:1080''"
    by (rule ipv6_credentials)
  show "bindE (urlsplit ''socks5://[::1]:1080'') (\<lambda>p. Inr (hostname p)) = Inr (Some ''::1'')"
    by (simp add: ipv6_rule_facts)
  show "bindE (urlsplit ''socks5://u:p@::1:1080'') (\<lambda>p. Inr (hostname p)) = Inr None"
    by code_simp
  show "bindE (urlsplit ''socks5://u:p@::1:1080'') url_port =
      Inl (ValueError (PortNotNumeric '':1:1080''))"
    by code_simp
qed

end
