(* ===== verification/Tls.thy ===== *)
theory Tls
  imports Errors "HOL-Library.List_Lexorder" "HOL-Library.Char_ord"
begin

text \<open>
  The shape of the ClientHello (\<open>src/cronet/tls.py\<close>): the profile record, the checks its
  constructor makes in their order, and its translation to the option object that carries
  it. A Python \<open>dict\<close> built key by key is an association list in insertion order; the
  values that end up in JSON are the datatype \<open>json\<close>.
\<close>

datatype json =
    JInt int | JStr string | JBool bool | JList "json list" | JObj "(string \<times> json) list"

definition UNORDERABLE_EXTENSIONS :: "int set" where
  "UNORDERABLE_EXTENSIONS = {21, 41}"

definition VERSIONS :: "string set" where
  "VERSIONS = {''1.2'', ''1.3''}"

definition ALPN_PROTOCOLS :: "string set" where
  "ALPN_PROTOCOLS = {''h2'', ''http/1.1'', ''h3''}"

record tls_profile =
  cipher_suites :: "int list"
  extension_order :: "int list"
  supported_groups :: "int list"
  key_share_groups :: "int list"
  signature_algorithms :: "int list"
  alpn :: "string list"
  min_version :: "string option"
  max_version :: "string option"
  grease :: "bool option"
  permute_extensions :: "bool option"

definition no_profile :: tls_profile where
  "no_profile = \<lparr>cipher_suites = [], extension_order = [], supported_groups = [],
     key_share_groups = [], signature_algorithms = [], alpn = [], min_version = None,
     max_version = None, grease = None, permute_extensions = None\<rparr>"

section \<open>What the constructor refuses\<close>

definition check_version :: "string \<Rightarrow> string option \<Rightarrow> exn + unit" where
  "check_version name value =
     (case value of None \<Rightarrow> Inr ()
      | Some v \<Rightarrow> guardE (v \<in> VERSIONS) (ValueError (BadVersion name v)))"

definition tls_post_init :: "tls_profile \<Rightarrow> exn + unit" where
  "tls_post_init p =
     bindE (check_version ''min_version'' (min_version p)) (\<lambda>_.
     bindE (check_version ''max_version'' (max_version p)) (\<lambda>_.
     let unknown = filter (\<lambda>a. a \<notin> ALPN_PROTOCOLS) (alpn p) in
     bindE (guardE (unknown = []) (ValueError (UnknownAlpn (sort (remdups unknown))))) (\<lambda>_.
     let unorderable = filter (\<lambda>e. e \<in> UNORDERABLE_EXTENSIONS) (extension_order p) in
     bindE (guardE (unorderable = []) (ValueError (Unorderable (sort (remdups unorderable))))) (\<lambda>_.
     guardE (length (remdups (extension_order p)) = length (extension_order p))
       (ValueError RepeatedExtension)))))"

definition mk_tls_profile :: "tls_profile \<Rightarrow> exn + tls_profile" where
  "mk_tls_profile p = bindE (tls_post_init p) (\<lambda>_. Inr p)"

section \<open>The option object\<close>

definition key_if :: "bool \<Rightarrow> string \<Rightarrow> json \<Rightarrow> (string \<times> json) list" where
  "key_if present k v = (if present then [(k, v)] else [])"

definition key_opt :: "string \<Rightarrow> ('a \<Rightarrow> json) \<Rightarrow> 'a option \<Rightarrow> (string \<times> json) list" where
  "key_opt k f v = (case v of None \<Rightarrow> [] | Some x \<Rightarrow> [(k, f x)])"

definition effective_permute :: "tls_profile \<Rightarrow> bool option" where
  "effective_permute p =
     (if permute_extensions p = None \<and> extension_order p \<noteq> [] then Some False
      else permute_extensions p)"

definition profile_dict :: "tls_profile \<Rightarrow> (string \<times> json) list" where
  "profile_dict p =
     key_if (cipher_suites p \<noteq> []) ''cipher_suites'' (JList (map JInt (cipher_suites p))) @
     key_if (extension_order p \<noteq> []) ''extension_order'' (JList (map JInt (extension_order p))) @
     key_if (supported_groups p \<noteq> []) ''supported_groups'' (JList (map JInt (supported_groups p))) @
     key_if (key_share_groups p \<noteq> []) ''key_share_groups'' (JList (map JInt (key_share_groups p))) @
     key_if (signature_algorithms p \<noteq> []) ''signature_algorithms''
       (JList (map JInt (signature_algorithms p))) @
     key_if (alpn p \<noteq> []) ''alpn'' (JList (map JStr (alpn p))) @
     key_opt ''min_version'' JStr (min_version p) @
     key_opt ''max_version'' JStr (max_version p) @
     key_opt ''grease'' JBool (grease p) @
     key_opt ''permute_extensions'' JBool (effective_permute p)"

definition to_options :: "tls_profile \<Rightarrow> (string \<times> json) list" where
  "to_options p =
     (if profile_dict p \<noteq> [] then [(''tls_profile'', JObj (profile_dict p))] else [])"

definition DETERMINISTIC :: tls_profile where
  "DETERMINISTIC = no_profile\<lparr>permute_extensions := Some False, grease := Some False\<rparr>"

section \<open>Reading the options back\<close>

lemma map_of_key_if:
  "map_of (key_if b k v) n = (if n = k \<and> b then Some v else None)"
  by (simp add: key_if_def)

lemma map_of_key_opt:
  "map_of (key_opt k f x) n = (if n = k then map_option f x else None)"
  by (cases x) (simp_all add: key_opt_def)

definition setting :: "tls_profile \<Rightarrow> string \<Rightarrow> json option" where
  "setting p k = map_of (profile_dict p) k"

lemma inj_JInt [simp]: "map JInt xs = map JInt ys \<longleftrightarrow> xs = ys"
  by (rule inj_map_eq_map) (simp add: inj_def)

lemma inj_JStr [simp]: "map JStr xs = map JStr ys \<longleftrightarrow> xs = ys"
  by (rule inj_map_eq_map) (simp add: inj_def)

lemma map_option_inj:
  "inj f \<Longrightarrow> map_option f x = map_option f y \<longleftrightarrow> x = y"
  by (cases x; cases y) (auto simp: inj_def)

lemma some_list_iff:
  "(if xs \<noteq> [] then Some (JList (map JInt xs)) else None) =
     (if ys \<noteq> [] then Some (JList (map JInt ys)) else None) \<longleftrightarrow> xs = ys"
  "(if us \<noteq> [] then Some (JList (map JStr us)) else None) =
     (if vs \<noteq> [] then Some (JList (map JStr vs)) else None) \<longleftrightarrow> us = vs"
  by auto

lemma setting_simps [simp]:
  "setting p ''cipher_suites'' =
     (if cipher_suites p \<noteq> [] then Some (JList (map JInt (cipher_suites p))) else None)"
  "setting p ''extension_order'' =
     (if extension_order p \<noteq> [] then Some (JList (map JInt (extension_order p))) else None)"
  "setting p ''supported_groups'' =
     (if supported_groups p \<noteq> [] then Some (JList (map JInt (supported_groups p))) else None)"
  "setting p ''key_share_groups'' =
     (if key_share_groups p \<noteq> [] then Some (JList (map JInt (key_share_groups p))) else None)"
  "setting p ''signature_algorithms'' =
     (if signature_algorithms p \<noteq> [] then Some (JList (map JInt (signature_algorithms p))) else None)"
  "setting p ''alpn'' = (if alpn p \<noteq> [] then Some (JList (map JStr (alpn p))) else None)"
  "setting p ''min_version'' = map_option JStr (min_version p)"
  "setting p ''max_version'' = map_option JStr (max_version p)"
  "setting p ''grease'' = map_option JBool (grease p)"
  "setting p ''permute_extensions'' = map_option JBool (effective_permute p)"
  by (simp_all add: setting_def profile_dict_def map_of_key_if map_of_key_opt map_add_def
      split: option.split)

section \<open>Properties\<close>

text \<open>A profile is accepted exactly when both versions are known or unset, every ALPN protocol
  is one the configuration can carry, no extension that is emitted at a fixed place is ordered,
  and no extension is ordered twice.\<close>

theorem tls_profile_accepted:
  "mk_tls_profile p = Inr p \<longleftrightarrow>
     min_version p \<in> {None, Some ''1.2'', Some ''1.3''} \<and>
     max_version p \<in> {None, Some ''1.2'', Some ''1.3''} \<and>
     set (alpn p) \<subseteq> {''h2'', ''http/1.1'', ''h3''} \<and>
     set (extension_order p) \<inter> {21, 41} = {} \<and>
     distinct (extension_order p)"
proof -
  have version: "check_version n v = Inr () \<longleftrightarrow> v \<in> {None, Some ''1.2'', Some ''1.3''}" for n v
    by (cases v) (simp_all add: check_version_def VERSIONS_def)
  have twice: "length (remdups xs) = length xs \<longleftrightarrow> distinct xs" for xs :: "int list"
    by (simp add: length_remdups_eq)
  have alpns: "filter (\<lambda>a. a \<notin> ALPN_PROTOCOLS) xs = [] \<longleftrightarrow> set xs \<subseteq> {''h2'', ''http/1.1'', ''h3''}"
    for xs by (auto simp: filter_empty_conv ALPN_PROTOCOLS_def)
  have fixed: "filter (\<lambda>e. e \<in> UNORDERABLE_EXTENSIONS) xs = [] \<longleftrightarrow> set xs \<inter> {21, 41} = {}"
    for xs by (auto simp: filter_empty_conv UNORDERABLE_EXTENSIONS_def)
  show ?thesis
    by (simp add: mk_tls_profile_def tls_post_init_def bindE_eq_Inr version twice alpns fixed)
qed

text \<open>The options carry everything a profile asks for and nothing else: two profiles translate
  to the same options exactly when they agree on every field, the extension shuffle taken as
  switched off by an explicit order that leaves it unset.\<close>

theorem tls_options_faithful:
  "to_options p = to_options q \<longleftrightarrow>
     p\<lparr>permute_extensions := effective_permute p\<rparr> =
     q\<lparr>permute_extensions := effective_permute q\<rparr>"
proof
  assume "to_options p = to_options q"
  then have "profile_dict p = profile_dict q"
    by (simp add: to_options_def split: if_splits)
  then have same: "setting p k = setting q k" for k by (simp add: setting_def)
  note keys = same [of "''cipher_suites''"] same [of "''extension_order''"]
    same [of "''supported_groups''"] same [of "''key_share_groups''"]
    same [of "''signature_algorithms''"] same [of "''alpn''"] same [of "''min_version''"]
    same [of "''max_version''"] same [of "''grease''"] same [of "''permute_extensions''"]
  have "inj JStr" "inj JBool" by (simp_all add: inj_def)
  with keys show "p\<lparr>permute_extensions := effective_permute p\<rparr> =
      q\<lparr>permute_extensions := effective_permute q\<rparr>"
    by (cases p; cases q) (simp only: setting_simps some_list_iff map_option_inj, simp)
next
  assume eq: "p\<lparr>permute_extensions := effective_permute p\<rparr> =
    q\<lparr>permute_extensions := effective_permute q\<rparr>"
  have "effective_permute p = effective_permute q"
    using arg_cong [OF eq, of permute_extensions] by simp
  moreover have "f p = f q" if "\<And>r x. f (r\<lparr>permute_extensions := x\<rparr>) = f r" for f :: "tls_profile \<Rightarrow> 'b"
    using arg_cong [OF eq, of f] that by simp
  ultimately have "profile_dict p = profile_dict q"
    using arg_cong [OF eq, of cipher_suites] arg_cong [OF eq, of extension_order]
      arg_cong [OF eq, of supported_groups] arg_cong [OF eq, of key_share_groups]
      arg_cong [OF eq, of signature_algorithms] arg_cong [OF eq, of alpn]
      arg_cong [OF eq, of min_version] arg_cong [OF eq, of max_version]
      arg_cong [OF eq, of grease]
    by (simp add: profile_dict_def)
  then show "to_options p = to_options q" by (simp add: to_options_def)
qed

end
