(* ===== verification/Body.thy ===== *)
theory Body
  imports Url Tls
begin

text \<open>
  The options of a request and the body they ask for (\<open>src/cronet/request.py\<close>): the option
  record, the Authorization value, the multipart encoder and \<open>encode_body\<close>. An option a
  caller may leave out is an \<open>option\<close>, and where the code tells an absent key from a
  \<open>None\<close> (only for \<open>timeout\<close>) it is a datatype of three cases. A mapping is given by its
  items.

  Parameters: \<open>guess\<close> is \<open>mimetypes.guess_type\<close> (it reads the tables of the machine it runs
  on), \<open>encode_json\<close> the JSON backend, and the list of numbers that \<open>secrets.choice\<close> draws.
\<close>

section \<open>Options\<close>

datatype content_source = BytesContent bytes | TextContent ustr

datatype file_spec =
    Content content_source
  | NamedFile ustr content_source
  | TypedFile ustr content_source ustr

datatype timeout_option = Unset | NoLimit | Seconds rat

record request_options =
  opt_headers :: header_source
  opt_query :: "(ustr \<times> ustr) list"
  opt_body :: "content_source option"
  opt_form :: "(ustr \<times> ustr) list option"
  opt_files :: "(ustr \<times> file_spec) list option"
  opt_json :: "json option"
  opt_basic_auth :: "(ustr \<times> ustr) option"
  opt_bearer_auth :: "string option"
  opt_timeout :: timeout_option
  opt_max_redirects :: "int option"
  opt_priority :: "string option"
  opt_disable_cache :: bool
  opt_other :: "string list"

text \<open>No option given; \<open>opt_other\<close> holds the names \<open>request\<close> does not know.\<close>

definition no_options :: request_options where
  "no_options = \<lparr>opt_headers = NoHeaders, opt_query = [], opt_body = None, opt_form = None,
     opt_files = None, opt_json = None, opt_basic_auth = None, opt_bearer_auth = None,
     opt_timeout = Unset, opt_max_redirects = None, opt_priority = None,
     opt_disable_cache = False, opt_other = []\<rparr>"

definition check_options :: "request_options \<Rightarrow> exn + unit" where
  "check_options opts =
     (let unknown = sort (remdups (opt_other opts)) in
      guardE (unknown = []) (TypeError (UnknownOptions unknown)))"

datatype priority = THROTTLED | IDLE | LOWEST | LOW | MEDIUM | HIGHEST

definition priority_of :: "string \<Rightarrow> priority option" where
  "priority_of s =
     (if s = ''throttled'' then Some THROTTLED
      else if s = ''idle'' then Some IDLE
      else if s = ''lowest'' then Some LOWEST
      else if s = ''low'' then Some LOW
      else if s = ''medium'' then Some MEDIUM
      else if s = ''highest'' then Some HIGHEST
      else None)"

fun PRIORITIES :: "priority \<Rightarrow> int" where
  "PRIORITIES THROTTLED = 0"
| "PRIORITIES IDLE = 1"
| "PRIORITIES LOWEST = 2"
| "PRIORITIES LOW = 3"
| "PRIORITIES MEDIUM = 4"
| "PRIORITIES HIGHEST = 5"

definition native_priority :: "request_options \<Rightarrow> exn + int" where
  "native_priority opts =
     (case opt_priority opts of
        None \<Rightarrow> Inr (PRIORITIES MEDIUM)
      | Some s \<Rightarrow>
          (case priority_of s of
             None \<Rightarrow> Inl (ValueError (BadEnumValue s))
           | Some p \<Rightarrow> Inr (PRIORITIES p)))"

section \<open>The Authorization header\<close>

definition b64_char :: "nat \<Rightarrow> char" where
  "b64_char n =
     (if n < 26 then char_of (65 + n) else if n < 52 then char_of (71 + n)
      else if n < 62 then char_of (n - 4) else if n = 62 then CHR ''+'' else CHR ''/'')"

fun b64encode :: "bytes \<Rightarrow> string" where
  "b64encode [] = []"
| "b64encode [a] =
     (let n = unat a * 16 in [b64_char (n div 64), b64_char (n mod 64), CHR ''='', CHR ''=''])"
| "b64encode [a, b] =
     (let n = (unat a * 256 + unat b) * 4 in
      [b64_char (n div 4096), b64_char (n div 64 mod 64), b64_char (n mod 64), CHR ''=''])"
| "b64encode (a # b # c # r) =
     (let n = unat a * 65536 + unat b * 256 + unat c in
      b64_char (n div 262144) # b64_char (n div 4096 mod 64) # b64_char (n div 64 mod 64) #
      b64_char (n mod 64) # b64encode r)"

definition authorization :: "request_options \<Rightarrow> exn + string option" where
  "authorization opts =
     (case (opt_basic_auth opts, opt_bearer_auth opts) of
        (Some _, Some _) \<Rightarrow> Inl (TypeError TwoAuthorizations)
      | (Some (username, password), None) \<Rightarrow>
          bindE (encode_text (username @ cps '':'' @ password)) (\<lambda>b.
          Inr (Some (''Basic '' @ b64encode b)))
      | (None, Some bearer) \<Rightarrow> Inr (Some (''Bearer '' @ bearer))
      | (None, None) \<Rightarrow> Inr None)"

section \<open>Multipart bodies\<close>

definition BOUNDARY_PREFIX :: string where
  "BOUNDARY_PREFIX = ''----WebKitFormBoundary''"

definition BOUNDARY_ALPHABET :: string where
  "BOUNDARY_ALPHABET =
     ''abcdefghijklmnopqrstuvwxyzABCDEFGHIJKLMNOPQRSTUVWXYZ0123456789''"

definition BOUNDARY_LENGTH :: nat where
  "BOUNDARY_LENGTH = 16"

text \<open>The drawn numbers index the alphabet; \<open>secrets.choice\<close> reduces them to its range.\<close>

definition generate_boundary :: "(nat \<Rightarrow> nat) \<Rightarrow> string" where
  "generate_boundary draw =
     BOUNDARY_PREFIX @
     map (\<lambda>i. BOUNDARY_ALPHABET ! (draw i mod length BOUNDARY_ALPHABET)) [0..<BOUNDARY_LENGTH]"

definition quoted_char :: "nat \<Rightarrow> ustr" where
  "quoted_char c =
     (if c = 34 then cps ''%22'' else if c = 13 then cps ''%0D'' else if c = 10 then cps ''%0A''
      else [c])"

definition quoted :: "ustr \<Rightarrow> ustr" where
  "quoted s = concat (map quoted_char s)"

definition disposition :: "ustr \<Rightarrow> ustr option \<Rightarrow> ustr" where
  "disposition name filename =
     cps ''form-data; name='' @ [34] @ quoted name @ [34] @
     (case filename of None \<Rightarrow> [] | Some f \<Rightarrow> cps ''; filename='' @ [34] @ quoted f @ [34])"

definition encode_content :: "content_source \<Rightarrow> exn + bytes" where
  "encode_content c = (case c of BytesContent b \<Rightarrow> Inr b | TextContent t \<Rightarrow> encode_text t)"

definition file_part :: "(ustr \<Rightarrow> ustr option) \<Rightarrow> ustr \<Rightarrow> file_spec \<Rightarrow> exn + (ustr \<times> ustr \<times> bytes)" where
  "file_part guess name spec =
     (case (case spec of
              Content c \<Rightarrow> (name, c, None)
            | NamedFile f c \<Rightarrow> (f, c, None)
            | TypedFile f c t \<Rightarrow> (f, c, Some t)) of
        (filename, c, declared) \<Rightarrow>
          let guessed = (case guess filename of
                Some t \<Rightarrow> if t \<noteq> [] then t else cps ''application/octet-stream''
              | None \<Rightarrow> cps ''application/octet-stream'');
              media_type = (case declared of
                Some t \<Rightarrow> if t \<noteq> [] then t else guessed
              | None \<Rightarrow> guessed) in
          bindE (encode_content c) (\<lambda>data. Inr (filename, media_type, data)))"

definition crlf :: bytes where
  "crlf = [13, 10]"

fun encode_fields :: "string \<Rightarrow> (ustr \<times> ustr) list \<Rightarrow> bytes \<Rightarrow> exn + bytes" where
  "encode_fields boundary [] body = Inr body"
| "encode_fields boundary ((name, value) # form_fields) body =
     bindE (encode_text (cps ''Content-Disposition: '' @ disposition name None)) (\<lambda>head.
     bindE (encode_text value) (\<lambda>data.
     encode_fields boundary form_fields
       (body @ latin1 (''--'' @ boundary) @ crlf @ head @ crlf @ crlf @ data @ crlf)))"

fun encode_files ::
  "(ustr \<Rightarrow> ustr option) \<Rightarrow> string \<Rightarrow> (ustr \<times> file_spec) list \<Rightarrow> bytes \<Rightarrow> exn + bytes" where
  "encode_files guess boundary [] body = Inr body"
| "encode_files guess boundary ((name, spec) # files) body =
     bindE (file_part guess name spec) (\<lambda>(filename, media_type, content).
     bindE (encode_text (cps ''Content-Disposition: '' @ disposition name (Some filename))) (\<lambda>head.
     bindE (encode_text (cps ''Content-Type: '' @ media_type)) (\<lambda>kind.
     encode_files guess boundary files
       (body @ latin1 (''--'' @ boundary) @ crlf @ head @ crlf @ kind @ crlf @ crlf @
        content @ crlf))))"

definition encode_multipart ::
  "(ustr \<Rightarrow> ustr option) \<Rightarrow> (ustr \<times> ustr) list \<Rightarrow> (ustr \<times> file_spec) list \<Rightarrow> string \<Rightarrow>
    exn + bytes" where
  "encode_multipart guess form_fields files boundary =
     bindE (encode_fields boundary form_fields []) (\<lambda>body.
     bindE (encode_files guess boundary files body) (\<lambda>body.
     Inr (body @ latin1 (''--'' @ boundary @ ''--'') @ crlf)))"

section \<open>The body a request asks for\<close>

definition given_bodies :: "request_options \<Rightarrow> string list" where
  "given_bodies opts =
     (if opt_body opts \<noteq> None then [''body''] else []) @
     (if opt_form opts \<noteq> None then [''form''] else []) @
     (if opt_json opts \<noteq> None then [''json''] else [])"

definition encode_body ::
  "(ustr \<Rightarrow> ustr option) \<Rightarrow> (json \<Rightarrow> exn + bytes) \<Rightarrow> (nat \<Rightarrow> nat) \<Rightarrow> request_options \<Rightarrow>
    exn + (bytes \<times> string option)" where
  "encode_body guess encode_json draw opts =
     (let given = given_bodies opts in
      bindE (guardE (length given \<le> 1) (TypeError (TwoBodies given))) (\<lambda>_.
      bindE (guardE (opt_files opts = None \<or> given = [] \<or> given = [''form''])
               (TypeError (FilesBeside (hd given)))) (\<lambda>_.
      case opt_files opts of
        Some files \<Rightarrow>
          let boundary = generate_boundary draw;
              form_fields = (case opt_form opts of None \<Rightarrow> [] | Some f \<Rightarrow> f) in
          bindE (encode_multipart guess form_fields files boundary) (\<lambda>body.
          Inr (body, Some (''multipart/form-data; boundary='' @ boundary)))
      | None \<Rightarrow>
          (case opt_body opts of
             Some c \<Rightarrow> bindE (encode_content c) (\<lambda>b. Inr (b, None))
           | None \<Rightarrow>
               (case opt_form opts of
                  Some form \<Rightarrow>
                    bindE (urlencode form) (\<lambda>q.
                    Inr (latin1 q, Some ''application/x-www-form-urlencoded''))
                | None \<Rightarrow>
                    (case opt_json opts of
                       Some j \<Rightarrow>
                         bindE (encode_json j) (\<lambda>b. Inr (b, Some ''application/json''))
                     | None \<Rightarrow> Inr ([], None)))))))"

end
