(* ===== verification/Multipart.thy ===== *)
theory Multipart
  imports Body
begin

text \<open>
  The multipart encoder of the theory Body against a description of the body as a list of
  parts, and against a reader that takes the bytes apart again: it looks for the delimiter,
  reads header lines to the empty line, and takes the name and file name out of their
  quotes. \<open>render\<close> is the specification, \<open>encode_multipart_refines\<close> the refinement, and
  \<open>multipart_roundtrip\<close> what a server gets.
\<close>

section \<open>Parts and how they are written\<close>

datatype part = Part
  (part_name: bytes) (part_filename: "bytes option") (part_type: "bytes option") (part_data: bytes)

definition quote_mark :: "8 word" where
  "quote_mark = 34"

definition disposition_line :: "bytes \<Rightarrow> bytes option \<Rightarrow> bytes" where
  "disposition_line name filename =
     latin1 ''Content-Disposition: form-data; name='' @ quote_mark # name @ quote_mark #
     (case filename of None \<Rightarrow> []
      | Some f \<Rightarrow> latin1 ''; filename='' @ quote_mark # f @ [quote_mark])"

definition part_lines :: "part \<Rightarrow> bytes list" where
  "part_lines p =
     disposition_line (part_name p) (part_filename p) #
     (case part_type p of None \<Rightarrow> [] | Some t \<Rightarrow> [latin1 ''Content-Type: '' @ t])"

definition dash_boundary :: "string \<Rightarrow> bytes" where
  "dash_boundary b = latin1 (''--'' @ b)"

definition render_part :: "string \<Rightarrow> part \<Rightarrow> bytes" where
  "render_part b p =
     dash_boundary b @ crlf @ concat (map (\<lambda>l. l @ crlf) (part_lines p)) @ crlf @ part_data p @ crlf"

definition render :: "string \<Rightarrow> part list \<Rightarrow> bytes" where
  "render b ps = concat (map (render_part b) ps) @ dash_boundary b @ latin1 ''--'' @ crlf"

definition field_as_part :: "ustr \<times> ustr \<Rightarrow> exn + part" where
  "field_as_part = (\<lambda>(name, value).
     bindE (encode_text (quoted name)) (\<lambda>n.
     bindE (encode_text value) (\<lambda>d. Inr (Part n None None d))))"

definition file_as_part :: "(ustr \<Rightarrow> ustr option) \<Rightarrow> ustr \<times> file_spec \<Rightarrow> exn + part" where
  "file_as_part guess = (\<lambda>(name, spec).
     bindE (file_part guess name spec) (\<lambda>(filename, media_type, content).
     bindE (encode_text (quoted name)) (\<lambda>n.
     bindE (encode_text (quoted filename)) (\<lambda>f.
     bindE (encode_text media_type) (\<lambda>t. Inr (Part n (Some f) (Some t) content))))))"

definition multipart_parts ::
  "(ustr \<Rightarrow> ustr option) \<Rightarrow> (ustr \<times> ustr) list \<Rightarrow> (ustr \<times> file_spec) list \<Rightarrow> exn + part list" where
  "multipart_parts guess fs files =
     bindE (mapE field_as_part fs) (\<lambda>a. bindE (mapE (file_as_part guess) files) (\<lambda>b. Inr (a @ b)))"

section \<open>The encoder writes the parts\<close>

text \<open>Literals stay folded in this theory.\<close>

declare cps_simps(2) [simp del]
declare latin1_simps(2) [simp del]

lemma encode_text_append:
  "encode_text (s @ t) = bindE (encode_text s) (\<lambda>a. bindE (encode_text t) (\<lambda>b. Inr (a @ b)))"
  by (simp add: encode_text_def utf8_append split: option.split)

lemma byte_of_char: "byte (of_char c) = of_char c"
  by (simp only: byte_def of_nat_of_char)

lemma encode_text_cps:
  assumes "list_all is_ascii s"
  shows "encode_text (cps s) = Inr (latin1 s)"
proof -
  have "list_all (\<lambda>n. n < 128) (cps s)" using assms by (simp add: cps_def list_all_iff is_ascii_def)
  then have "utf8 (cps s) = Some (map byte (cps s))" by (rule utf8_ascii)
  moreover have "map byte (cps s) = latin1 s" by (simp add: cps_def latin1_def byte_of_char)
  ultimately show ?thesis by (simp add: encode_text_def)
qed

lemma encode_text_quote:
  "encode_text (34 # s) = bindE (encode_text s) (\<lambda>b. Inr (quote_mark # b))"
  by (simp add: encode_text_def utf8_cp_def byte_def quote_mark_def split: option.split)

lemma encode_text_Nil: "encode_text [] = Inr []"
  by (simp add: encode_text_def)

lemma literals:
  "encode_text (cps ''Content-Disposition: '') = Inr (latin1 ''Content-Disposition: '')"
  "encode_text (cps ''form-data; name='') = Inr (latin1 ''form-data; name='')"
  "encode_text (cps ''; filename='') = Inr (latin1 ''; filename='')"
  "encode_text (cps ''Content-Type: '') = Inr (latin1 ''Content-Type: '')"
  by (rule encode_text_cps, simp add: is_ascii_def)+

lemma disposition_literal:
  "latin1 ''Content-Disposition: '' @ latin1 ''form-data; name='' =
     latin1 ''Content-Disposition: form-data; name=''"
  by (simp add: latin1_def)

lemma encode_disposition:
  "encode_text (cps ''Content-Disposition: '' @ disposition name filename) =
     bindE (encode_text (quoted name)) (\<lambda>n.
     case filename of
       None \<Rightarrow> Inr (disposition_line n None)
     | Some f \<Rightarrow> bindE (encode_text (quoted f)) (\<lambda>f'. Inr (disposition_line n (Some f'))))"
  by (cases filename; cases "encode_text (quoted name)")
    (simp_all only: disposition_def encode_text_append literals encode_text_quote encode_text_Nil bindE_simps
      option.case disposition_line_def disposition_literal [symmetric] append.simps append_assoc
      bindE_assoc append_Nil append_Nil2 append_Cons)

lemma encode_fields_parts:
  "encode_fields b fs body =
     bindE (mapE field_as_part fs) (\<lambda>ps. Inr (body @ concat (map (render_part b) ps)))"
proof (induction fs arbitrary: body)
  case (Cons f fs)
  obtain name v where f: "f = (name, v)" by force
  show ?case
    by (cases "encode_text (quoted name)"; cases "encode_text v")
      (simp_all add: f Cons.IH encode_disposition field_as_part_def bindE_assoc render_part_def
        part_lines_def dash_boundary_def)
qed simp

lemma encode_files_parts:
  "encode_files guess b files body =
     bindE (mapE (file_as_part guess) files) (\<lambda>ps. Inr (body @ concat (map (render_part b) ps)))"
proof (induction files arbitrary: body)
  case (Cons f files)
  obtain name spec where f: "f = (name, spec)" by force
  show ?case
  proof (cases "file_part guess name spec")
    case (Inl e)
    then show ?thesis by (simp add: f file_as_part_def)
  next
    case (Inr r)
    obtain filename media_type content where r: "r = (filename, media_type, content)"
      by (cases r) auto
    have kind: "encode_text (cps ''Content-Type: '' @ media_type) =
        bindE (encode_text media_type) (\<lambda>t. Inr (latin1 ''Content-Type: '' @ t))"
      by (simp only: encode_text_append literals bindE_simps)
    show ?thesis
      by (cases "encode_text (quoted name)"; cases "encode_text (quoted filename)";
          cases "encode_text media_type")
        (simp_all add: f r Inr Cons.IH encode_disposition kind file_as_part_def bindE_assoc
          render_part_def part_lines_def dash_boundary_def)
  qed
qed simp

lemma encode_multipart_refines:
  "encode_multipart guess fs files b =
     bindE (multipart_parts guess fs files) (\<lambda>ps. Inr (render b ps))"
proof -
  have dash: "latin1 (''--'' @ b @ ''--'') = dash_boundary b @ latin1 ''--''"
    by (simp add: dash_boundary_def latin1_def)
  have "latin1 (CHR ''-'' # CHR ''-'' # b @ ''--'') = dash_boundary b @ latin1 ''--''"
    using dash by simp
  note dash = dash this
  show ?thesis
    by (cases "mapE field_as_part fs"; cases "mapE (file_as_part guess) files")
      (simp_all add: encode_multipart_def encode_fields_parts encode_files_parts multipart_parts_def
        render_def dash)
qed

section \<open>A reader\<close>

fun split_sub :: "'a list \<Rightarrow> 'a list \<Rightarrow> ('a list \<times> 'a list) option" where
  "split_sub d [] = None"
| "split_sub d (x # xs) =
     (if starts_with d (x # xs) then Some ([], drop (length d) (x # xs))
      else map_option (\<lambda>(a, b). (x # a, b)) (split_sub d xs))"

definition strip_prefix :: "'a list \<Rightarrow> 'a list \<Rightarrow> 'a list option" where
  "strip_prefix p s = (if starts_with p s then Some (drop (length p) s) else None)"

function read_lines :: "bytes \<Rightarrow> bytes \<Rightarrow> (bytes list \<times> bytes) option" where
  "read_lines acc [] = None"
| "read_lines acc (x # r) =
     (if x = 13 \<and> r \<noteq> [] \<and> hd r = 10 then
        (if acc = [] then Some ([], tl r)
         else map_option (\<lambda>(ls, r'). (acc # ls, r')) (read_lines [] (tl r)))
      else read_lines (acc @ [x]) r)"
  by pat_completeness auto
termination by (relation "measure (\<lambda>(acc, s). length s)") auto

definition read_disposition :: "bytes \<Rightarrow> (bytes \<times> bytes option) option" where
  "read_disposition l =
     (case strip_prefix (latin1 ''Content-Disposition: form-data; name='' @ [quote_mark]) l of
        None \<Rightarrow> None
      | Some r \<Rightarrow>
          (case partition_at quote_mark r of (n, ended, rest) \<Rightarrow>
             if \<not> ended then None
             else if rest = [] then Some (n, None)
             else
               (case strip_prefix (latin1 ''; filename='' @ [quote_mark]) rest of
                  None \<Rightarrow> None
                | Some r2 \<Rightarrow>
                    (case partition_at quote_mark r2 of (f, ended2, rest2) \<Rightarrow>
                       if ended2 \<and> rest2 = [] then Some (n, Some f) else None))))"

definition read_head :: "bytes list \<Rightarrow> (bytes \<times> bytes option \<times> bytes option) option" where
  "read_head ls =
     (case ls of
        [] \<Rightarrow> None
      | l # extra \<Rightarrow>
          (case read_disposition l of
             None \<Rightarrow> None
           | Some (n, f) \<Rightarrow>
               (case extra of
                  [] \<Rightarrow> Some (n, f, None)
                | [t] \<Rightarrow> map_option (\<lambda>k. (n, f, Some k)) (strip_prefix (latin1 ''Content-Type: '') t)
                | _ \<Rightarrow> None)))"

text \<open>The fuel is the length of the input, one unit for each part.\<close>

fun read_parts :: "nat \<Rightarrow> bytes \<Rightarrow> bytes \<Rightarrow> part list option" where
  "read_parts 0 d s = None"
| "read_parts (Suc k) d s =
     (if s = latin1 ''--'' @ crlf then Some []
      else
        (case strip_prefix crlf s of
           None \<Rightarrow> None
         | Some s1 \<Rightarrow>
             (case read_lines [] s1 of
                None \<Rightarrow> None
              | Some (ls, s2) \<Rightarrow>
                  (case read_head ls of
                     None \<Rightarrow> None
                   | Some (n, f, t) \<Rightarrow>
                       (case split_sub d s2 of
                          None \<Rightarrow> None
                        | Some (data, s3) \<Rightarrow>
                            map_option (\<lambda>ps. Part n f t data # ps) (read_parts k d s3))))))"

definition parse_multipart :: "string \<Rightarrow> bytes \<Rightarrow> part list option" where
  "parse_multipart b s =
     (case strip_prefix (dash_boundary b) s of
        None \<Rightarrow> None
      | Some r \<Rightarrow> read_parts (length s) (crlf @ dash_boundary b) r)"

section \<open>The reader recovers the parts\<close>

lemma strip_prefix_append [simp]: "strip_prefix p (p @ s) = Some s"
  by (simp add: strip_prefix_def)

lemma split_sub_first:
  assumes "c0 \<notin> set d" and "\<not> sublist (c0 # d) c"
  shows "split_sub (c0 # d) (c @ (c0 # d) @ t) = Some (c, t)"
  using assms(2)
proof (induction c)
  case Nil
  then show ?case by (simp add: starts_with_def)
next
  case (Cons x c)
  have "\<not> starts_with (c0 # d) (x # c @ (c0 # d) @ t)"
  proof
    assume "starts_with (c0 # d) (x # c @ (c0 # d) @ t)"
    then obtain u where u: "(x # c) @ (c0 # d @ t) = (c0 # d) @ u"
      by (auto simp: starts_with_iff)
    then obtain v where "x # c = (c0 # d) @ v \<or>
        (x # c) @ v = c0 # d \<and> (c0 # d) @ t = v @ u"
      by (fastforce simp: append_eq_append_conv2)
    then show False
    proof (elim disjE conjE)
      assume "x # c = (c0 # d) @ v"
      then have "sublist (c0 # d) (x # c)" by (metis sublist_append_rightI)
      with Cons.prems show False by simp
    next
      assume v: "(x # c) @ v = c0 # d" "(c0 # d) @ t = v @ u"
      show False
      proof (cases v)
        case Nil
        with v(1) Cons.prems show False by simp
      next
        case (Cons y v')
        with v(2) have "y = c0" by simp
        moreover have "y \<in> set d" using v(1) Cons by auto
        ultimately show False using assms(1) by simp
      qed
    qed
  qed
  moreover have "\<not> sublist (c0 # d) c" using Cons.prems by (auto simp: sublist_Cons_right)
  ultimately show ?case using Cons.IH by simp
qed

lemma read_lines_line:
  assumes "13 \<notin> set l"
  shows "read_lines acc (l @ crlf @ s) =
    (if acc @ l = [] then Some ([], s)
     else map_option (\<lambda>(ls, r). ((acc @ l) # ls, r)) (read_lines [] s))"
  using assms
proof (induction l arbitrary: acc)
  case Nil
  then show ?case by (simp add: crlf_def)
next
  case (Cons x l)
  then show ?case by simp
qed

lemma read_lines_block:
  assumes "\<And>l. l \<in> set ls \<Longrightarrow> 13 \<notin> set l \<and> l \<noteq> []"
  shows "read_lines [] (concat (map (\<lambda>l. l @ crlf) ls) @ crlf @ s) = Some (ls, s)"
  using assms
proof (induction ls)
  case Nil
  then show ?case using read_lines_line [of "[]" "[]" s] by simp
next
  case (Cons l ls)
  then have "13 \<notin> set l" "l \<noteq> []"
    "read_lines [] (concat (map (\<lambda>l. l @ crlf) ls) @ crlf @ s) = Some (ls, s)" by simp_all
  then show ?case by (simp add: read_lines_line)
qed

lemma read_disposition_line:
  assumes "quote_mark \<notin> set n" and "\<And>g. f = Some g \<Longrightarrow> quote_mark \<notin> set g"
  shows "read_disposition (disposition_line n f) = Some (n, f)"
proof -
  let ?p = "latin1 ''Content-Disposition: form-data; name='' @ [quote_mark]"
  let ?q = "latin1 ''; filename='' @ [quote_mark]"
  show ?thesis
  proof (cases f)
    case None
    have "disposition_line n f = ?p @ n @ [quote_mark]" by (simp add: None disposition_line_def)
    then have "strip_prefix ?p (disposition_line n f) = Some (n @ [quote_mark])"
      by (simp only: strip_prefix_append)
    moreover have "partition_at quote_mark (n @ [quote_mark]) = (n, True, [])"
      using assms(1) by (rule partition_at_first)
    ultimately show ?thesis by (simp add: read_disposition_def None)
  next
    case (Some g)
    let ?r = "?q @ g @ [quote_mark]"
    have "disposition_line n f = ?p @ n @ quote_mark # ?r" by (simp add: Some disposition_line_def)
    then have "strip_prefix ?p (disposition_line n f) = Some (n @ quote_mark # ?r)"
      by (simp only: strip_prefix_append)
    moreover have "partition_at quote_mark (n @ quote_mark # ?r) = (n, True, ?r)"
      using assms(1) by (rule partition_at_first)
    moreover have "strip_prefix ?q ?r = Some (g @ [quote_mark])" by (simp only: strip_prefix_append)
    moreover have "partition_at quote_mark (g @ [quote_mark]) = (g, True, [])"
      using assms(2) [OF Some] by (rule partition_at_first)
    moreover have "?r \<noteq> []" by simp
    ultimately show ?thesis
      by (simp only: read_disposition_def option.case prod.case) (simp add: Some)
  qed
qed

definition clean_line :: "bytes \<Rightarrow> bool" where
  "clean_line b \<longleftrightarrow> 13 \<notin> set b \<and> quote_mark \<notin> set b"

text \<open>A part whose header cannot be mistaken and whose data does not contain the delimiter.\<close>

definition readable :: "string \<Rightarrow> part \<Rightarrow> bool" where
  "readable b p \<longleftrightarrow>
     clean_line (part_name p) \<and> pred_option clean_line (part_filename p) \<and>
     pred_option (\<lambda>t. 13 \<notin> set t) (part_type p) \<and>
     \<not> sublist (crlf @ dash_boundary b) (part_data p)"

lemma literal_bytes_not_13:
  "13 \<notin> set (latin1 ''Content-Disposition: form-data; name='')"
  "13 \<notin> set (latin1 ''; filename='')" "13 \<notin> set (latin1 ''Content-Type: '')"
  "13 \<noteq> quote_mark"
  by (simp_all add: latin1_def quote_mark_def)

lemma part_lines_clean:
  assumes "readable b p" and "l \<in> set (part_lines p)"
  shows "13 \<notin> set l \<and> l \<noteq> []"
proof -
  have nonempty: "latin1 s \<noteq> []" if "s \<noteq> []" for s using that by (simp add: latin1_def)
  show ?thesis
    using assms literal_bytes_not_13
    by (cases "part_type p") (auto simp: readable_def clean_line_def part_lines_def disposition_line_def nonempty
        split: option.splits)
qed

lemma read_head_lines:
  assumes "readable b p"
  shows "read_head (part_lines p) = Some (part_name p, part_filename p, part_type p)"
proof -
  have "read_disposition (disposition_line (part_name p) (part_filename p)) =
      Some (part_name p, part_filename p)"
    using assms by (intro read_disposition_line) (auto simp: readable_def clean_line_def)
  then show ?thesis
    by (cases "part_type p") (simp_all add: read_head_def part_lines_def)
qed

lemma render_parts_step:
  "render b (p # ps) = dash_boundary b @ crlf @ concat (map (\<lambda>l. l @ crlf) (part_lines p)) @ crlf @
     part_data p @ (crlf @ dash_boundary b) @ drop (length (dash_boundary b)) (render b ps)"
  "\<exists>r. render b ps = dash_boundary b @ r"
proof -
  show r: "\<exists>r. render b ps = dash_boundary b @ r" for ps
    by (cases ps) (auto simp: render_def render_part_def)
  obtain r where r: "render b ps = dash_boundary b @ r" using r by blast
  have "render b (p # ps) = render_part b p @ render b ps" by (simp add: render_def)
  then show "render b (p # ps) = dash_boundary b @ crlf @ concat (map (\<lambda>l. l @ crlf) (part_lines p)) @ crlf @
     part_data p @ (crlf @ dash_boundary b) @ drop (length (dash_boundary b)) (render b ps)"
    by (simp add: render_part_def r)
qed

lemma read_parts_step:
  assumes "read_lines [] x = Some (ls, s2)" and "read_head ls = Some (n, f, t)"
    and "split_sub d s2 = Some (data, s3)" and "read_parts k d s3 = Some ps"
  shows "read_parts (Suc k) d (crlf @ x) = Some (Part n f t data # ps)"
proof -
  have "crlf @ x \<noteq> latin1 ''--'' @ crlf" by (simp add: crlf_def latin1_def)
  with assms show ?thesis by simp
qed

lemma dash_boundary_not_13:
  assumes "CHR 0x0D \<notin> set b"
  shows "(13 :: 8 word) \<notin> set (dash_boundary b)"
proof
  assume "(13 :: 8 word) \<in> set (dash_boundary b)"
  then obtain c where c: "c \<in> set (''--'' @ b)" "(13 :: 8 word) = of_char c"
    unfolding dash_boundary_def latin1_def set_map by (elim imageE)
  have "(of_char c :: nat) = unat (13 :: 8 word)" by (simp only: c(2) unat_of_char)
  also have "\<dots> = of_char (CHR 0x0D)" by simp
  finally have "(of_char c :: nat) = of_char (CHR 0x0D)" .
  then have "c = CHR 0x0D" by (simp only: of_char_eq_iff)
  with c(1) assms show False by simp
qed

lemma read_parts_render:
  assumes "CHR 0x0D \<notin> set b" and "list_all (readable b) ps" and "length ps < k"
  shows "read_parts k (crlf @ dash_boundary b) (drop (length (dash_boundary b)) (render b ps)) = Some ps"
  using assms(2,3)
proof (induction ps arbitrary: k)
  case Nil
  then obtain k' where k: "k = Suc k'" by (cases k) auto
  show ?case by (simp add: k render_def)
next
  case (Cons p ps)
  then obtain k' where k: "k = Suc k'" and k': "length ps < k'" by (cases k) auto
  have "(13 :: 8 word) \<notin> set (dash_boundary b)" using assms(1) by (rule dash_boundary_not_13)
  then have fresh: "(13 :: 8 word) \<notin> set (10 # dash_boundary b)" by simp
  let ?rest = "drop (length (dash_boundary b)) (render b ps)"
  have d: "crlf @ dash_boundary b = 13 # 10 # dash_boundary b" by (simp add: crlf_def)
  have p: "readable b p" using Cons.prems by simp
  have split: "split_sub (crlf @ dash_boundary b) (part_data p @ (crlf @ dash_boundary b) @ ?rest) =
      Some (part_data p, ?rest)"
  proof -
    have "\<not> sublist (13 # 10 # dash_boundary b) (part_data p)"
      using p unfolding readable_def d by blast
    from split_sub_first [OF fresh this] show ?thesis unfolding d .
  qed
  have lines: "read_lines [] (concat (map (\<lambda>l. l @ crlf) (part_lines p)) @ crlf @
      part_data p @ (crlf @ dash_boundary b) @ ?rest) =
      Some (part_lines p, part_data p @ (crlf @ dash_boundary b) @ ?rest)"
    using part_lines_clean [OF p] by (rule read_lines_block)
  have "read_parts k' (crlf @ dash_boundary b) ?rest = Some ps"
    using Cons.IH [OF _ k'] Cons.prems by simp
  note step = read_parts_step [OF lines read_head_lines [OF p] split this]
  have "drop (length (dash_boundary b)) (render b (p # ps)) =
      crlf @ concat (map (\<lambda>l. l @ crlf) (part_lines p)) @ crlf @
      part_data p @ (crlf @ dash_boundary b) @ ?rest"
    unfolding render_parts_step(1) by simp
  then show ?case using step by (simp only: k part.collapse)
qed

lemma parse_render:
  assumes "CHR 0x0D \<notin> set b" and "list_all (readable b) ps"
  shows "parse_multipart b (render b ps) = Some ps"
proof -
  obtain r where r: "render b ps = dash_boundary b @ r" using render_parts_step(2) by blast
  have "length ps \<le> length (concat (map (render_part b) ps))"
  proof (induction ps)
    case (Cons p ps)
    have "1 \<le> length (render_part b p)" by (simp add: render_part_def crlf_def)
    with Cons have "1 + length ps \<le> length (render_part b p) + length (concat (map (render_part b) ps))"
      by (rule add_le_mono [rotated])
    then show ?case by simp
  qed simp
  then have "length ps < length (render b ps)" by (simp add: render_def crlf_def)
  from read_parts_render [OF assms this] show ?thesis
    by (simp add: parse_multipart_def r)
qed

section \<open>Quoting keeps a part's header closed\<close>

lemma unat_byte_high: "128 \<le> k \<Longrightarrow> k < 256 \<Longrightarrow> 128 \<le> unat (byte k)"
  by (simp add: unat_byte)

lemma utf8_cp_high:
  assumes "utf8_cp c = Some x" and "128 \<le> c" and "w \<in> set x"
  shows "128 \<le> unat w"
proof -
  have tail: "128 + k mod 64 < 256" for k :: nat
    using mod_less_divisor [of 64 k] by linarith
  have "192 + c div 64 < 256" if "c < 2048" using div_less_nat [of c 64 64] that by simp
  moreover have "224 + c div 4096 < 256" if "c < 65536" using div_less_nat [of c 32 4096] that by simp
  moreover have "240 + c div 262144 < 256" if "c < 1114112" using div_less_nat [of c 16 262144] that by simp
  ultimately have lead: "c < 2048 \<Longrightarrow> 128 \<le> unat (byte (192 + c div 64))"
    "c < 65536 \<Longrightarrow> 128 \<le> unat (byte (224 + c div 4096))"
    "c < 1114112 \<Longrightarrow> 128 \<le> unat (byte (240 + c div 262144))"
    using unat_byte_high [of "192 + c div 64"] unat_byte_high [of "224 + c div 4096"]
      unat_byte_high [of "240 + c div 262144"] by linarith+
  have tails: "128 \<le> unat (byte (128 + k mod 64))" for k
    by (rule unat_byte_high) (use tail in simp_all)
  show ?thesis
  proof -
    consider "c < 2048" "x = [byte (192 + c div 64), byte (128 + c mod 64)]"
      | "c < 65536" "x = [byte (224 + c div 4096), byte (128 + c div 64 mod 64), byte (128 + c mod 64)]"
      | "c < 1114112" "x = [byte (240 + c div 262144), byte (128 + c div 4096 mod 64),
          byte (128 + c div 64 mod 64), byte (128 + c mod 64)]"
      using assms(1,2) unfolding utf8_cp_def by (simp only: split: if_splits) simp_all
    then show ?thesis
    proof cases
      case 1
      with assms(3) lead(1) tails show ?thesis by auto
    next
      case 2
      with assms(3) lead(2) tails show ?thesis by auto
    next
      case 3
      with assms(3) lead(3) tails show ?thesis by auto
    qed
  qed
qed

lemma utf8_low_byte:
  assumes "utf8 s = Some b" and "n < 128"
  shows "byte n \<in> set b \<longleftrightarrow> n \<in> set s"
  using assms(1)
proof (induction s arbitrary: b)
  case (Cons c s)
  then obtain x y where x: "utf8_cp c = Some x" and y: "utf8 s = Some y" and b: "b = x @ y"
    by (auto split: option.splits)
  have n: "unat (byte n) = n" using assms(2) by (simp add: unat_byte)
  have "byte n \<in> set x \<longleftrightarrow> n = c"
  proof (cases "c < 128")
    case True
    then have "x = [byte c]" and "unat (byte c) = c" using x by (simp_all add: utf8_cp_def unat_byte)
    then show ?thesis using n by auto
  next
    case False
    then have "byte n \<notin> set x" using utf8_cp_high [OF x, of "byte n"] n assms(2) by linarith
    with False assms(2) show ?thesis by simp
  qed
  with Cons.IH [OF y] b show ?case by auto
qed simp

lemma quoted_safe: "34 \<notin> set (quoted s) \<and> 13 \<notin> set (quoted s) \<and> 10 \<notin> set (quoted s)"
  by (auto simp: quoted_def quoted_char_def cps_def)

lemma quoted_clean:
  assumes "encode_text (quoted s) = Inr b"
  shows "clean_line b"
proof -
  have b: "utf8 (quoted s) = Some b" using assms by (auto simp: encode_text_def split: option.splits)
  have "byte 13 \<notin> set b" "byte 34 \<notin> set b"
    using utf8_low_byte [OF b, of 13] utf8_low_byte [OF b, of 34] quoted_safe [of s] by simp_all
  then show ?thesis by (simp add: clean_line_def quote_mark_def byte_def)
qed

definition part_ok :: "string \<Rightarrow> part \<Rightarrow> bool" where
  "part_ok b p \<longleftrightarrow>
     pred_option (\<lambda>t. 13 \<notin> set t) (part_type p) \<and> \<not> sublist (crlf @ dash_boundary b) (part_data p)"

lemma multipart_parts_readable:
  assumes "multipart_parts guess fs files = Inr ps" and "list_all (part_ok b) ps"
  shows "list_all (readable b) ps"
proof -
  obtain as bs where a: "mapE field_as_part fs = Inr as" and b: "mapE (file_as_part guess) files = Inr bs"
    and ps: "ps = as @ bs"
    using assms(1) by (auto simp: multipart_parts_def bindE_eq_Inr)
  have field: "clean_line (part_name p) \<and> pred_option clean_line (part_filename p)"
    if "field_as_part f = Inr p" for f p
    using that quoted_clean by (auto simp: field_as_part_def bindE_eq_Inr split: prod.splits)
  have "clean_line (part_name p) \<and> pred_option clean_line (part_filename p)"
    if "file_as_part guess f = Inr p" for f p
    using that quoted_clean by (auto simp: file_as_part_def bindE_eq_Inr split: prod.splits)
  with field a b have "list_all (\<lambda>p. clean_line (part_name p) \<and> pred_option clean_line (part_filename p)) ps"
    by (simp add: ps mapE_all [of _ _ as] mapE_all [of _ _ bs])
  with assms(2) show ?thesis by (auto simp: list_all_iff readable_def part_ok_def)
qed



section \<open>The boundary\<close>

text \<open>A generated boundary is the prefix browsers use and sixteen letters or digits, whatever the
  random source draws, so it is safe unquoted in the Content-Type header and contains no line
  break.\<close>

theorem boundary_shape:
  "length (generate_boundary draw) = length BOUNDARY_PREFIX + 16 \<and>
   take (length BOUNDARY_PREFIX) (generate_boundary draw) = BOUNDARY_PREFIX \<and>
   list_all is_alnum (drop (length BOUNDARY_PREFIX) (generate_boundary draw)) \<and>
   CHR 0x0D \<notin> set (generate_boundary draw)"
proof -
  let ?tail = "map (\<lambda>i. BOUNDARY_ALPHABET ! (draw i mod length BOUNDARY_ALPHABET)) [0..<BOUNDARY_LENGTH]"
  have alpha: "list_all is_alnum BOUNDARY_ALPHABET" by code_simp
  have "is_alnum (BOUNDARY_ALPHABET ! (k mod length BOUNDARY_ALPHABET))" for k
    using alpha by (simp add: list_all_length BOUNDARY_ALPHABET_def)
  then have tail: "list_all is_alnum ?tail" by (simp add: list_all_iff)
  moreover have "\<not> is_alnum (CHR 0x0D)" by (simp add: is_alnum_def is_alpha_def is_digit_def)
  ultimately have "CHR 0x0D \<notin> set ?tail" unfolding list_all_iff by blast
  moreover have "CHR 0x0D \<notin> set BOUNDARY_PREFIX" by (simp add: BOUNDARY_PREFIX_def)
  ultimately show ?thesis using tail by (simp add: generate_boundary_def BOUNDARY_LENGTH_def)
qed

end
