(* ===== verification/Cookies.thy ===== *)
theory Cookies
  imports Headers
begin

text \<open>
  The \<open>CookieJar\<close> of \<open>src/cronet/cookies.py\<close>. The jar it wraps, \<open>http.cookiejar\<close>, decides
  by domain, path, expiry and policy which cookies a URL gets; its operations are a record of
  functions, \<open>standard_jar\<close>, over an abstract jar state, and every operation of the class
  calls them as the code does. Each method holds the lock for its whole access to the jar, so
  an operation is one step on the jar; a step returns the jar it leaves.

  The locale \<open>cookie_store\<close> is what the redirect walk relies on, and it is interpreted on the
  class for every standard jar.
\<close>

record ('j, 'c) standard_jar =
  add_cookie_header :: "'j \<Rightarrow> string \<Rightarrow> string option \<times> 'j"
  extract_cookies :: "'j \<Rightarrow> pairs \<Rightarrow> string \<Rightarrow> 'j"
  clear_jar :: "'j \<Rightarrow> 'j"
  jar_list :: "'j \<Rightarrow> 'c list"

text \<open>\<open>_ResponseAdapter\<close>: assigning to an \<open>email.message.Message\<close> appends a pair.\<close>

definition response_adapter :: "headers \<Rightarrow> pairs" where
  "response_adapter h = foldl (\<lambda>message p. message @ [p]) [] (header_items h)"

definition header_for :: "('j, 'c) standard_jar \<Rightarrow> 'j \<Rightarrow> string \<Rightarrow> string option \<times> 'j" where
  "header_for lib jar url = add_cookie_header lib jar url"

definition store :: "('j, 'c) standard_jar \<Rightarrow> 'j \<Rightarrow> string \<Rightarrow> headers \<Rightarrow> 'j" where
  "store lib jar url h =
     (if \<not> contains h ''set-cookie'' then jar
      else extract_cookies lib jar (response_adapter h) url)"

definition clear_cookies :: "('j, 'c) standard_jar \<Rightarrow> 'j \<Rightarrow> 'j" where
  "clear_cookies lib jar = clear_jar lib jar"

definition cookie_iter :: "('j, 'c) standard_jar \<Rightarrow> 'j \<Rightarrow> 'c list" where
  "cookie_iter lib jar = jar_list lib jar"

definition cookie_len :: "('j, 'c) standard_jar \<Rightarrow> 'j \<Rightarrow> nat" where
  "cookie_len lib jar = length (jar_list lib jar)"

definition cookie_repr :: "('j, 'c) standard_jar \<Rightarrow> 'j \<Rightarrow> string" where
  "cookie_repr lib jar = ''CookieJar('' @ show_nat (cookie_len lib jar) @ '' cookies)''"

lemma response_adapter_items [simp]: "response_adapter h = header_items h"
proof -
  have "foldl (\<lambda>message p. message @ [p]) acc ps = acc @ ps" for acc ps :: pairs
    by (induction ps arbitrary: acc) simp_all
  then show ?thesis by (simp add: response_adapter_def)
qed

section \<open>The interface of the redirect walk\<close>

locale cookie_store =
  fixes put :: "'j \<Rightarrow> string \<Rightarrow> headers \<Rightarrow> 'j"
    and take_in :: "'j \<Rightarrow> pairs \<Rightarrow> string \<Rightarrow> 'j"
  assumes put_plain: "\<not> contains h ''set-cookie'' \<Longrightarrow> put j url h = j"
    and put_cookies: "contains h ''set-cookie'' \<Longrightarrow> put j url h = take_in j (header_items h) url"
begin

text \<open>Storing a run of responses only depends on the ones that set a cookie.\<close>

fun put_all :: "'j \<Rightarrow> (string \<times> headers) list \<Rightarrow> 'j" where
  "put_all j [] = j"
| "put_all j ((url, h) # rs) = put_all (put j url h) rs"

lemma put_all_relevant:
  "put_all j rs = put_all j (filter (\<lambda>(url, h). contains h ''set-cookie'') rs)"
  by (induction j rs rule: put_all.induct) (simp_all add: put_plain)

lemma put_all_foldl: "put_all j rs = foldl (\<lambda>j (url, h). put j url h) j rs"
  by (induction j rs rule: put_all.induct) simp_all

lemma stored_in_order:
  "foldl (\<lambda>j (url, h). put j url h) j rs =
   foldl (\<lambda>j (url, h). take_in j (header_items h) url) j
     (filter (\<lambda>(url, h). contains h ''set-cookie'') rs)"
proof (induction rs arbitrary: j)
  case (Cons r rs)
  then show ?case by (cases r) (simp add: put_plain put_cookies)
qed simp

end

interpretation jar: cookie_store "store lib" "extract_cookies lib" for lib :: "('j, 'c) standard_jar"
  by unfold_locales (simp_all add: store_def)

end
