(* ===== verification/Request.thy ===== *)
theory Request
  imports Body BodyLaws Cookies
begin

text \<open>
  Composing one call and following where it leads (\<open>src/cronet/request.py\<close>): the guard on
  headers the network stack owns, \<open>build_call\<close>, which lays a request over its session, and
  \<open>next_hop\<close>, which decides what the next request of a redirect chain is.

  The record \<open>backends\<close> gathers what the code takes from outside: the media type tables,
  the JSON encoder and the standard cookie jar.
\<close>

record ('j, 'c) backends =
  guess_type :: "ustr \<Rightarrow> ustr option"
  json_encode :: "json \<Rightarrow> exn + bytes"
  cookie_lib :: "('j, 'c) standard_jar"

record call_settings =
  call_method :: string
  call_url :: string
  call_headers :: pairs
  call_body :: bytes
  call_priority :: int
  call_max_redirects :: int
  call_disable_cache :: bool

section \<open>Headers the network stack owns\<close>

definition STACK_OWNED_HEADERS :: "(string \<times> string) list" where
  "STACK_OWNED_HEADERS =
     [(''accept-encoding'', ''the session's brotli= setting decides this''),
      (''accept-language'', ''pass accept_language= to the session''),
      (''host'', ''Chromium derives this from the URL''),
      (''connection'', ''Chromium manages connection reuse itself''),
      (''content-length'', ''Chromium counts the body it is given'')]"

fun check_pairs :: "string \<Rightarrow> pairs \<Rightarrow> exn + unit" where
  "check_pairs source [] = Inr ()"
| "check_pairs source ((name, v) # ps) =
     (case map_of STACK_OWNED_HEADERS (lower name) of
        Some instead \<Rightarrow> Inl (ValueError (StackOwned name source instead))
      | None \<Rightarrow> check_pairs source ps)"

definition check_headers :: "header_source \<Rightarrow> string \<Rightarrow> exn + unit" where
  "check_headers src source = check_pairs source (source_pairs src)"

definition stack_owned :: "string \<Rightarrow> bool" where
  "stack_owned name \<longleftrightarrow> lower name \<in> fst ` set STACK_OWNED_HEADERS"

lemma check_pairs_ok: "check_pairs source ps = Inr () \<longleftrightarrow> (\<forall>p \<in> set ps. \<not> stack_owned (fst p))"
  by (induction source ps rule: check_pairs.induct)
    (force simp: stack_owned_def map_of_eq_None_iff dest!: map_of_SomeD split: option.splits)+

section \<open>One call\<close>

definition implied_additions :: "headers \<Rightarrow> string option \<Rightarrow> string option \<Rightarrow> string option \<Rightarrow> pairs" where
  "implied_additions merged implied credentials cookie =
     (case implied of
        Some t \<Rightarrow> if t \<noteq> [] \<and> \<not> contains merged ''content-type'' then [(''content-type'', t)] else []
      | None \<Rightarrow> []) @
     (case credentials of
        Some c \<Rightarrow> if c \<noteq> [] \<and> \<not> contains merged ''authorization'' then [(''authorization'', c)] else []
      | None \<Rightarrow> []) @
     (case cookie of Some c \<Rightarrow> if c \<noteq> [] then [(''cookie'', c)] else [] | None \<Rightarrow> [])"

text \<open>The cookie jar is consulted only when the caller set no Cookie; the jar is returned because
  consulting it drops what has expired.\<close>

definition consult_jar ::
  "('j, 'c) standard_jar \<Rightarrow> headers \<Rightarrow> string \<Rightarrow> 'j option \<Rightarrow> string option \<times> 'j option" where
  "consult_jar lib merged url cookies =
     (case cookies of
        None \<Rightarrow> (None, None)
      | Some jar \<Rightarrow>
          if contains merged ''cookie'' then (None, Some jar)
          else (case header_for lib jar url of (c, jar') \<Rightarrow> (c, Some jar')))"

definition merged_headers :: "request_options \<Rightarrow> headers \<Rightarrow> headers" where
  "merged_headers opts defaults = with_defaults (mk_headers (opt_headers opts)) defaults"

definition build_call ::
  "('j, 'c) backends \<Rightarrow> (nat \<Rightarrow> nat) \<Rightarrow> string \<Rightarrow> string \<Rightarrow> request_options \<Rightarrow> headers \<Rightarrow>
    'j option \<Rightarrow> int \<Rightarrow> (exn + call_settings) \<times> 'j option" where
  "build_call env draw method url opts defaults cookies max_redirects =
     (case bindE (encode_body (guess_type env) (json_encode env) draw opts) (\<lambda>(body, implied_type).
           bindE (authorization opts) (\<lambda>credentials. Inr (body, implied_type, credentials))) of
        Inl e \<Rightarrow> (Inl e, cookies)
      | Inr (body, implied_type, credentials) \<Rightarrow>
          let merged = merged_headers opts defaults in
          (case consult_jar (cookie_lib env) merged url cookies of
             (cookie, cookies') \<Rightarrow>
               let additions = implied_additions merged implied_type credentials cookie;
                   final = (if additions \<noteq> [] then append_pairs merged additions else merged) in
               (bindE (native_priority opts) (\<lambda>priority.
                Inr \<lparr>call_method = method, call_url = url, call_headers = header_items final,
                  call_body = body, call_priority = priority, call_max_redirects = max_redirects,
                  call_disable_cache = opt_disable_cache opts\<rparr>),
                cookies')))"

section \<open>The next hop\<close>

definition is_redirect :: "response \<Rightarrow> bool" where
  "is_redirect r \<longleftrightarrow>
     header_get (resp_headers r) ''location'' [] \<noteq> [] \<and> 300 \<le> status_code r \<and> status_code r < 400"

definition becomes_get :: "string \<Rightarrow> int \<Rightarrow> bool" where
  "becomes_get method status \<longleftrightarrow>
     status = 303 \<and> upper method \<noteq> ''HEAD'' \<or>
     (status = 301 \<or> status = 302) \<and> upper method = ''POST''"

definition drop_body :: "request_options \<Rightarrow> request_options" where
  "drop_body opts = opts\<lparr>opt_body := None, opt_form := None, opt_files := None, opt_json := None\<rparr>"

definition is_credential :: "string \<Rightarrow> bool" where
  "is_credential name \<longleftrightarrow> lower name \<in> {''authorization'', ''cookie''}"

definition drop_credentials :: "request_options \<Rightarrow> request_options" where
  "drop_credentials opts =
     (let own = mk_headers (opt_headers opts);
          opts' = opts\<lparr>opt_basic_auth := None, opt_bearer_auth := None\<rparr> in
      if contains own ''authorization'' \<or> contains own ''cookie'' then
        opts'\<lparr>opt_headers := PairHeaders (filter (\<lambda>p. \<not> is_credential (fst p)) (header_items own))\<rparr>
      else opts')"

definition next_hop ::
  "string \<Rightarrow> string \<Rightarrow> response \<Rightarrow> request_options \<Rightarrow>
    exn + (string \<times> string \<times> request_options) option" where
  "next_hop method url r opts =
     (if \<not> is_redirect r then Inr None
      else
        bindE (urljoin url (header_get (resp_headers r) ''location'' [])) (\<lambda>target.
        let rewrite = becomes_get method (status_code r);
            method' = (if rewrite then ''GET'' else method);
            carried = (if rewrite then drop_body opts else opts) in
        bindE (origin url) (\<lambda>here.
        bindE (origin target) (\<lambda>there.
        Inr (Some (method', target, (if here \<noteq> there then drop_credentials carried else carried)))))))"

section \<open>Facts about additions\<close>

lemma lower_literals:
  "lower ''content-type'' = ''content-type''" "lower ''authorization'' = ''authorization''"
  "lower ''cookie'' = ''cookie''" "lower ''set-cookie'' = ''set-cookie''"
  "lower ''location'' = ''location''"
  by code_simp+

lemma build_call_Inr:
  assumes "build_call env draw method url opts defaults cookies limit = (Inr cs, cookies')"
  obtains body implied credentials cookie where
    "encode_body (guess_type env) (json_encode env) draw opts = Inr (body, implied)"
    and "authorization opts = Inr credentials"
    and "consult_jar (cookie_lib env) (merged_headers opts defaults) url cookies = (cookie, cookies')"
    and "call_headers cs = header_items (append_pairs (merged_headers opts defaults)
           (implied_additions (merged_headers opts defaults) implied credentials cookie))"
    and "call_body cs = body" and "call_url cs = url" and "call_method cs = method"
    and "call_max_redirects cs = limit"
proof -
  obtain cookie jar where c: "consult_jar (cookie_lib env) (merged_headers opts defaults) url cookies =
      (cookie, jar)" by force
  show ?thesis
  proof (cases "encode_body (guess_type env) (json_encode env) draw opts")
    case (Inl e)
    with assms show ?thesis by (simp add: build_call_def)
  next
    case (Inr b)
    obtain body implied where b: "b = (body, implied)" by force
    show ?thesis
    proof (cases "authorization opts")
      case (Inl e)
      with assms Inr show ?thesis by (simp add: build_call_def b)
    next
      case (Inr a)
      with assms c \<open>encode_body _ _ _ _ = Inr b\<close> that show ?thesis
        by (auto simp: build_call_def b Let_def bindE_eq_Inr append_pairs_def)
    qed
  qed
qed

section \<open>Properties of one call\<close>

lemma implied_additions_facts:
  assumes "consult_jar lib merged url cookies = (cookie, cookies')"
  shows "set (map fst (implied_additions merged implied credentials cookie)) \<subseteq>
      {''content-type'', ''authorization'', ''cookie''}"
    and "distinct (map fst (implied_additions merged implied credentials cookie))"
    and "list_all (\<lambda>p. \<not> contains merged (fst p)) (implied_additions merged implied credentials cookie)"
  using assms
  by (auto simp: implied_additions_def consult_jar_def split: option.splits if_splits prod.splits)

text \<open>Setting a header the network stack owns is refused, on a session and on a request, in every
  spelling; every other header is let through.\<close>

theorem check_headers_exact:
  "check_headers src source = Inr () \<longleftrightarrow>
     list_all (\<lambda>p. lower (fst p) \<notin>
       {''accept-encoding'', ''accept-language'', ''host'', ''connection'', ''content-length''})
       (source_pairs src)"
  by (simp add: check_headers_def check_pairs_ok list_all_iff stack_owned_def STACK_OWNED_HEADERS_def)

text \<open>What a call sends is the caller's headers laid over the session's, with nothing moved or
  replaced: the library only appends, at most one each of Content-Type, Authorization and
  Cookie, and only where neither the request nor the session has spoken for the name.\<close>

theorem call_headers_appended:
  assumes "build_call env draw method url opts defaults cookies limit = (Inr cs, cookies')"
  shows "\<exists>added. call_headers cs = header_items (merged_headers opts defaults) @ added \<and>
    set (map fst added) \<subseteq> {''content-type'', ''authorization'', ''cookie''} \<and>
    distinct (map fst added) \<and>
    list_all (\<lambda>p. \<not> contains (merged_headers opts defaults) (fst p)) added"
proof -
  obtain implied credentials cookie where
    c: "consult_jar (cookie_lib env) (merged_headers opts defaults) url cookies = (cookie, cookies')"
    and h: "call_headers cs = header_items (append_pairs (merged_headers opts defaults)
           (implied_additions (merged_headers opts defaults) implied credentials cookie))"
    using assms by (rule build_call_Inr)
  from implied_additions_facts [OF c, of implied credentials] h show ?thesis
    by (auto simp: append_pairs_def)
qed

text \<open>A standard jar that holds one cookie and gives it to every URL, for concrete runs.\<close>

definition one_cookie_jar :: "(unit, string) standard_jar" where
  "one_cookie_jar = \<lparr>add_cookie_header = (\<lambda>j url. (Some ''a=b'', j)),
     extract_cookies = (\<lambda>j message url. j), clear_jar = id, jar_list = (\<lambda>j. [''a=b''])\<rparr>"

definition plain_backends :: "(unit, string) backends" where
  "plain_backends = \<lparr>guess_type = (\<lambda>_. None), json_encode = (\<lambda>_. Inr []),
     cookie_lib = one_cookie_jar\<rparr>"

definition plain_call :: "request_options \<Rightarrow> pairs \<Rightarrow> pairs \<Rightarrow> call_settings" where
  "plain_call opts session added =
     \<lparr>call_method = ''GET'', call_url = ''https://h/'',
       call_headers = header_items (merged_headers opts (Headers session)) @ added,
       call_body = [], call_priority = 4, call_max_redirects = 0, call_disable_cache = False\<rparr>"

lemma plain_build:
  assumes "\<not> contains (merged_headers no_options (Headers session)) ''cookie''"
  shows "build_call plain_backends (\<lambda>_. 0) ''GET'' ''https://h/'' no_options (Headers session) (Some ()) 0 =
    (Inr (plain_call no_options session [(''cookie'', ''a=b'')]), Some ())"
  using assms
  by (simp add: build_call_def encode_body_def given_bodies_def no_options_def authorization_def
      consult_jar_def header_for_def plain_backends_def one_cookie_jar_def implied_additions_def
      native_priority_def append_pairs_def plain_call_def Let_def)

lemma plain_session_no_cookie:
  "\<not> contains (merged_headers no_options (Headers [(''X-A'', ''1'')])) ''cookie''"
  "\<not> contains (merged_headers no_options (Headers [(''Authorization'', ''s'')])) ''cookie''"
  by code_simp+

theorem call_headers_appended_witness:
  "\<exists>added. call_headers (plain_call no_options [(''X-A'', ''1'')] [(''cookie'', ''a=b'')]) =
      header_items (merged_headers no_options (Headers [(''X-A'', ''1'')])) @ added \<and>
    set (map fst added) \<subseteq> {''content-type'', ''authorization'', ''cookie''} \<and>
    distinct (map fst added) \<and>
    list_all (\<lambda>p. \<not> contains (merged_headers no_options (Headers [(''X-A'', ''1'')])) (fst p)) added"
  by (rule call_headers_appended [OF plain_build [OF plain_session_no_cookie(1)]])

lemma own_names_with_defaults:
  "own_names (header_items (with_defaults h d)) =
     own_names (header_items h) \<union> own_names (header_items d)"
proof -
  have "n \<in> own_names (header_items (with_defaults h d)) \<longleftrightarrow>
      n \<in> own_names (header_items h) \<union> own_names (header_items d)" for n
    using named_with_defaults [of n h d] named_Nil_iff [of n "header_items (with_defaults h d)"]
      named_Nil_iff [of n "header_items h"] named_Nil_iff [of n "header_items d"]
    by (cases "n \<in> own_names (header_items h)") simp_all
  then show ?thesis by blast
qed

text \<open>No call carries a header the network stack owns, once the session's and the request's headers
  have passed the guard.\<close>

lemma call_headers_unowned:
  assumes "check_headers session_headers ''the session'' = Inr ()"
    and "check_headers (opt_headers opts) ''a request'' = Inr ()"
    and "build_call env draw method url opts (mk_headers session_headers) cookies limit =
           (Inr cs, cookies')"
  shows "list_all (\<lambda>p. \<not> stack_owned (fst p)) (call_headers cs)"
proof -
  obtain implied credentials cookie where
    c: "consult_jar (cookie_lib env) (merged_headers opts (mk_headers session_headers)) url cookies =
      (cookie, cookies')"
    and h: "call_headers cs = header_items (append_pairs (merged_headers opts (mk_headers session_headers))
           (implied_additions (merged_headers opts (mk_headers session_headers)) implied credentials cookie))"
    using assms(3) by (rule build_call_Inr)
  let ?owned = "fst ` set STACK_OWNED_HEADERS"
  have owned: "stack_owned n \<longleftrightarrow> lower n \<in> ?owned" for n by (simp add: stack_owned_def)
  have src: "check_headers s m = Inr () \<Longrightarrow> own_names (header_items (mk_headers s)) \<inter> ?owned = {}" for s m
    by (auto simp: check_headers_def check_pairs_ok mk_headers_def own_names_def owned)
  have none: "own_names (header_items (merged_headers opts (mk_headers session_headers))) \<inter> ?owned = {}"
    using src [OF assms(1)] src [OF assms(2)] by (auto simp: merged_headers_def own_names_with_defaults)
  have "\<not> stack_owned (fst p)" if "p \<in> set (header_items (merged_headers opts (mk_headers session_headers)))" for p
  proof -
    have "lower (fst p) \<in> own_names (header_items (merged_headers opts (mk_headers session_headers)))"
      using that by (auto simp: own_names_def)
    with none show ?thesis unfolding owned by blast
  qed
  moreover have "\<not> stack_owned (fst p)"
    if "p \<in> set (implied_additions (merged_headers opts (mk_headers session_headers)) implied credentials cookie)"
    for p
  proof -
    have own: "{''content-type'', ''authorization'', ''cookie''} \<inter> ?owned = {}"
      by (simp add: STACK_OWNED_HEADERS_def)
    have "fst p \<in> {''content-type'', ''authorization'', ''cookie''}"
      using that implied_additions_facts(1) [OF c, of implied credentials] by auto
    moreover from this have "lower (fst p) = fst p" by (auto simp: lower_literals)
    ultimately have "lower (fst p) \<in> {''content-type'', ''authorization'', ''cookie''}" by (simp only:)
    with own show ?thesis unfolding owned by blast
  qed
  ultimately show ?thesis by (auto simp: h append_pairs_def list_all_iff)
qed

text \<open>C33. An Authorization header among the session's own headers goes out with every call whose
  request sets none, whatever URL the call is for: nothing in the composition of a call, and so
  nothing on a redirect to another origin, takes it away.\<close>

theorem session_authorization_everywhere:
  assumes "contains defaults ''authorization''"
    and "\<not> contains (mk_headers (opt_headers opts)) ''authorization''"
    and "build_call env draw method url opts defaults cookies limit = (Inr cs, cookies')"
  shows "get_list (Headers (call_headers cs)) ''authorization'' = get_list defaults ''authorization''"
proof -
  let ?m = "merged_headers opts defaults"
  obtain implied credentials cookie where
    c: "consult_jar (cookie_lib env) ?m url cookies = (cookie, cookies')"
    and h: "call_headers cs = header_items (append_pairs ?m (implied_additions ?m implied credentials cookie))"
    using assms(3) by (rule build_call_Inr)
  have m: "contains ?m ''authorization''"
    using assms(1) by (simp add: merged_headers_def hdrs.has_over)
  have "get_list (append_pairs ?m (implied_additions ?m implied credentials cookie)) ''authorization'' =
      get_list ?m ''authorization''"
  proof (rule hdrs.add_absent)
    fix p
    assume "p \<in> set (implied_additions ?m implied credentials cookie)"
    then have "\<not> contains ?m (fst p)"
      using implied_additions_facts(3) [OF c] by (auto simp: list_all_iff)
    with m show "lower (fst p) \<noteq> lower ''authorization''"
      using contains_lower [of "fst p" "''authorization''" ?m] by auto
  qed
  also have "\<dots> = get_list defaults ''authorization''"
    using assms(2) by (simp add: merged_headers_def hdrs.lookup_over)
  finally show ?thesis by (simp add: h)
qed

theorem session_authorization_everywhere_witness:
  "get_list (Headers (call_headers
      (plain_call no_options [(''Authorization'', ''s'')] [(''cookie'', ''a=b'')]))) ''authorization'' =
   get_list (Headers [(''Authorization'', ''s'')]) ''authorization''"
proof (rule session_authorization_everywhere)
  show "contains (Headers [(''Authorization'', ''s'')]) ''authorization''" by code_simp
  show "\<not> contains (mk_headers (opt_headers no_options)) ''authorization''" by code_simp
qed (rule plain_build [OF plain_session_no_cookie(2)])

section \<open>Properties of a redirect\<close>

lemma next_hop_Some:
  assumes "next_hop method url r opts = Inr (Some (m', t, o'))"
  obtains here there carried where "is_redirect r"
    and "urljoin url (header_get (resp_headers r) ''location'' []) = Inr t"
    and "origin url = Inr here" and "origin t = Inr there"
    and "m' = (if becomes_get method (status_code r) then ''GET'' else method)"
    and "carried = (if becomes_get method (status_code r) then drop_body opts else opts)"
    and "o' = (if here \<noteq> there then drop_credentials carried else carried)"
  using assms that by (auto simp: next_hop_def bindE_eq_Inr Let_def split: if_splits)

definition same_body :: "request_options \<Rightarrow> request_options \<Rightarrow> bool" where
  "same_body a b \<longleftrightarrow> opt_body a = opt_body b \<and> opt_form a = opt_form b \<and>
     opt_files a = opt_files b \<and> opt_json a = opt_json b"

lemma drop_credentials_keeps:
  "same_body (drop_credentials opts) opts"
  "opt_query (drop_credentials opts) = opt_query opts"
  "opt_basic_auth (drop_credentials opts) = None" "opt_bearer_auth (drop_credentials opts) = None"
  by (simp_all add: same_body_def drop_credentials_def Let_def)

lemma source_pairs_items: "header_items (mk_headers src) = source_pairs src"
  by (simp add: mk_headers_def)

lemma drop_credentials_headers:
  "source_pairs (opt_headers (drop_credentials opts)) =
     filter (\<lambda>p. \<not> is_credential (fst p)) (source_pairs (opt_headers opts))"
proof -
  have "is_credential (fst p)"
    if "p \<in> set (source_pairs (opt_headers opts))" "lower (fst p) \<in> {''authorization'', ''cookie''}" for p
    using that by (simp add: is_credential_def)
  moreover have "filter (\<lambda>p. \<not> is_credential (fst p)) (source_pairs (opt_headers opts)) =
      source_pairs (opt_headers opts)"
    if "\<not> contains (mk_headers (opt_headers opts)) ''authorization''"
      "\<not> contains (mk_headers (opt_headers opts)) ''cookie''"
    using that
    by (auto simp: filter_id_conv is_credential_def contains_def list_ex_iff source_pairs_items
        lower_literals)
  ultimately show ?thesis by (auto simp: drop_credentials_def Let_def source_pairs_items)
qed

text \<open>How a redirect changes the request follows the status: 307 and 308 repeat the method and
  the body; 303 turns anything but a HEAD into a GET, and 301 and 302 turn a POST into a GET,
  in each case without a body; every other redirect repeats the request.\<close>

theorem redirect_rewrites:
  assumes "next_hop method url r opts = Inr (Some (m', t, o'))"
  shows "if (status_code r = 303 \<and> upper method \<noteq> ''HEAD'') \<or>
      (status_code r \<in> {301, 302} \<and> upper method = ''POST'')
    then m' = ''GET'' \<and> given_bodies o' = [] \<and> opt_files o' = None
    else m' = method \<and> same_body o' opts"
proof -
  obtain here there carried where "origin url = Inr here" "origin t = Inr there"
    and m: "m' = (if becomes_get method (status_code r) then ''GET'' else method)"
    and c: "carried = (if becomes_get method (status_code r) then drop_body opts else opts)"
    and o: "o' = (if here \<noteq> there then drop_credentials carried else carried)"
    using assms by (rule next_hop_Some)
  have "same_body o' carried" using drop_credentials_keeps(1) by (simp add: o same_body_def)
  then show ?thesis
    unfolding m c
    by (auto simp: becomes_get_def same_body_def drop_body_def given_bodies_def)
qed

text \<open>A redirect to a URL, with no other header, as a server sends it.\<close>

definition redirect_response :: "int \<Rightarrow> string \<Rightarrow> response" where
  "redirect_response status location =
     Response status [] (Headers [(''Location'', location)]) [] [] [] 0 False []
       (from_native zero_metrics) [] None"

theorem redirect_rewrites_witness:
  "if (status_code (redirect_response 303 ''https://b/'') = 303 \<and> upper ''PUT'' \<noteq> ''HEAD'') \<or>
      (status_code (redirect_response 303 ''https://b/'') \<in> {301, 302} \<and> upper ''PUT'' = ''POST'')
    then ''GET'' = ''GET'' \<and> given_bodies no_options = [] \<and> opt_files no_options = None
    else ''GET'' = ''PUT'' \<and> same_body no_options (no_options\<lparr>opt_body := Some (BytesContent [1])\<rparr>)"
proof (rule redirect_rewrites)
  have "is_redirect (redirect_response 303 ''https://b/'')"
    "header_get (resp_headers (redirect_response 303 ''https://b/'')) ''location'' [] = ''https://b/''"
    "becomes_get ''PUT'' (status_code (redirect_response 303 ''https://b/''))"
    "urljoin ''https://a/'' ''https://b/'' = Inr ''https://b/''"
    "origin ''https://a/'' = Inr (''https'', ''a'', None)"
    "origin ''https://b/'' = Inr (''https'', ''b'', None)"
    by code_simp+
  then show "next_hop ''PUT'' ''https://a/'' (redirect_response 303 ''https://b/'')
      (no_options\<lparr>opt_body := Some (BytesContent [1])\<rparr>) = Inr (Some (''GET'', ''https://b/'', no_options))"
    by (simp add: next_hop_def drop_body_def drop_credentials_def no_options_def mk_headers_def
        contains_def)
qed

text \<open>A redirect to another origin carries none of the request's own credentials: no basic or
  bearer authentication and no Authorization or Cookie header, in any spelling; the request's
  other headers go along unchanged and in order.\<close>

theorem credentials_stay_home:
  assumes "next_hop method url r opts = Inr (Some (m', t, o'))"
    and "origin url = Inr here" and "origin t = Inr there" and "here \<noteq> there"
  shows "opt_basic_auth o' = None \<and> opt_bearer_auth o' = None \<and>
    source_pairs (opt_headers o') =
      filter (\<lambda>p. lower (fst p) \<noteq> ''authorization'' \<and> lower (fst p) \<noteq> ''cookie'')
        (source_pairs (opt_headers opts))"
proof -
  obtain here' there' carried where "origin url = Inr here'" "origin t = Inr there'"
    and c: "carried = (if becomes_get method (status_code r) then drop_body opts else opts)"
    and o: "o' = (if here' \<noteq> there' then drop_credentials carried else carried)"
    using assms(1) by (rule next_hop_Some)
  with assms have "o' = drop_credentials carried" by simp
  moreover have "opt_headers carried = opt_headers opts" by (simp add: c drop_body_def)
  ultimately show ?thesis
    by (simp add: drop_credentials_keeps drop_credentials_headers is_credential_def)
qed

theorem credentials_stay_home_witness:
  "opt_basic_auth (no_options\<lparr>opt_headers := PairHeaders [(''x'', ''1'')]\<rparr>) = None \<and>
   opt_bearer_auth (no_options\<lparr>opt_headers := PairHeaders [(''x'', ''1'')]\<rparr>) = None \<and>
   source_pairs (opt_headers (no_options\<lparr>opt_headers := PairHeaders [(''x'', ''1'')]\<rparr>)) =
      filter (\<lambda>p. lower (fst p) \<noteq> ''authorization'' \<and> lower (fst p) \<noteq> ''cookie'')
        (source_pairs (opt_headers (no_options\<lparr>opt_bearer_auth := Some ''s'',
           opt_headers := PairHeaders [(''COOKIE'', ''c''), (''x'', ''1'')]\<rparr>)))"
proof (rule credentials_stay_home)
  show a: "origin ''https://a/'' = Inr (''https'', ''a'', None)" by code_simp
  show b: "origin ''https://b/'' = Inr (''https'', ''b'', None)" by code_simp
  have "is_redirect (redirect_response 307 ''https://b/'')"
    "header_get (resp_headers (redirect_response 307 ''https://b/'')) ''location'' [] = ''https://b/''"
    "\<not> becomes_get ''PUT'' (status_code (redirect_response 307 ''https://b/''))"
    "urljoin ''https://a/'' ''https://b/'' = Inr ''https://b/''"
    "is_credential ''COOKIE''" "\<not> is_credential ''x''"
    "contains (Headers [(''COOKIE'', ''c''), (''x'', ''1'')]) ''cookie''"
    by code_simp+
  with a b show "next_hop ''PUT'' ''https://a/'' (redirect_response 307 ''https://b/'')
      (no_options\<lparr>opt_bearer_auth := Some ''s'',
         opt_headers := PairHeaders [(''COOKIE'', ''c''), (''x'', ''1'')]\<rparr>) =
    Inr (Some (''PUT'', ''https://b/'', no_options\<lparr>opt_headers := PairHeaders [(''x'', ''1'')]\<rparr>))"
    by (simp add: next_hop_def drop_credentials_def no_options_def mk_headers_def)
qed simp

end
