(* ===== verification/Redirect.thy ===== *)
theory Redirect
  imports Request
begin

text \<open>
  The redirect walk of a session that holds a cookie jar: \<open>RedirectChain\<close> of
  \<open>src/cronet/request.py\<close> as a record with its three operations, and the loop that drives it
  (\<open>Session.request\<close>, \<open>AsyncSession.request\<close>) as a recursion on fuel. What the network
  does is a parameter: \<open>perform k jar verb url options\<close> is the outcome of the \<open>k\<close>-th
  request, with the jar it leaves behind.

  The walk is compared with the count the native observer keeps when Chromium follows the
  redirects itself (\<open>OnReceivedRedirect\<close> in \<open>native/call.cc\<close>).
\<close>

type_synonym hop = "string \<times> string \<times> request_options"

record 'j chain =
  chain_pending :: "hop option"
  chain_limit :: int
  chain_cookies :: 'j
  chain_history :: "response list"
  chain_final :: "response option"
  chain_start :: string

definition start_chain :: "string \<Rightarrow> string \<Rightarrow> request_options \<Rightarrow> int \<Rightarrow> 'j \<Rightarrow> 'j chain" where
  "start_chain verb url opts limit cookies =
     \<lparr>chain_pending = Some (verb, url, opts), chain_limit = limit, chain_cookies = cookies,
      chain_history = [], chain_final = None, chain_start = url\<rparr>"

definition too_many :: "int \<Rightarrow> string \<Rightarrow> exn" where
  "too_many limit url =
     RequestFailed TooManyRedirects
       (cps ''more than '' @ cps (show_int limit) @ cps '' redirects from '' @ cps url)
       ERROR_TOO_MANY_REDIRECTS url"

definition receive ::
  "('j, 'c) standard_jar \<Rightarrow> 'j chain \<Rightarrow> response \<Rightarrow> (exn + unit) \<times> 'j chain" where
  "receive lib c r =
     (case chain_pending c of
        None \<Rightarrow> (Inl (RuntimeError ''this redirect chain has already finished''), c)
      | Some (verb, url, opts) \<Rightarrow>
          let c = c\<lparr>chain_cookies := store lib (chain_cookies c) url (resp_headers r)\<rparr> in
          (case next_hop verb url r opts of
             Inl e \<Rightarrow> (Inl e, c)
           | Inr hop \<Rightarrow>
               if hop = None \<or> chain_limit c = 0 then
                 (Inr (), c\<lparr>chain_final := Some (with_history r (chain_history c)),
                            chain_pending := None\<rparr>)
               else if int (length (chain_history c)) \<ge> chain_limit c then
                 (Inl (too_many (chain_limit c) (chain_start c)), c)
               else
                 (Inr (), c\<lparr>chain_history := chain_history c @ [r], chain_pending := hop\<rparr>)))"

definition chain_result :: "'j chain \<Rightarrow> exn + response" where
  "chain_result c =
     (case chain_final c of
        None \<Rightarrow> Inl (RuntimeError ''this redirect chain has not finished'')
      | Some r \<Rightarrow> Inr r)"

type_synonym 'j network =
  "nat \<Rightarrow> 'j \<Rightarrow> string \<Rightarrow> string \<Rightarrow> request_options \<Rightarrow> (exn + response) \<times> 'j"

text \<open>The driving loop. The last argument records each request made and the response it got.\<close>

fun walk ::
  "nat \<Rightarrow> ('j, 'c) standard_jar \<Rightarrow> 'j network \<Rightarrow> 'j chain \<Rightarrow> (hop \<times> response) list \<Rightarrow>
    ((exn + response) \<times> 'j chain \<times> (hop \<times> response) list) option" where
  "walk 0 lib perform c trace = None"
| "walk (Suc fuel) lib perform c trace =
     (case chain_pending c of
        None \<Rightarrow> Some (chain_result c, c, trace)
      | Some (verb, url, opts) \<Rightarrow>
          (case perform (length trace) (chain_cookies c) verb url opts of
             (Inl e, jar) \<Rightarrow> Some (Inl e, c\<lparr>chain_cookies := jar\<rparr>, trace)
           | (Inr r, jar) \<Rightarrow>
               (case receive lib (c\<lparr>chain_cookies := jar\<rparr>) r of
                  (Inl e, c') \<Rightarrow> Some (Inl e, c', trace @ [((verb, url, opts), r)])
                | (Inr _, c') \<Rightarrow> walk fuel lib perform c' (trace @ [((verb, url, opts), r)]))))"

definition walk_fuel :: "int \<Rightarrow> nat" where
  "walk_fuel limit = nat limit + 2"

definition follow ::
  "('j, 'c) standard_jar \<Rightarrow> 'j network \<Rightarrow> string \<Rightarrow> string \<Rightarrow> request_options \<Rightarrow> int \<Rightarrow> 'j \<Rightarrow>
    ((exn + response) \<times> 'j chain \<times> (hop \<times> response) list) option" where
  "follow lib perform verb url opts limit cookies =
     walk (walk_fuel limit) lib perform (start_chain verb url opts limit cookies) []"

section \<open>What one response does to the chain\<close>

lemma receive_cases:
  assumes "chain_pending c = Some (verb, url, opts)" and "receive lib c r = (res, c')"
  obtains
    (failed) e where "next_hop verb url r opts = Inl e" "res = Inl e"
      "chain_pending c' = chain_pending c" "chain_history c' = chain_history c"
  | (last) "next_hop verb url r opts = Inr None \<or>
        (\<exists>h. next_hop verb url r opts = Inr h) \<and> chain_limit c = 0"
      "res = Inr ()" "chain_pending c' = None"
      "chain_final c' = Some (with_history r (chain_history c))"
      "chain_history c' = chain_history c"
  | (over) h where "next_hop verb url r opts = Inr (Some h)" "chain_limit c \<noteq> 0"
      "int (length (chain_history c)) \<ge> chain_limit c"
      "res = Inl (too_many (chain_limit c) (chain_start c))"
      "chain_history c' = chain_history c"
  | (more) h where "next_hop verb url r opts = Inr (Some h)" "chain_limit c \<noteq> 0"
      "int (length (chain_history c)) < chain_limit c" "res = Inr ()"
      "chain_pending c' = Some h" "chain_history c' = chain_history c @ [r]"
      "chain_final c' = chain_final c"
  using assms
  by (auto simp: receive_def Let_def split: sum.splits if_splits option.splits)

lemma receive_keeps:
  assumes "receive lib c r = (res, c')"
  shows "chain_limit c' = chain_limit c" and "chain_start c' = chain_start c"
  using assms by (auto simp: receive_def Let_def split: sum.splits if_splits option.splits)

lemma receive_cookies:
  assumes "chain_pending c = Some (verb, url, opts)" and "receive lib c r = (res, c')"
  shows "chain_cookies c' = store lib (chain_cookies c) url (resp_headers r)"
  using assms by (auto simp: receive_def Let_def split: sum.splits if_splits option.splits)

lemma next_hop_redirect: "next_hop verb url r opts = Inr (Some h) \<Longrightarrow> is_redirect r"
  by (auto simp: next_hop_def split: if_splits)

lemma next_hop_last: "next_hop verb url r opts = Inr None \<longleftrightarrow> \<not> is_redirect r"
  by (auto simp: next_hop_def bindE_eq_Inr Let_def)

section \<open>The walk ends within its limit\<close>

text \<open>While a hop is pending, the history is every response so far, each of them a redirect, and
  within the limit; a finished chain ended on the last response.\<close>

definition chain_inv :: "'j chain \<Rightarrow> (hop \<times> response) list \<Rightarrow> bool" where
  "chain_inv c trace \<longleftrightarrow>
     (case chain_pending c of
        Some _ \<Rightarrow> chain_history c = map snd trace \<and> list_all is_redirect (map snd trace) \<and>
          length trace \<le> nat (chain_limit c)
      | None \<Rightarrow>
          (\<exists>front h r. trace = front @ [(h, r)] \<and> list_all is_redirect (map snd front) \<and>
             length front \<le> nat (chain_limit c) \<and> (chain_limit c \<noteq> 0 \<longrightarrow> \<not> is_redirect r) \<and>
             chain_final c = Some (with_history r (map snd front))))"

definition fuel_needed :: "'j chain \<Rightarrow> (hop \<times> response) list \<Rightarrow> nat" where
  "fuel_needed c trace =
     (if chain_pending c = None then 1 else nat (chain_limit c) - length trace + 2)"

lemma receive_inv:
  assumes "chain_inv c trace" and "chain_pending c = Some (verb, url, opts)"
    and "receive lib (c\<lparr>chain_cookies := jar\<rparr>) r = (Inr u, c')"
  shows "chain_inv c' (trace @ [((verb, url, opts), r)])"
    and "Suc (fuel_needed c' (trace @ [((verb, url, opts), r)])) \<le> fuel_needed c trace"
proof -
  have p: "chain_pending (c\<lparr>chain_cookies := jar\<rparr>) = Some (verb, url, opts)"
    using assms(2) by simp
  have inv: "chain_history c = map snd trace" "list_all is_redirect (map snd trace)"
    "length trace \<le> nat (chain_limit c)"
    using assms(1,2) by (simp_all add: chain_inv_def)
  note keeps = receive_keeps [OF assms(3)]
  have "chain_inv c' (trace @ [((verb, url, opts), r)]) \<and>
    Suc (fuel_needed c' (trace @ [((verb, url, opts), r)])) \<le> fuel_needed c trace"
    using p assms(3)
  proof (cases rule: receive_cases)
    case last
    have "chain_limit c \<noteq> 0 \<longrightarrow> \<not> is_redirect r" using last(1) next_hop_last by auto
    then show ?thesis
      using last inv keeps assms(2) by (auto simp: chain_inv_def fuel_needed_def)
  next
    case (more h)
    then show ?thesis
      using inv keeps assms(2) next_hop_redirect [OF more(1)]
      by (auto simp: chain_inv_def fuel_needed_def)
  qed simp_all
  then show "chain_inv c' (trace @ [((verb, url, opts), r)])"
    and "Suc (fuel_needed c' (trace @ [((verb, url, opts), r)])) \<le> fuel_needed c trace"
    by blast+
qed

definition walk_post :: "int \<Rightarrow> exn + response \<Rightarrow> (hop \<times> response) list \<Rightarrow> bool" where
  "walk_post limit res trace \<longleftrightarrow>
     length trace \<le> nat limit + 1 \<and>
     (case res of
        Inl _ \<Rightarrow> True
      | Inr final \<Rightarrow>
          (\<exists>front h r. trace = front @ [(h, r)] \<and> final = with_history r (map snd front) \<and>
             list_all is_redirect (map snd front) \<and> length front \<le> nat limit \<and>
             (limit \<noteq> 0 \<longrightarrow> \<not> is_redirect r)))"

lemma is_redirect_with_history [simp]: "is_redirect (with_history r hs) = is_redirect r"
  by (simp add: is_redirect_def)

lemma walk_ends:
  assumes "chain_inv c trace" and "fuel_needed c trace \<le> fuel"
  shows "\<exists>res c' trace'. walk fuel lib perform c trace = Some (res, c', trace') \<and>
    walk_post (chain_limit c) res trace'"
  using assms
proof (induction fuel arbitrary: c trace)
  case 0
  then show ?case by (simp add: fuel_needed_def split: if_splits)
next
  case (Suc fuel)
  show ?case
  proof (cases "chain_pending c")
    case None
    then obtain front h r where "trace = front @ [(h, r)]" "list_all is_redirect (map snd front)"
      "length front \<le> nat (chain_limit c)" "chain_limit c \<noteq> 0 \<longrightarrow> \<not> is_redirect r"
      "chain_final c = Some (with_history r (map snd front))"
      using Suc.prems(1) by (auto simp: chain_inv_def)
    with None show ?thesis by (cases h) (simp add: chain_result_def walk_post_def)
  next
    case (Some hop)
    obtain verb url opts where hop: "hop = (verb, url, opts)" by (cases hop)
    have len: "length trace \<le> nat (chain_limit c)" using Suc.prems(1) Some by (simp add: chain_inv_def)
    obtain out jar where p: "perform (length trace) (chain_cookies c) verb url opts = (out, jar)"
      by force
    show ?thesis
    proof (cases out)
      case (Inl e)
      with Some hop p len show ?thesis by (simp add: walk_post_def)
    next
      case (Inr r)
      obtain res c' where rc: "receive lib (c\<lparr>chain_cookies := jar\<rparr>) r = (res, c')" by force
      show ?thesis
      proof (cases res)
        case (Inl e)
        with Some hop p rc \<open>out = Inr r\<close> len show ?thesis by (simp add: walk_post_def)
      next
        case (Inr u)
        note step = receive_inv [OF Suc.prems(1) Some [unfolded hop] rc [unfolded Inr]]
        have "fuel_needed c' (trace @ [((verb, url, opts), r)]) \<le> fuel"
          using step(2) Suc.prems(2) by simp
        from Suc.IH [OF step(1) this] receive_keeps(1) [OF rc]
        show ?thesis using Some hop p rc \<open>out = Inr r\<close> Inr by simp
      qed
    qed
  qed
qed

text \<open>C21. Whatever servers answer, a redirect walk ends: it makes at most one request more than its
  limit, and when it ends on a response, that response is not itself a redirect (unless the
  limit is zero, which asks for the redirect) and its history is every earlier response, oldest
  first, all of them redirects and no more of them than the limit.\<close>

theorem walk_within_limit:
  "\<exists>res c trace. follow lib perform verb url opts limit cookies = Some (res, c, trace) \<and>
    length trace \<le> nat limit + 1 \<and>
    (case res of
       Inl _ \<Rightarrow> True
     | Inr final \<Rightarrow> history final = butlast (map snd trace) \<and> list_all is_redirect (history final) \<and>
         length (history final) \<le> nat limit \<and> (if limit = 0 then True else \<not> is_redirect final))"
proof -
  let ?c = "start_chain verb url opts limit cookies"
  have "chain_inv ?c []" by (simp add: start_chain_def chain_inv_def)
  moreover have "fuel_needed ?c [] \<le> walk_fuel limit"
    by (simp add: start_chain_def fuel_needed_def walk_fuel_def)
  ultimately show ?thesis
    using walk_ends [of ?c "[]" "walk_fuel limit" lib perform]
    by (fastforce simp: follow_def walk_post_def start_chain_def butlast_append split: sum.splits)
qed

section \<open>Credentials along the walk\<close>

definition carries_credentials :: "request_options \<Rightarrow> bool" where
  "carries_credentials opts \<longleftrightarrow>
     opt_basic_auth opts \<noteq> None \<or> opt_bearer_auth opts \<noteq> None \<or>
     list_ex (\<lambda>p. is_credential (fst p)) (source_pairs (opt_headers opts))"

definition hop_url :: "hop \<times> response \<Rightarrow> string" where
  "hop_url e = fst (snd (fst e))"

definition hop_options :: "hop \<times> response \<Rightarrow> request_options" where
  "hop_options e = snd (snd (fst e))"

text \<open>Every request that carries credentials is for the first origin, and so is every request
  before it.\<close>

definition credentials_safe :: "string \<Rightarrow> (hop \<times> response) list \<Rightarrow> bool" where
  "credentials_safe url0 trace \<longleftrightarrow>
     (\<forall>i < length trace. carries_credentials (hop_options (trace ! i)) \<longrightarrow>
        (\<forall>j \<le> i. origin (hop_url (trace ! j)) = origin url0))"

definition hop_safe :: "string \<Rightarrow> (hop \<times> response) list \<Rightarrow> string \<Rightarrow> request_options \<Rightarrow> bool" where
  "hop_safe url0 trace url opts \<longleftrightarrow>
     (carries_credentials opts \<longrightarrow>
        origin url = origin url0 \<and> (\<forall>e \<in> set trace. origin (hop_url e) = origin url0))"

lemma credentials_safe_snoc:
  assumes "credentials_safe url0 trace" and "hop_safe url0 trace url opts"
  shows "credentials_safe url0 (trace @ [((verb, url, opts), r)])"
proof -
  have "\<forall>j \<le> length trace. origin (hop_url ((trace @ [((verb, url, opts), r)]) ! j)) = origin url0"
    if "carries_credentials opts"
  proof (intro allI impI)
    fix j
    assume "j \<le> length trace"
    with that assms(2) show "origin (hop_url ((trace @ [((verb, url, opts), r)]) ! j)) = origin url0"
      by (cases "j = length trace") (auto simp: hop_safe_def nth_append hop_url_def)
  qed
  with assms(1) show ?thesis
    by (auto simp: credentials_safe_def nth_append hop_options_def less_Suc_eq)
qed

lemma carries_credentials_drop:
  "\<not> carries_credentials (drop_credentials opts)"
  "carries_credentials (drop_body opts) = carries_credentials opts"
  by (auto simp: carries_credentials_def drop_credentials_keeps drop_credentials_headers
      list_ex_iff drop_body_def)

lemma next_hop_credentials:
  assumes "next_hop verb url r opts = Inr (Some (m', t, o'))" and "carries_credentials o'"
  shows "carries_credentials opts" and "origin t = origin url"
proof -
  obtain here there carried where h: "origin url = Inr here" and t: "origin t = Inr there"
    and c: "carried = (if becomes_get verb (status_code r) then drop_body opts else opts)"
    and o: "o' = (if here \<noteq> there then drop_credentials carried else carried)"
    using assms(1) by (rule next_hop_Some)
  with assms(2) have eq: "here = there" using carries_credentials_drop(1) by (auto split: if_splits)
  then show "origin t = origin url" by (simp add: h t)
  show "carries_credentials opts"
    using assms(2) eq by (simp add: o c carries_credentials_drop split: if_splits)
qed

lemma hop_safe_next:
  assumes "hop_safe url0 trace url opts"
    and "next_hop verb url r opts = Inr (Some (m', t, o'))"
  shows "hop_safe url0 (trace @ [((verb, url, opts), r)]) t o'"
  using next_hop_credentials [OF assms(2)] assms(1)
  by (auto simp: hop_safe_def hop_url_def)

lemma walk_credentials:
  assumes "credentials_safe url0 trace"
    and "\<And>m u opts. chain_pending c = Some (m, u, opts) \<Longrightarrow> hop_safe url0 trace u opts"
    and "walk fuel lib perform c trace = Some (res, c', trace')"
  shows "credentials_safe url0 trace'"
  using assms
proof (induction fuel arbitrary: c trace)
  case (Suc fuel)
  show ?case
  proof (cases "chain_pending c")
    case None
    with Suc.prems show ?thesis by simp
  next
    case (Some hop)
    obtain verb url opts where hop: "hop = (verb, url, opts)" by (cases hop)
    obtain out jar where p: "perform (length trace) (chain_cookies c) verb url opts = (out, jar)"
      by force
    let ?trace = "\<lambda>r. trace @ [((verb, url, opts), r)]"
    have safe: "hop_safe url0 trace url opts" using Suc.prems(2) Some hop by simp
    have snoc: "credentials_safe url0 (?trace r)" for r
      using Suc.prems(1) safe by (rule credentials_safe_snoc)
    show ?thesis
    proof (cases out)
      case (Inl e)
      with Suc.prems Some hop p show ?thesis by simp
    next
      case (Inr r)
      obtain res1 c1 where rc: "receive lib (c\<lparr>chain_cookies := jar\<rparr>) r = (res1, c1)" by force
      have pend: "chain_pending (c\<lparr>chain_cookies := jar\<rparr>) = Some (verb, url, opts)"
        using Some hop by simp
      show ?thesis
      proof (cases res1)
        case (Inl e)
        with Suc.prems(3) Some hop p rc \<open>out = Inr r\<close> snoc show ?thesis by auto
      next
        case (Inr u)
        have run: "walk fuel lib perform c1 (?trace r) = Some (res, c', trace')"
          using Suc.prems(3) Some hop p rc \<open>out = Inr r\<close> Inr by simp
        have "hop_safe url0 (?trace r) u' opts'" if "chain_pending c1 = Some (m', u', opts')" for m' u' opts'
          using pend rc
        proof (cases rule: receive_cases)
          case (more h)
          with that hop_safe_next [OF safe] show ?thesis by simp
        qed (use that Inr in simp_all)
        then show ?thesis using Suc.IH [OF snoc _ run] by blast
      qed
    qed
  qed
qed simp

text \<open>C7. Along a redirect walk, a request carries the caller's credentials (basic or bearer
  authentication, or an Authorization or Cookie header of the request's own) only while every
  request so far has gone to the origin the caller named; after the first hop to another origin
  no later request carries them, even one back to the first origin.\<close>

theorem credentials_only_to_first_origin:
  assumes "follow lib perform verb url opts limit cookies = Some (res, c, trace)"
    and "i < length trace" and "carries_credentials (hop_options (trace ! i))" and "j \<le> i"
  shows "origin (hop_url (trace ! j)) = origin url"
proof -
  have "credentials_safe url []" by (simp add: credentials_safe_def)
  moreover have "hop_safe url [] u opts'"
    if "chain_pending (start_chain verb url opts limit cookies) = Some (m, u, opts')" for m u opts'
    using that by (simp add: start_chain_def hop_safe_def)
  ultimately have "credentials_safe url trace"
    using assms(1) walk_credentials [of url "[]"] unfolding follow_def by blast
  with assms(2-4) show ?thesis by (simp add: credentials_safe_def)
qed

text \<open>A server that redirects within its origin once and then answers.\<close>

definition one_redirect :: "unit network" where
  "one_redirect k j verb url opts =
     (Inr (if k = 0 then redirect_response 302 ''/x'' else redirect_response 200 []), j)"

definition bearer_options :: request_options where
  "bearer_options = no_options\<lparr>opt_bearer_auth := Some ''t''\<rparr>"

lemma one_redirect_hops:
  "next_hop ''GET'' ''https://a/'' (redirect_response 302 ''/x'') bearer_options =
     Inr (Some (''GET'', ''https://a/x'', bearer_options))"
  "next_hop ''GET'' ''https://a/x'' (redirect_response 200 []) bearer_options = Inr None"
proof -
  have "is_redirect (redirect_response 302 ''/x'')"
    "header_get (resp_headers (redirect_response 302 ''/x'')) ''location'' [] = ''/x''"
    "\<not> becomes_get ''GET'' (status_code (redirect_response 302 ''/x''))"
    "urljoin ''https://a/'' ''/x'' = Inr ''https://a/x''"
    "origin ''https://a/'' = Inr (''https'', ''a'', None)"
    "origin ''https://a/x'' = Inr (''https'', ''a'', None)"
    by code_simp+
  then show "next_hop ''GET'' ''https://a/'' (redirect_response 302 ''/x'') bearer_options =
     Inr (Some (''GET'', ''https://a/x'', bearer_options))"
    by (simp add: next_hop_def)
  have "\<not> is_redirect (redirect_response 200 [])" by code_simp
  then show "next_hop ''GET'' ''https://a/x'' (redirect_response 200 []) bearer_options = Inr None"
    by (simp add: next_hop_def)
qed

lemma redirect_sets_no_cookie: "\<not> contains (resp_headers (redirect_response s l)) ''set-cookie''"
proof -
  have "lower ''Location'' \<noteq> lower ''set-cookie''" by code_simp
  then show ?thesis by (simp add: redirect_response_def contains_def)
qed

definition one_redirect_end :: "unit chain" where
  "one_redirect_end = \<lparr>chain_pending = None, chain_limit = 5, chain_cookies = (),
     chain_history = [redirect_response 302 ''/x''],
     chain_final = Some (with_history (redirect_response 200 []) [redirect_response 302 ''/x'']),
     chain_start = ''https://a/''\<rparr>"

definition one_redirect_trace :: "(hop \<times> response) list" where
  "one_redirect_trace =
     [((''GET'', ''https://a/'', bearer_options), redirect_response 302 ''/x''),
      ((''GET'', ''https://a/x'', bearer_options), redirect_response 200 [])]"

lemma one_redirect_run:
  "follow one_cookie_jar one_redirect ''GET'' ''https://a/'' bearer_options 5 () =
     Some (Inr (with_history (redirect_response 200 []) [redirect_response 302 ''/x'']),
       one_redirect_end, one_redirect_trace)"
proof -
  have fuel: "walk_fuel 5 = Suc (Suc (Suc 4))" by (simp add: walk_fuel_def)
  have "walk (Suc (Suc (Suc n))) one_cookie_jar one_redirect
      (start_chain ''GET'' ''https://a/'' bearer_options 5 ()) [] =
    Some (Inr (with_history (redirect_response 200 []) [redirect_response 302 ''/x'']),
       one_redirect_end, one_redirect_trace)" for n
    by (simp add: start_chain_def one_redirect_def receive_def one_redirect_hops
        jar.put_plain [OF redirect_sets_no_cookie] chain_result_def one_redirect_end_def
        one_redirect_trace_def Let_def)
  then show ?thesis by (simp only: follow_def fuel)
qed

theorem credentials_only_to_first_origin_witness:
  "origin (hop_url (one_redirect_trace ! 0)) = origin ''https://a/''"
  by (rule credentials_only_to_first_origin [OF one_redirect_run, of 1])
    (simp_all add: one_redirect_trace_def hop_options_def bearer_options_def carries_credentials_def)

section \<open>Cookies along the walk\<close>

definition keeps_jar :: "'j network \<Rightarrow> bool" where
  "keeps_jar perform \<longleftrightarrow> (\<forall>k j m u opts. snd (perform k j m u opts) = j)"

definition answered :: "hop \<times> response \<Rightarrow> string \<times> headers" where
  "answered e = (hop_url e, resp_headers (snd e))"

lemma walk_cookies:
  assumes "keeps_jar perform"
    and "chain_cookies c = foldl (\<lambda>j (url, h). store lib j url h) cookies (map answered trace)"
    and "walk fuel lib perform c trace = Some (res, c', trace')"
  shows "chain_cookies c' = foldl (\<lambda>j (url, h). store lib j url h) cookies (map answered trace')"
  using assms(2,3)
proof (induction fuel arbitrary: c trace)
  case (Suc fuel)
  show ?case
  proof (cases "chain_pending c")
    case None
    with Suc.prems show ?thesis by simp
  next
    case (Some hop)
    obtain verb url opts where hop: "hop = (verb, url, opts)" by (cases hop)
    obtain out where p: "perform (length trace) (chain_cookies c) verb url opts = (out, chain_cookies c)"
      using assms(1) by (metis keeps_jar_def prod.collapse)
    let ?trace = "\<lambda>r. trace @ [((verb, url, opts), r)]"
    show ?thesis
    proof (cases out)
      case (Inl e)
      with Suc.prems Some hop p show ?thesis by auto
    next
      case (Inr r)
      obtain res1 c1 where rc: "receive lib (c\<lparr>chain_cookies := chain_cookies c\<rparr>) r = (res1, c1)" by force
      have pend: "chain_pending (c\<lparr>chain_cookies := chain_cookies c\<rparr>) = Some (verb, url, opts)"
        using Some hop by simp
      have stored: "chain_cookies c1 =
          foldl (\<lambda>j (url, h). store lib j url h) cookies (map answered (?trace r))"
      proof -
        have "answered ((verb, url, opts), r) = (url, resp_headers r)"
          by (simp add: answered_def hop_url_def)
        then show ?thesis using receive_cookies [OF pend rc] Suc.prems(1) by simp
      qed
      show ?thesis
      proof (cases res1)
        case (Inl e)
        with Suc.prems(2) Some hop p rc \<open>out = Inr r\<close> stored show ?thesis by auto
      next
        case (Inr u)
        with Suc.prems(2) Some hop p rc \<open>out = Inr r\<close>
        have "walk fuel lib perform c1 (?trace r) = Some (res, c', trace')" by simp
        with stored show ?thesis by (rule Suc.IH)
      qed
    qed
  qed
qed simp

text \<open>Every Set-Cookie of a chain is stored, under the URL whose response set it and in the order
  the responses arrived, also for the response a chain fails on; responses that set no cookie
  leave the jar alone.\<close>

theorem cookies_stored_in_order:
  assumes "keeps_jar perform"
    and "follow lib perform verb url opts limit cookies = Some (res, c, trace)"
  shows "chain_cookies c =
    foldl (\<lambda>j (url, h). extract_cookies lib j (header_items h) url) cookies
      (filter (\<lambda>(url, h). contains h ''set-cookie'') (map answered trace))"
proof -
  have "chain_cookies c = foldl (\<lambda>j (url, h). store lib j url h) cookies (map answered trace)"
    using walk_cookies [OF assms(1), of "start_chain verb url opts limit cookies" lib cookies "[]"]
      assms(2) by (simp add: follow_def start_chain_def)
  then show ?thesis by (simp only: jar.stored_in_order)
qed

theorem cookies_stored_in_order_witness:
  "chain_cookies one_redirect_end =
    foldl (\<lambda>j (url, h). extract_cookies one_cookie_jar j (header_items h) url) ()
      (filter (\<lambda>(url, h). contains h ''set-cookie'') (map answered one_redirect_trace))"
  by (rule cookies_stored_in_order [OF _ one_redirect_run]) (simp add: keeps_jar_def one_redirect_def)

section \<open>The native count\<close>

text \<open>
  \<open>StartCall\<close> reads a negative limit as twenty, and \<open>OnReceivedRedirect\<close> counts up to the
  limit: past it, a limit of zero hands the redirect over and any other is the error. The
  observer is shown each response Chromium received; the result is the redirect count the
  response is reported with, or the error code.
\<close>

definition native_limit :: "int \<Rightarrow> int" where
  "native_limit m = (if m < 0 then 20 else m)"

fun observe_redirects :: "int \<Rightarrow> nat \<Rightarrow> response list \<Rightarrow> (int + nat) option" where
  "observe_redirects limit n [] = None"
| "observe_redirects limit n (r # rs) =
     (if is_redirect r then
        if int n \<ge> limit then
          Some (if limit = 0 then Inr n else Inl ERROR_TOO_MANY_REDIRECTS)
        else observe_redirects limit (n + 1) rs
      else Some (Inr n))"

lemma observe_front:
  assumes "list_all is_redirect front" and "int (n + length front) \<le> limit"
  shows "observe_redirects limit n (front @ rs) = observe_redirects limit (n + length front) rs"
  using assms by (induction front arbitrary: n) auto



text \<open>A negative limit means two things: the native side reads it as its default of twenty, while
  a session with a cookie jar fails on the first redirect.\<close>

theorem negative_limit_differs:
  "follow one_cookie_jar one_redirect ''GET'' ''https://a/'' bearer_options (-1) () =
     Some (Inl (too_many (-1) ''https://a/''),
       start_chain ''GET'' ''https://a/'' bearer_options (-1) (),
       [((''GET'', ''https://a/'', bearer_options), redirect_response 302 ''/x'')]) \<and>
   observe_redirects (native_limit (-1)) 0 [redirect_response 302 ''/x'', redirect_response 200 []] =
     Some (Inr 1)"
proof -
  have fuel: "walk_fuel (-1) = Suc (Suc 0)" by (simp add: walk_fuel_def)
  have "is_redirect (redirect_response 302 ''/x'')" "\<not> is_redirect (redirect_response 200 [])"
    by code_simp+
  then show ?thesis
    by (simp add: follow_def fuel start_chain_def one_redirect_def receive_def one_redirect_hops
        jar.put_plain [OF redirect_sets_no_cookie] Let_def native_limit_def)
qed

end
