(* ===== verification/NativeCall.thy ===== *)
theory NativeCall
  imports Wire
begin

text \<open>
  One native call: \<open>CallState\<close> of \<open>native/call.h\<close> and \<open>native/call.cc\<close>, the object the Python
  bridge reads through the C ABI. The record holds its members; each function below is one of
  its methods or one callback of \<open>RequestObserver\<close>. Both sides take a lock around everything
  they share, so a method is one step, and \<open>call_run\<close> is the step relation: the owner's reads,
  drains and cancels, interleaved in any order with the callbacks Cronet makes.

  Three members stand for what the code hands to Cronet: \<open>cs_reads\<close> counts the reads posted
  and not yet answered, \<open>cs_request\<close> says the request exists, \<open>cs_released\<close> that it is gone.
  What Cronet promises is in the rules of \<open>call_run\<close>: a response starts once, data arrives
  only for a posted read and fits its buffer, and nothing but the end of the teardown follows
  an outcome.
\<close>

section \<open>The response storage\<close>

text \<open>\<open>cronet_response\<close>; a pointer to a string that is null is \<open>None\<close>.\<close>

record c_response =
  cr_status_code :: "32 word"
  cr_status_text :: "bytes option"
  cr_headers :: "(bytes \<times> bytes) list"
  cr_negotiated_protocol :: "bytes option"
  cr_proxy_server :: "bytes option"
  cr_final_url :: "bytes option"
  cr_redirect_count :: "32 word"
  cr_was_cached :: "32 word"
  cr_error_code :: "32 word"
  cr_error_message :: "bytes option"
  cr_metrics :: c_metrics

definition zero_response :: c_response where
  "zero_response = \<lparr>cr_status_code = 0, cr_status_text = None, cr_headers = [],
     cr_negotiated_protocol = None, cr_proxy_server = None, cr_final_url = None,
     cr_redirect_count = 0, cr_was_cached = 0, cr_error_code = 0, cr_error_message = None,
     cr_metrics = zero_metrics\<rparr>"

text \<open>What a response start carries: status, status text, headers, cached, protocol, proxy.\<close>

record response_start =
  rs_status :: "32 word"
  rs_status_text :: bytes
  rs_headers :: "(bytes \<times> bytes) list"
  rs_cached :: bool
  rs_protocol :: bytes
  rs_proxy :: bytes

section \<open>The call\<close>

datatype phase = Started | HeadersIn | Finished

record call_state =
  cs_phase :: phase
  cs_body :: bytes
  cs_offset :: nat
  cs_complete :: bool
  cs_paused :: bool
  cs_claimed :: bool
  cs_published :: bool
  cs_view :: c_response
  cs_final_url :: bytes
  cs_request :: bool
  cs_destroyed :: bool
  cs_released :: bool
  cs_reads :: nat
  cs_signals :: nat

definition HIGH_WATER :: nat where
  "HIGH_WATER = 256 * 1024"

definition LOW_WATER :: nat where
  "LOW_WATER = 64 * 1024"

definition READ_BUFFER :: nat where
  "READ_BUFFER = 64 * 1024"

definition ERROR_ABORTED :: int where
  "ERROR_ABORTED = -3"

lemma marks [bound_facts]: "LOW_WATER < HIGH_WATER" "0 < READ_BUFFER" "READ_BUFFER \<le> HIGH_WATER"
  "0 < HIGH_WATER"
  by (simp_all add: HIGH_WATER_def LOW_WATER_def READ_BUFFER_def)

text \<open>After \<open>StartCall\<close>: the request is attached and started.\<close>

definition fresh_call :: "bytes \<Rightarrow> call_state" where
  "fresh_call url = \<lparr>cs_phase = Started, cs_body = [], cs_offset = 0, cs_complete = False,
     cs_paused = False, cs_claimed = False, cs_published = False, cs_view = zero_response,
     cs_final_url = url, cs_request = True, cs_destroyed = False, cs_released = False,
     cs_reads = 0, cs_signals = 0\<rparr>"

definition available :: "call_state \<Rightarrow> bytes" where
  "available s = drop (cs_offset s) (cs_body s)"

text \<open>The eventfd counter: a write that would overflow is dropped, a read empties it.\<close>

definition signal_progress :: "call_state \<Rightarrow> call_state" where
  "signal_progress s = s\<lparr>cs_signals := min (cs_signals s + 1) (2 ^ 64 - 2)\<rparr>"

definition drain_signals :: "call_state \<Rightarrow> call_state" where
  "drain_signals s = s\<lparr>cs_signals := 0\<rparr>"

definition read_data :: "call_state \<Rightarrow> call_state" where
  "read_data s = (if cs_destroyed s \<or> \<not> cs_request s then s else s\<lparr>cs_reads := cs_reads s + 1\<rparr>)"

definition destroy_request :: "call_state \<Rightarrow> call_state" where
  "destroy_request s =
     (if cs_destroyed s \<or> \<not> cs_request s then s else s\<lparr>cs_destroyed := True\<rparr>)"

definition cancel :: "call_state \<Rightarrow> call_state" where
  "cancel s = destroy_request s"

datatype read_result = ReadEOF | ReadBytes bytes

text \<open>The two closing parts of \<open>Read\<close>: the front is reclaimed once more has been handed out than is
  left, and a paused transfer restarts at the low-water mark.\<close>

definition reclaim :: "call_state \<Rightarrow> call_state" where
  "reclaim s =
     (if cs_offset s > length (cs_body s) - cs_offset s
      then s\<lparr>cs_body := drop (cs_offset s) (cs_body s), cs_offset := 0\<rparr> else s)"

definition resume_if_low :: "call_state \<Rightarrow> call_state" where
  "resume_if_low s =
     (if cs_paused s \<and> length (cs_body s) - cs_offset s \<le> LOW_WATER
      then read_data (s\<lparr>cs_paused := False\<rparr>) else s)"

definition call_read :: "nat \<Rightarrow> call_state \<Rightarrow> read_result \<times> call_state" where
  "call_read capacity s =
     (if capacity = 0 then (ReadBytes [], s)
      else if length (cs_body s) - cs_offset s = 0 then
        (if cs_complete s then ReadEOF else ReadBytes [], s)
      else
        (let copied = min capacity (length (cs_body s) - cs_offset s) in
         (ReadBytes (take copied (drop (cs_offset s) (cs_body s))),
          resume_if_low (reclaim (s\<lparr>cs_offset := cs_offset s + copied\<rparr>)))))"

definition publish :: "c_response \<Rightarrow> bytes \<Rightarrow> c_response" where
  "publish view url = view\<lparr>cr_final_url := Some url\<rparr>"

definition on_response :: "response_start \<Rightarrow> call_state \<Rightarrow> call_state" where
  "on_response r s =
     signal_progress (s\<lparr>
       cs_view := publish ((cs_view s)\<lparr>cr_status_code := rs_status r,
         cr_status_text := Some (rs_status_text r), cr_headers := rs_headers r,
         cr_was_cached := (if rs_cached r then 1 else 0),
         cr_negotiated_protocol := Some (rs_protocol r), cr_proxy_server := Some (rs_proxy r)\<rparr>)
         (cs_final_url s),
       cs_published := True, cs_phase := HeadersIn\<rparr>)"

definition set_redirect_count :: "nat \<Rightarrow> call_state \<Rightarrow> call_state" where
  "set_redirect_count n s = s\<lparr>cs_view := (cs_view s)\<lparr>cr_redirect_count := of_nat n\<rparr>\<rparr>"

definition set_metrics :: "c_metrics \<Rightarrow> call_state \<Rightarrow> call_state" where
  "set_metrics m s =
     (if cs_phase s = Finished then s else s\<lparr>cs_view := (cs_view s)\<lparr>cr_metrics := m\<rparr>\<rparr>)"

definition publish_unseen :: "call_state \<Rightarrow> c_response" where
  "publish_unseen s =
     (if cs_published s then cs_view s
      else publish ((cs_view s)\<lparr>cr_status_text := Some [], cr_headers := [],
        cr_negotiated_protocol := Some [], cr_proxy_server := Some []\<rparr>) (cs_final_url s))"

definition finish :: "int \<Rightarrow> bytes \<Rightarrow> call_state \<Rightarrow> call_state" where
  "finish code msg s =
     (if cs_claimed s then s
      else signal_progress (s\<lparr>cs_claimed := True, cs_complete := True, cs_paused := False,
        cs_view := (publish_unseen s)\<lparr>cr_error_message := Some msg, cr_error_code := of_int code\<rparr>,
        cs_published := True, cs_phase := Finished\<rparr>))"

definition on_data :: "bytes \<Rightarrow> call_state \<Rightarrow> bool \<times> call_state" where
  "on_data d s =
     (let body = cs_body s @ d;
          keep = length body - cs_offset s < HIGH_WATER in
      (keep, signal_progress (s\<lparr>cs_body := body, cs_paused := \<not> keep\<rparr>)))"

section \<open>The callbacks of the observer\<close>

definition CANCELLED_TEXT :: bytes where
  "CANCELLED_TEXT = latin1 ''the call was cancelled''"

definition NO_RESULT_TEXT :: bytes where
  "NO_RESULT_TEXT = latin1 ''the call ended without a result''"

definition LIMIT_TEXT :: bytes where
  "LIMIT_TEXT = latin1 ''redirect limit reached at ''"

definition on_response_started :: "response_start \<Rightarrow> nat \<Rightarrow> call_state \<Rightarrow> call_state" where
  "on_response_started r redirects s = read_data (set_redirect_count redirects (on_response r s))"

definition on_read_completed :: "bytes \<Rightarrow> call_state \<Rightarrow> call_state" where
  "on_read_completed d s =
     (case on_data d (s\<lparr>cs_reads := cs_reads s - 1\<rparr>) of
        (keep, s') \<Rightarrow> if keep then read_data s' else s')"

definition on_succeeded :: "call_state \<Rightarrow> call_state" where
  "on_succeeded s = destroy_request (finish 0 [] (s\<lparr>cs_reads := cs_reads s - 1\<rparr>))"

definition on_error :: "int \<Rightarrow> bytes \<Rightarrow> call_state \<Rightarrow> call_state" where
  "on_error code msg s = destroy_request (finish code msg s)"

definition on_followed_redirect :: "bytes \<Rightarrow> call_state \<Rightarrow> call_state" where
  "on_followed_redirect location s = s\<lparr>cs_final_url := location\<rparr>"

definition on_redirect_limit :: "int \<Rightarrow> nat \<Rightarrow> bytes \<Rightarrow> response_start \<Rightarrow> call_state \<Rightarrow> call_state" where
  "on_redirect_limit max_redirects redirects location r s =
     destroy_request
       ((if max_redirects = 0 then finish 0 []
         else finish (-31) (LIMIT_TEXT @ location))
        (set_redirect_count redirects (on_response r s)))"

definition on_canceled :: "call_state \<Rightarrow> call_state" where
  "on_canceled s = finish ERROR_ABORTED CANCELLED_TEXT s"

definition on_destroyed :: "call_state \<Rightarrow> call_state" where
  "on_destroyed s =
     (finish ERROR_ABORTED NO_RESULT_TEXT s)
       \<lparr>cs_request := False, cs_released := True, cs_reads := 0\<rparr>"

definition call_response :: "call_state \<Rightarrow> c_response option" where
  "call_response s = (if cs_phase s = Started then None else Some (cs_view s))"

section \<open>Runs\<close>

text \<open>A request that exists and has no outcome yet: the only time Cronet reports on it.\<close>

definition live :: "call_state \<Rightarrow> bool" where
  "live s \<longleftrightarrow> cs_request s \<and> \<not> cs_claimed s"

text \<open>
  \<open>call_run url s rx tx\<close>: a call for \<open>url\<close> can be in state \<open>s\<close> after Cronet has delivered the
  body bytes \<open>rx\<close> and the owner has read the bytes \<open>tx\<close>.
\<close>

inductive call_run :: "bytes \<Rightarrow> call_state \<Rightarrow> bytes \<Rightarrow> bytes \<Rightarrow> bool" for url where
  start: "call_run url (fresh_call url) [] []"
| redirected: "call_run url s rx tx \<Longrightarrow> live s \<Longrightarrow> cs_phase s = Started \<Longrightarrow>
    call_run url (on_followed_redirect loc s) rx tx"
| redirect_limit: "call_run url s rx tx \<Longrightarrow> live s \<Longrightarrow> cs_phase s = Started \<Longrightarrow>
    call_run url (on_redirect_limit limit n loc r s) rx tx"
| response_started: "call_run url s rx tx \<Longrightarrow> live s \<Longrightarrow> cs_phase s = Started \<Longrightarrow>
    call_run url (on_response_started r n s) rx tx"
| read_completed: "call_run url s rx tx \<Longrightarrow> live s \<Longrightarrow> 0 < cs_reads s \<Longrightarrow> d \<noteq> [] \<Longrightarrow>
    length d \<le> READ_BUFFER \<Longrightarrow> call_run url (on_read_completed d s) (rx @ d) tx"
| succeeded: "call_run url s rx tx \<Longrightarrow> live s \<Longrightarrow> 0 < cs_reads s \<Longrightarrow>
    call_run url (on_succeeded s) rx tx"
| failed: "call_run url s rx tx \<Longrightarrow> live s \<Longrightarrow> e \<noteq> 0 \<Longrightarrow> call_run url (on_error e msg s) rx tx"
| metrics: "call_run url s rx tx \<Longrightarrow> cs_request s \<Longrightarrow> call_run url (set_metrics m s) rx tx"
| canceled: "call_run url s rx tx \<Longrightarrow> cs_request s \<Longrightarrow> cs_destroyed s \<Longrightarrow>
    call_run url (on_canceled s) rx tx"
| destroyed: "call_run url s rx tx \<Longrightarrow> cs_request s \<Longrightarrow> cs_destroyed s \<Longrightarrow>
    call_run url (on_destroyed s) rx tx"
| owner_cancel: "call_run url s rx tx \<Longrightarrow> call_run url (cancel s) rx tx"
| owner_drain: "call_run url s rx tx \<Longrightarrow> call_run url (drain_signals s) rx tx"
| owner_read: "call_run url s rx tx \<Longrightarrow> call_read capacity s = (ReadBytes p, s') \<Longrightarrow>
    call_run url s' rx (tx @ p)"

lemmas owner_steps = signal_progress_def drain_signals_def read_data_def destroy_request_def cancel_def
lemmas network_steps = on_response_def set_redirect_count_def set_metrics_def finish_def on_data_def
  on_response_started_def on_read_completed_def on_succeeded_def on_error_def
  on_followed_redirect_def on_redirect_limit_def on_canceled_def on_destroyed_def

section \<open>What a read does to the buffer\<close>

lemma available_update [simp]:
  "available (s\<lparr>cs_phase := a\<rparr>) = available s" "available (s\<lparr>cs_complete := b\<rparr>) = available s"
  "available (s\<lparr>cs_paused := b\<rparr>) = available s" "available (s\<lparr>cs_claimed := b\<rparr>) = available s"
  "available (s\<lparr>cs_published := b\<rparr>) = available s" "available (s\<lparr>cs_view := v\<rparr>) = available s"
  "available (s\<lparr>cs_final_url := u\<rparr>) = available s" "available (s\<lparr>cs_request := b\<rparr>) = available s"
  "available (s\<lparr>cs_destroyed := b\<rparr>) = available s" "available (s\<lparr>cs_released := b\<rparr>) = available s"
  "available (s\<lparr>cs_reads := n\<rparr>) = available s" "available (s\<lparr>cs_signals := n\<rparr>) = available s"
  by (simp_all add: available_def)

lemma length_available: "length (available s) = length (cs_body s) - cs_offset s"
  by (simp add: available_def)

definition frame :: "call_state \<Rightarrow> call_state \<Rightarrow> bool" where
  "frame s s' \<longleftrightarrow> cs_phase s' = cs_phase s \<and> cs_complete s' = cs_complete s \<and>
     cs_claimed s' = cs_claimed s \<and> cs_published s' = cs_published s \<and> cs_view s' = cs_view s \<and>
     cs_final_url s' = cs_final_url s \<and> cs_request s' = cs_request s \<and>
     cs_destroyed s' = cs_destroyed s \<and> cs_released s' = cs_released s \<and> cs_signals s' = cs_signals s"

lemma reclaim_facts:
  assumes "cs_offset s \<le> length (cs_body s)"
  shows "available (reclaim s) = available s" and "cs_offset (reclaim s) \<le> length (cs_body (reclaim s))"
    and "frame s (reclaim s)" and "cs_paused (reclaim s) = cs_paused s"
    and "cs_reads (reclaim s) = cs_reads s"
  using assms by (simp_all add: reclaim_def available_def frame_def)

text \<open>Whether the owner's read restarted the network's.\<close>

definition flow :: "call_state \<Rightarrow> call_state \<Rightarrow> bool" where
  "flow s s' \<longleftrightarrow>
     (if cs_paused s \<and> length (available s') \<le> LOW_WATER then
        \<not> cs_paused s' \<and>
        cs_reads s' = (if cs_destroyed s \<or> \<not> cs_request s then cs_reads s else cs_reads s + 1)
      else cs_paused s' = cs_paused s \<and> cs_reads s' = cs_reads s)"

lemma resume_facts:
  shows "available (resume_if_low s) = available s" and "frame s (resume_if_low s)"
    and "cs_offset (resume_if_low s) = cs_offset s" and "cs_body (resume_if_low s) = cs_body s"
    and "flow s (resume_if_low s)"
  by (simp_all add: resume_if_low_def read_data_def frame_def flow_def length_available)

lemma call_read_cases:
  assumes "call_read capacity s = (res, s')" and "cs_offset s \<le> length (cs_body s)"
  obtains (nothing) "capacity = 0" "res = ReadBytes []" "s' = s"
  | (ended) "0 < capacity" "available s = []" "cs_complete s" "res = ReadEOF" "s' = s"
  | (dry) "0 < capacity" "available s = []" "\<not> cs_complete s" "res = ReadBytes []" "s' = s"
  | (piece) p where "0 < capacity" "p \<noteq> []" "res = ReadBytes p" "length p \<le> capacity"
      "available s = p @ available s'" "cs_offset s' \<le> length (cs_body s')" "frame s s'" "flow s s'"
proof -
  let ?avail = "length (cs_body s) - cs_offset s"
  consider "capacity = 0" | "0 < capacity" "?avail = 0" | "0 < capacity" "?avail \<noteq> 0" by blast
  then show ?thesis
  proof cases
    case 1
    with assms(1) have "res = ReadBytes []" "s' = s" by (simp_all add: call_read_def)
    with 1 show ?thesis by (rule nothing)
  next
    case 2
    then have av: "available s = []" by (simp add: available_def)
    have "call_read capacity s = (if cs_complete s then ReadEOF else ReadBytes [], s)"
      unfolding call_read_def using 2 by simp
    then have res: "res = (if cs_complete s then ReadEOF else ReadBytes [])" "s' = s"
      using assms(1) by auto
    show ?thesis
    proof (cases "cs_complete s")
      case True
      show ?thesis by (rule ended [OF 2(1) av True]) (use res True in simp_all)
    next
      case False
      show ?thesis by (rule dry [OF 2(1) av False]) (use res False in simp_all)
    qed
  next
    case 3
    define copied where "copied = min capacity ?avail"
    define p where "p = take copied (available s)"
    let ?s1 = "s\<lparr>cs_offset := cs_offset s + copied\<rparr>"
    have le: "cs_offset ?s1 \<le> length (cs_body ?s1)" using assms(2) by (simp add: copied_def)
    have eq: "res = ReadBytes p" "s' = resume_if_low (reclaim ?s1)"
      using assms(1) 3 by (simp_all add: call_read_def p_def copied_def available_def Let_def)
    have av: "available s' = drop copied (available s)"
      using reclaim_facts(1) [OF le] by (simp add: eq resume_facts available_def add.commute)
    have "frame ?s1 s'"
      using reclaim_facts(3) [OF le] resume_facts(2) [of "reclaim ?s1"] by (simp add: eq frame_def)
    then have "frame s s'" by (simp add: frame_def)
    moreover have "flow s s'"
      using resume_facts(5) [of "reclaim ?s1"] reclaim_facts(3-5) [OF le]
      by (simp add: eq flow_def frame_def)
    moreover have "cs_offset s' \<le> length (cs_body s')"
      using reclaim_facts(2) [OF le] by (simp add: eq resume_facts)
    moreover have "p \<noteq> []" using 3 by (simp add: p_def copied_def length_available [symmetric])
    moreover have "length p \<le> capacity" by (simp add: p_def copied_def)
    moreover have "available s = p @ available s'" by (simp add: av p_def)
    ultimately show ?thesis by (intro piece [OF 3(1) _ eq(1)])
  qed
qed

section \<open>The invariant\<close>

definition call_inv :: "call_state \<Rightarrow> bytes \<Rightarrow> bytes \<Rightarrow> bool" where
  "call_inv s rx tx \<longleftrightarrow>
     cs_offset s \<le> length (cs_body s) \<and>
     rx = tx @ available s \<and>
     (cs_claimed s \<longleftrightarrow> cs_phase s = Finished) \<and> (cs_complete s \<longleftrightarrow> cs_claimed s) \<and>
     (cs_phase s = Started \<longrightarrow> rx = [] \<and> cs_reads s = 0 \<and> \<not> cs_paused s \<and> \<not> cs_published s) \<and>
     (cs_phase s \<noteq> Started \<longrightarrow> cs_published s) \<and>
     (cs_claimed s \<longrightarrow> \<not> cs_paused s) \<and>
     (\<not> cs_request s \<longrightarrow> cs_claimed s \<and> cs_reads s = 0) \<and>
     cs_released s = (\<not> cs_request s) \<and>
     length (available s) < HIGH_WATER + READ_BUFFER \<and>
     cs_reads s \<le> 1 \<and>
     (0 < cs_reads s \<longrightarrow> \<not> cs_paused s \<and> (live s \<longrightarrow> length (available s) < HIGH_WATER)) \<and>
     (cs_paused s \<longrightarrow> LOW_WATER < length (available s)) \<and>
     (live s \<and> \<not> cs_destroyed s \<and> cs_phase s = HeadersIn \<longrightarrow> cs_paused s \<or> cs_reads s = 1)"

lemma call_invD:
  assumes "call_inv s rx tx"
  shows "cs_offset s \<le> length (cs_body s)" and "rx = tx @ available s"
    and "cs_claimed s \<longleftrightarrow> cs_phase s = Finished" and "cs_complete s \<longleftrightarrow> cs_claimed s"
    and "cs_phase s = Started \<Longrightarrow> rx = [] \<and> cs_reads s = 0 \<and> \<not> cs_paused s \<and> \<not> cs_published s"
    and "cs_phase s \<noteq> Started \<Longrightarrow> cs_published s" and "cs_claimed s \<Longrightarrow> \<not> cs_paused s"
    and "\<not> cs_request s \<Longrightarrow> cs_claimed s \<and> cs_reads s = 0" and "cs_released s = (\<not> cs_request s)"
    and "length (available s) < HIGH_WATER + READ_BUFFER" and "cs_reads s \<le> 1"
    and "0 < cs_reads s \<Longrightarrow> \<not> cs_paused s"
    and "0 < cs_reads s \<Longrightarrow> live s \<Longrightarrow> length (available s) < HIGH_WATER"
    and "cs_paused s \<Longrightarrow> LOW_WATER < length (available s)"
    and "live s \<Longrightarrow> \<not> cs_destroyed s \<Longrightarrow> cs_phase s = HeadersIn \<Longrightarrow> cs_paused s \<or> cs_reads s = 1"
  using assms unfolding call_inv_def by blast+

lemma inv_read_completed:
  assumes "call_inv s rx tx" and "live s" and "0 < cs_reads s" and "length d \<le> READ_BUFFER"
  shows "call_inv (on_read_completed d s) (rx @ d) tx"
proof -
  let ?n = "length (cs_body s) + length d - cs_offset s"
  have r: "cs_reads s = 1" and off: "cs_offset s \<le> length (cs_body s)"
    and rx: "rx = tx @ available s" and high: "length (cs_body s) - cs_offset s < HIGH_WATER"
    and p: "\<not> cs_paused s"
    using assms by (auto simp: call_inv_def length_available)
  have bound: "?n < HIGH_WATER + READ_BUFFER" using high assms(4) off by linarith
  have low: "LOW_WATER < ?n" if "\<not> ?n < HIGH_WATER" using that marks(1) by linarith
  have av: "drop (cs_offset s) (cs_body s @ d) = available s @ d" using off by (simp add: available_def)
  have live: "cs_phase s \<noteq> Finished" "\<not> cs_claimed s" "cs_request s" "\<not> cs_complete s"
    "\<not> cs_released s" "cs_published s" "cs_phase s \<noteq> Started"
    using assms(1-3) by (auto simp: call_inv_def live_def)
  show ?thesis
  proof (cases "?n < HIGH_WATER")
    case True
    then have "on_read_completed d s =
        read_data (signal_progress (s\<lparr>cs_reads := 0, cs_body := cs_body s @ d, cs_paused := False\<rparr>))"
      using r by (simp add: on_read_completed_def on_data_def Let_def)
    then show ?thesis
      using live rx off bound True av
      by (simp add: call_inv_def signal_progress_def read_data_def live_def available_def)
  next
    case False
    then have "on_read_completed d s =
        signal_progress (s\<lparr>cs_reads := 0, cs_body := cs_body s @ d, cs_paused := True\<rparr>)"
      using r by (simp add: on_read_completed_def on_data_def Let_def)
    then show ?thesis
      using live rx off bound low [OF False] av
      by (simp add: call_inv_def signal_progress_def live_def available_def)
  qed
qed

lemma inv_owner_read:
  assumes "call_inv s rx tx" and "call_read capacity s = (ReadBytes p, s')"
  shows "call_inv s' rx (tx @ p)"
proof -
  have off: "cs_offset s \<le> length (cs_body s)" using assms(1) by (simp add: call_inv_def)
  from assms(2) off show ?thesis
  proof (cases rule: call_read_cases)
    case (piece q)
    then have eq: "available s = p @ available s'" by simp
    then have len: "length (available s') \<le> length (available s)" by simp
    have same: "live s' = live s" "cs_phase s' = cs_phase s" "cs_complete s' = cs_complete s"
      "cs_claimed s' = cs_claimed s" "cs_published s' = cs_published s" "cs_request s' = cs_request s"
      "cs_destroyed s' = cs_destroyed s" "cs_released s' = cs_released s"
      using piece(7) by (simp_all add: live_def frame_def)
    note old = call_invD [OF assms(1)]
    have bounds: "length (available s') < HIGH_WATER + READ_BUFFER"
      using old(10) len by linarith
    have high: "length (available s') < HIGH_WATER" if "0 < cs_reads s" "live s"
      using old(13) [OF that] len by linarith
    have started: "cs_phase s \<noteq> Started"
      using old(2,5) piece(2,3) eq by auto
    have rx: "rx = (tx @ p) @ available s'" using old(2) eq by simp
    show ?thesis
    proof (cases "cs_paused s \<and> length (available s') \<le> LOW_WATER")
      case True
      with piece(8) have now: "\<not> cs_paused s'"
        "cs_reads s' = (if cs_destroyed s \<or> \<not> cs_request s then cs_reads s else cs_reads s + 1)"
        by (simp_all add: flow_def)
      have r0: "cs_reads s = 0" using old(11,12) True by force
      have c: "\<not> cs_claimed s" using old(7) True by blast
      then have q: "cs_request s" using old(8) by blast
      have h: "length (available s') < HIGH_WATER" using True marks(1) by linarith
      show ?thesis
        unfolding call_inv_def same
        by (intro conjI; (intro piece(6) rx old(3) old(4) bounds old(9))?)
          (use started old(6) now r0 c q h in auto)
    next
      case False
      with piece(8) have now: "cs_paused s' = cs_paused s" "cs_reads s' = cs_reads s"
        by (auto simp: flow_def)
      have low: "cs_paused s \<Longrightarrow> LOW_WATER < length (available s')" using False by simp
      show ?thesis
        unfolding call_inv_def same now
        by (intro conjI; (intro piece(6) rx old(3) old(4) bounds old(9))?)
          (use started old(6-8,11,12,15) high low in auto)
    qed
  qed (use assms(1) in simp_all)
qed

lemma call_run_inv: "call_run url s rx tx \<Longrightarrow> call_inv s rx tx"
proof (induction rule: call_run.induct)
  case start
  then show ?case
    using marks by (simp add: call_inv_def fresh_call_def available_def)
next
  case (read_completed s rx tx d)
  then show ?case by (intro inv_read_completed)
next
  case (owner_read s rx tx capacity p s')
  then show ?case by (intro inv_owner_read)
next
  case (redirect_limit s rx tx limit n loc r)
  then show ?case by (auto simp: call_inv_def live_def owner_steps network_steps)
next
  case (response_started s rx tx r n)
  then show ?case using marks by (auto simp: call_inv_def live_def owner_steps network_steps)
qed (auto simp: call_inv_def live_def owner_steps network_steps)

section \<open>What the owner can rely on\<close>

text \<open>A run: the response starts, three bytes arrive, the owner reads two, the request succeeds.\<close>

definition sample_start :: response_start where
  "sample_start = \<lparr>rs_status = 200, rs_status_text = [79, 75], rs_headers = [], rs_cached = False,
     rs_protocol = [104, 50], rs_proxy = []\<rparr>"

definition sample_half :: call_state where
  "sample_half = snd (call_read 2 (on_read_completed [1, 2, 3]
     (on_response_started sample_start 0 (fresh_call []))))"

definition sample_end :: call_state where
  "sample_end = snd (call_read 5 (on_succeeded sample_half))"

lemmas sample_defs = sample_half_def sample_end_def sample_start_def fresh_call_def
  available_def live_def call_read_def reclaim_def resume_if_low_def owner_steps network_steps
  HIGH_WATER_def LOW_WATER_def READ_BUFFER_def

lemma sample_half_run: "call_run [] sample_half [1, 2, 3] [1, 2]"
proof -
  let ?s1 = "on_response_started sample_start 0 (fresh_call [])"
  let ?s2 = "on_read_completed [1, 2, 3] ?s1"
  have "call_run [] ?s1 [] []"
    by (rule call_run.response_started [OF call_run.start]) (simp_all add: fresh_call_def live_def)
  then have "call_run [] ?s2 ([] @ [1, 2, 3]) []"
    by (rule call_run.read_completed)
      (simp_all add: fresh_call_def live_def owner_steps network_steps READ_BUFFER_def)
  then have "call_run [] sample_half ([] @ [1, 2, 3]) ([] @ [1, 2])"
    by (rule call_run.owner_read [where capacity = 2]) (simp add: sample_defs)
  then show ?thesis by simp
qed

lemma sample_end_run: "call_run [] sample_end [1, 2, 3] [1, 2, 3]"
proof -
  have "call_run [] (on_succeeded sample_half) [1, 2, 3] [1, 2]"
    by (rule call_run.succeeded [OF sample_half_run]) (simp_all add: sample_defs)
  then have "call_run [] sample_end [1, 2, 3] ([1, 2] @ [3])"
    by (rule call_run.owner_read [where capacity = 5]) (simp add: sample_defs)
  then show ?thesis by simp
qed

text \<open>C1. The body buffer is a bounded queue: whatever the interleaving of the owner's reads with the
  network's callbacks, what the owner has read followed by what is buffered is exactly what the
  network delivered, in order, and less than the high-water mark plus one read buffer is held.\<close>

theorem body_is_a_bounded_queue:
  assumes "call_run url s rx tx"
  shows "rx = tx @ available s \<and> length (available s) < HIGH_WATER + READ_BUFFER"
  using call_invD(2,10) [OF call_run_inv [OF assms]] by blast

theorem body_is_a_bounded_queue_witness:
  "[1, 2, 3] = [1, 2] @ available sample_half \<and>
   length (available sample_half) < HIGH_WATER + READ_BUFFER"
  by (rule body_is_a_bounded_queue [OF sample_half_run])

text \<open>End of body is reported only once the call has an outcome and every byte delivered has been
  read, and it stays so: the read changes nothing.\<close>

theorem end_of_body_is_the_end:
  assumes "call_run url s rx tx" and "call_read capacity s = (ReadEOF, s')"
  shows "tx = rx \<and> cs_phase s = Finished \<and> s' = s"
proof -
  note inv = call_invD [OF call_run_inv [OF assms(1)]]
  from assms(2) inv(1) have "available s = [] \<and> cs_complete s \<and> s' = s"
    by (cases rule: call_read_cases) simp_all
  with inv(2-4) show ?thesis by simp
qed

theorem end_of_body_is_the_end_witness:
  "([1, 2, 3] :: bytes) = [1, 2, 3] \<and> cs_phase sample_end = Finished \<and> sample_end = sample_end"
  by (rule end_of_body_is_the_end [OF sample_end_run, where capacity = 1]) (simp add: sample_defs)

text \<open>C23. The transfer cannot stall: while the headers are in and the request neither has an outcome
  nor was cancelled, either one read is outstanding, or the transfer is paused with more than
  the low-water mark buffered; and the owner's read that takes the buffer down to that mark
  posts the next network read.\<close>

theorem transfer_never_stalls:
  assumes "call_run url s rx tx" and "live s" and "\<not> cs_destroyed s" and "cs_phase s = HeadersIn"
    and "call_read capacity s = (ReadBytes p, s')"
  shows "(if cs_paused s then cs_reads s = 0 \<and> LOW_WATER < length (available s) else cs_reads s = 1) \<and>
    (if length (available s') \<le> LOW_WATER then \<not> cs_paused s' \<and> cs_reads s' = 1
     else cs_paused s' = cs_paused s)"
proof -
  note inv = call_invD [OF call_run_inv [OF assms(1)]]
  have now: "if cs_paused s then cs_reads s = 0 \<and> LOW_WATER < length (available s) else cs_reads s = 1"
    using inv(12,14) inv(15) [OF assms(2-4)] by auto
  have request: "cs_request s" using assms(2) by (simp add: live_def)
  from assms(5) inv(1) show ?thesis
  proof (cases rule: call_read_cases)
    case (piece q)
    then show ?thesis using now request assms(3) by (auto simp: flow_def)
  qed (use now in auto)
qed

theorem transfer_never_stalls_witness:
  "(if cs_paused sample_half then cs_reads sample_half = 0 \<and> LOW_WATER < length (available sample_half)
    else cs_reads sample_half = 1) \<and>
   (if length (available (snd (call_read 5 sample_half))) \<le> LOW_WATER
    then \<not> cs_paused (snd (call_read 5 sample_half)) \<and> cs_reads (snd (call_read 5 sample_half)) = 1
    else cs_paused (snd (call_read 5 sample_half)) = cs_paused sample_half)"
  by (rule transfer_never_stalls [OF sample_half_run, where capacity = 5 and p = "[3]"])
    (simp_all add: sample_defs)

end
