(* ===== verification/Marshal.thy ===== *)
theory Marshal
  imports Request NativeCall
begin

text \<open>
  Crossing the C boundary (\<open>src/cronet/_bridge.py\<close>): the two structs the bridge fills for the
  library, over an explicit memory, and the response it copies out. A struct field that is a
  pointer holds an address of the memory or is null; what the library then reads through the
  pointers is \<open>cronet_call_start\<close> and \<open>cronet_engine_create\<close> of \<open>native/c_api.cc\<close>, modelled by
  \<open>request_spec\<close> and \<open>engine_spec\<close>. An integer assigned to a ctypes field keeps the low bits of its
  width, and a \<open>char*\<close> is read up to its first zero byte.
\<close>

section \<open>Memory\<close>

datatype cell =
    CString bytes
  | CBytes bytes
  | CHeaders "(nat option \<times> nat option) list"
  | CHints "(nat option \<times> 32 word \<times> 32 word) list"

type_synonym memory = "cell list"

definition load :: "memory \<Rightarrow> nat option \<Rightarrow> cell option" where
  "load mem p = (case p of None \<Rightarrow> None | Some a \<Rightarrow> if a < length mem then Some (mem ! a) else None)"

definition c_text :: "bytes \<Rightarrow> bytes" where
  "c_text b = takeWhile (\<lambda>w. w \<noteq> 0) b"

text \<open>\<open>ToString\<close>: a null pointer reads as the empty string.\<close>

definition read_string :: "memory \<Rightarrow> nat option \<Rightarrow> bytes" where
  "read_string mem p = (case load mem p of Some (CString b) \<Rightarrow> c_text b | _ \<Rightarrow> [])"

lemma load_Some: "a < length mem \<Longrightarrow> load mem (Some a) = Some (mem ! a)"
  by (simp add: load_def)

lemma load_None [simp]: "load mem None = None"
  by (simp add: load_def)

lemma load_append: "a < length mem \<Longrightarrow> load (mem @ rest) (Some a) = load mem (Some a)"
  by (simp add: load_def nth_append)

lemma load_here [simp]: "load (mem @ c # rest) (Some (length mem)) = Some c"
  by (simp add: load_def)

section \<open>The request\<close>

record c_request =
  q_method :: "nat option"
  q_url :: "nat option"
  q_headers :: "nat option"
  q_header_count :: "64 word"
  q_body :: "nat option"
  q_body_size :: "64 word"
  q_priority :: "32 word"
  q_max_redirects :: "32 word"
  q_disable_cache :: "32 word"

text \<open>\<open>cronet_request_init\<close>.\<close>

definition request_init :: c_request where
  "request_init = \<lparr>q_method = None, q_url = None, q_headers = None, q_header_count = 0,
     q_body = None, q_body_size = 0, q_priority = 4, q_max_redirects = -1, q_disable_cache = 0\<rparr>"

text \<open>The loop over the headers: two buffers each, their addresses kept and put into the array.\<close>

fun put_headers ::
  "pairs \<Rightarrow> memory \<Rightarrow> nat list \<Rightarrow> (nat option \<times> nat option) list \<Rightarrow>
    memory \<times> nat list \<times> (nat option \<times> nat option) list" where
  "put_headers [] mem keep arr = (mem, keep, arr)"
| "put_headers ((name, v) # ps) mem keep arr =
     (let n = length mem in
      put_headers ps (mem @ [CString (latin1 name), CString (latin1 v)]) (keep @ [n, n + 1])
        (arr @ [(Some n, Some (n + 1))]))"

definition attach_headers :: "pairs \<Rightarrow> c_request \<times> memory \<times> nat list \<Rightarrow> c_request \<times> memory \<times> nat list" where
  "attach_headers ps st =
     (case st of (req, mem, keep) \<Rightarrow>
        if ps = [] then st
        else
          (case put_headers ps mem keep [] of (mem, keep, arr) \<Rightarrow>
            (req\<lparr>q_headers := Some (length mem), q_header_count := of_nat (length ps)\<rparr>,
             mem @ [CHeaders arr], keep @ [length mem])))"

definition attach_body :: "bytes \<Rightarrow> c_request \<times> memory \<times> nat list \<Rightarrow> c_request \<times> memory \<times> nat list" where
  "attach_body b st =
     (case st of (req, mem, keep) \<Rightarrow>
        if b = [] then st
        else (req\<lparr>q_body := Some (length mem), q_body_size := of_nat (length b)\<rparr>,
              mem @ [CBytes b], keep @ [length mem]))"

definition build_request :: "call_settings \<Rightarrow> c_request \<times> memory \<times> nat list" where
  "build_request cs =
     (let mem = [CString (upper_utf8 (call_method cs)), CString (utf8_string (call_url cs))];
          req = request_init\<lparr>q_method := Some 0, q_url := Some 1\<rparr> in
      (case attach_body (call_body cs) (attach_headers (call_headers cs) (req, mem, [0, 1])) of
         (req, mem, keep) \<Rightarrow>
           (req\<lparr>q_priority := of_int (call_priority cs), q_max_redirects := of_int (call_max_redirects cs),
                q_disable_cache := (if call_disable_cache cs then 1 else 0)\<rparr>, mem, keep)))"

section \<open>What the library reads of a request\<close>

record native_request =
  spec_url :: bytes
  spec_method :: bytes
  spec_priority :: int
  spec_max_redirects :: int
  spec_headers :: "(bytes \<times> bytes) list"
  spec_body :: bytes
  spec_disable_cache :: bool

definition to_request_priority :: "32 word \<Rightarrow> int" where
  "to_request_priority p = (if sint p < 0 \<or> 5 < sint p then 4 else sint p)"

fun read_headers :: "memory \<Rightarrow> (nat option \<times> nat option) list \<Rightarrow> (bytes \<times> bytes) list" where
  "read_headers mem [] = []"
| "read_headers mem ((n, v) # es) =
     (if n = None \<or> v = None then read_headers mem es
      else (read_string mem n, read_string mem v) # read_headers mem es)"

definition header_array :: "memory \<Rightarrow> c_request \<Rightarrow> (nat option \<times> nat option) list" where
  "header_array mem req =
     (case load mem (q_headers req) of
        Some (CHeaders arr) \<Rightarrow> take (unat (q_header_count req)) arr
      | _ \<Rightarrow> [])"

definition request_body :: "memory \<Rightarrow> c_request \<Rightarrow> bytes" where
  "request_body mem req =
     (case load mem (q_body req) of Some (CBytes b) \<Rightarrow> take (unat (q_body_size req)) b | _ \<Rightarrow> [])"

definition request_spec :: "memory \<Rightarrow> c_request \<Rightarrow> native_request option" where
  "request_spec mem req =
     (if q_url req = None then None
      else Some \<lparr>spec_url = read_string mem (q_url req),
        spec_method = (if read_string mem (q_method req) = [] then latin1 ''GET''
                       else read_string mem (q_method req)),
        spec_priority = to_request_priority (q_priority req),
        spec_max_redirects = sint (q_max_redirects req),
        spec_headers = read_headers mem (header_array mem req),
        spec_body = request_body mem req,
        spec_disable_cache = (q_disable_cache req \<noteq> 0)\<rparr>)"

text \<open>Every address the library follows from the struct.\<close>

definition request_pointers :: "memory \<Rightarrow> c_request \<Rightarrow> nat option list" where
  "request_pointers mem req =
     [q_method req, q_url req, q_headers req, q_body req] @
     concat (map (\<lambda>(n, v). [n, v]) (header_array mem req))"

lemma upt_two: "[n, n + 1] @ [n + 2..<n + 2 + k] = [n..<n + 2 + k]"
  using upt_conv_Cons [of n "n + 2 + k"] upt_conv_Cons [of "n + 1" "n + 2 + k"]
  by (simp del: upt_Suc)

lemma put_headers_spec:
  assumes "put_headers ps mem keep arr = (mem', keep', arr')"
  obtains new es where "mem' = mem @ new" "arr' = arr @ es" "length es = length ps"
    "keep' = keep @ [length mem..<length mem']"
    "\<And>rest. read_headers (mem' @ rest) es = map (\<lambda>(n, v). (c_text (latin1 n), c_text (latin1 v))) ps"
    "\<And>n v. (n, v) \<in> set es \<Longrightarrow> {n, v} \<subseteq> Some ` {length mem..<length mem'}"
  using assms
proof (induction ps mem keep arr arbitrary: thesis rule: put_headers.induct)
  case (1 mem keep arr)
  show ?case by (rule 1(1) [of "[]" "[]"]) (use 1(2) in simp_all)
next
  case (2 name v ps mem keep arr)
  let ?n = "length mem"
  let ?mem = "mem @ [CString (latin1 name), CString (latin1 v)]"
  have step: "put_headers ps ?mem (keep @ [?n, ?n + 1]) (arr @ [(Some ?n, Some (?n + 1))]) =
    (mem', keep', arr')"
    using 2(3) by (simp add: Let_def)
  obtain new es where m: "mem' = ?mem @ new" and a: "arr' = (arr @ [(Some ?n, Some (?n + 1))]) @ es"
    and l: "length es = length ps" and k: "keep' = (keep @ [?n, ?n + 1]) @ [length ?mem..<length mem']"
    and r: "\<And>rest. read_headers (mem' @ rest) es = map (\<lambda>(n, v). (c_text (latin1 n), c_text (latin1 v))) ps"
    and s: "\<And>n v. (n, v) \<in> set es \<Longrightarrow> {n, v} \<subseteq> Some ` {length ?mem..<length mem'}"
    by (rule 2(1) [OF refl _ step]) blast
  have "length mem' = ?n + 2 + length new" by (simp add: m)
  then have two: "[?n, ?n + 1] @ [?n + 2..<length mem'] = [?n..<length mem']"
    by (simp only: upt_two)
  have here: "read_string (mem' @ rest) (Some ?n) = c_text (latin1 name)"
    "read_string (mem' @ rest) (Some (?n + 1)) = c_text (latin1 v)" for rest
    by (simp_all add: m read_string_def load_def nth_append)
  show ?case
  proof (rule 2(2))
    show "mem' = mem @ [CString (latin1 name), CString (latin1 v)] @ new" by (simp add: m)
    show "arr' = arr @ (Some ?n, Some (?n + 1)) # es" by (simp add: a)
    show "length ((Some ?n, Some (?n + 1)) # es) = length ((name, v) # ps)" by (simp add: l)
    show "keep' = keep @ [?n..<length mem']" using k two by simp
    show "read_headers (mem' @ rest) ((Some ?n, Some (?n + 1)) # es) =
        map (\<lambda>(n, v). (c_text (latin1 n), c_text (latin1 v))) ((name, v) # ps)" for rest
      using here r by simp
    show "{n, w} \<subseteq> Some ` {?n..<length mem'}"
      if "(n, w) \<in> set ((Some ?n, Some (?n + 1)) # es)" for n w
      using that s [of n w] by (auto simp: m)
  qed
qed

lemma attach_headers_spec:
  assumes "attach_headers ps (req, mem, keep) = (req', mem', keep')" and "length ps < 2 ^ 64"
    and "q_headers req = None"
  obtains new where "mem' = mem @ new" "keep' = keep @ [length mem..<length mem']"
    "\<exists>p n. req' = req\<lparr>q_headers := p, q_header_count := n\<rparr> \<and> (p = None \<or> p \<in> Some ` {length mem..<length mem'})"
    "\<And>rest. read_headers (mem' @ rest) (header_array (mem' @ rest) req') =
       map (\<lambda>(n, v). (c_text (latin1 n), c_text (latin1 v))) ps"
    "\<And>rest n v. (n, v) \<in> set (header_array (mem' @ rest) req') \<Longrightarrow>
       {n, v} \<subseteq> Some ` {length mem..<length mem'}"
proof (cases "ps = []")
  case True
  have "req\<lparr>q_headers := q_headers req, q_header_count := q_header_count req\<rparr> = req" by simp
  then have "\<exists>p n. req = req\<lparr>q_headers := p, q_header_count := n\<rparr> \<and> (p = None \<or> p \<in> {})"
    using assms(3) by metis
  then show ?thesis
    using that [of "[]"] True assms(1,3) by (simp add: attach_headers_def header_array_def)
next
  case False
  obtain mem1 keep1 arr where put: "put_headers ps mem keep [] = (mem1, keep1, arr)"
    by (metis prod_cases3)
  from put obtain new es where m: "mem1 = mem @ new" and a: "arr = es" and l: "length es = length ps"
    and k: "keep1 = keep @ [length mem..<length mem1]"
    and r: "\<And>rest. read_headers (mem1 @ rest) es = map (\<lambda>(n, v). (c_text (latin1 n), c_text (latin1 v))) ps"
    and s: "\<And>n v. (n, v) \<in> set es \<Longrightarrow> {n, v} \<subseteq> Some ` {length mem..<length mem1}"
    by (rule put_headers_spec) auto
  have out: "req' = req\<lparr>q_headers := Some (length mem1), q_header_count := of_nat (length ps)\<rparr>"
    "mem' = mem1 @ [CHeaders arr]" "keep' = keep1 @ [length mem1]"
    using assms(1) False put by (simp_all add: attach_headers_def)
  have arr: "header_array (mem' @ rest) req' = es" for rest
    using assms(2) by (simp add: header_array_def out a l unat_of_nat take_bit_nat_eq_self)
  show ?thesis
  proof (rule that)
    show "mem' = mem @ new @ [CHeaders arr]" by (simp add: out m)
    show "keep' = keep @ [length mem..<length mem']" by (simp add: out k m)
    show "\<exists>p n. req' = req\<lparr>q_headers := p, q_header_count := n\<rparr> \<and>
        (p = None \<or> p \<in> Some ` {length mem..<length mem'})"
      using out by (intro exI conjI disjI2) (auto simp: m)
    show "read_headers (mem' @ rest) (header_array (mem' @ rest) req') =
        map (\<lambda>(n, v). (c_text (latin1 n), c_text (latin1 v))) ps" for rest
      using r [of "CHeaders arr # rest"] by (simp add: arr) (simp add: out)
    show "{n, v} \<subseteq> Some ` {length mem..<length mem'}"
      if "(n, v) \<in> set (header_array (mem' @ rest) req')" for rest n v
    proof -
      have "(n, v) \<in> set es" using that by (simp only: arr)
      from s [OF this] show ?thesis by (auto simp: out)
    qed
  qed
qed

lemma attach_body_spec:
  assumes "attach_body b (req, mem, keep) = (req', mem', keep')" and "length b < 2 ^ 64"
    and "q_body req = None"
  obtains new where "mem' = mem @ new" "keep' = keep @ [length mem..<length mem']"
    "\<exists>p n. req' = req\<lparr>q_body := p, q_body_size := n\<rparr> \<and> (p = None \<or> p \<in> Some ` {length mem..<length mem'})"
    "request_body mem' req' = b"
proof (cases "b = []")
  case True
  have "req\<lparr>q_body := q_body req, q_body_size := q_body_size req\<rparr> = req" by simp
  then have "\<exists>p n. req = req\<lparr>q_body := p, q_body_size := n\<rparr> \<and> (p = None \<or> p \<in> {})"
    using assms(3) by metis
  then show ?thesis
    using that [of "[]"] True assms(1,3) by (simp add: attach_body_def request_body_def)
next
  case False
  then have out: "req' = req\<lparr>q_body := Some (length mem), q_body_size := of_nat (length b)\<rparr>"
    "mem' = mem @ [CBytes b]" "keep' = keep @ [length mem]"
    using assms(1) by (simp_all add: attach_body_def)
  show ?thesis
  proof (rule that)
    show "mem' = mem @ [CBytes b]" by (simp add: out)
    show "keep' = keep @ [length mem..<length mem']" by (simp add: out)
    show "\<exists>p n. req' = req\<lparr>q_body := p, q_body_size := n\<rparr> \<and>
        (p = None \<or> p \<in> Some ` {length mem..<length mem'})"
      using out by (intro exI conjI disjI2) auto
    show "request_body mem' req' = b"
      using assms(2) by (simp add: request_body_def out unat_of_nat take_bit_nat_eq_self)
  qed
qed

lemma read_string_append: "a < length mem \<Longrightarrow> read_string (mem @ rest) (Some a) = read_string mem (Some a)"
  by (simp add: read_string_def load_append)

lemma request_read:
  assumes "build_request cs = (req, mem, keep)"
    and "length (call_headers cs) < 2 ^ 64" and "length (call_body cs) < 2 ^ 64"
  shows "request_spec mem req = Some \<lparr>
      spec_url = c_text (utf8_string (call_url cs)),
      spec_method =
        (let m = c_text (upper_utf8 (call_method cs)) in if m = [] then latin1 ''GET'' else m),
      spec_priority = to_request_priority (of_int (call_priority cs)),
      spec_max_redirects = sint (of_int (call_max_redirects cs) :: 32 word),
      spec_headers = map (\<lambda>(n, v). (c_text (latin1 n), c_text (latin1 v))) (call_headers cs),
      spec_body = call_body cs,
      spec_disable_cache = call_disable_cache cs\<rparr>"
    and "set (request_pointers mem req) - {None} \<subseteq> Some ` set keep"
proof -
  let ?mem0 = "[CString (upper_utf8 (call_method cs)), CString (utf8_string (call_url cs))]"
  let ?req0 = "request_init\<lparr>q_method := Some 0, q_url := Some 1\<rparr>"
  obtain req1 mem1 keep1 where one: "attach_headers (call_headers cs) (?req0, ?mem0, [0, 1]) =
      (req1, mem1, keep1)" by (metis prod_cases3)
  obtain req2 mem2 keep2 where two: "attach_body (call_body cs) (req1, mem1, keep1) = (req2, mem2, keep2)"
    by (metis prod_cases3)
  have out: "req = req2\<lparr>q_priority := of_int (call_priority cs), q_max_redirects := of_int (call_max_redirects cs),
      q_disable_cache := (if call_disable_cache cs then 1 else 0)\<rparr>" "mem = mem2" "keep = keep2"
    using assms(1) one two by (simp_all add: build_request_def)
  have "q_headers ?req0 = None" by (simp add: request_init_def)
  from one assms(2) this obtain new1 p1 n1 where m1: "mem1 = ?mem0 @ new1"
    and k1: "keep1 = [0, 1] @ [length ?mem0..<length mem1]"
    and r1: "req1 = ?req0\<lparr>q_headers := p1, q_header_count := n1\<rparr>"
    and p1: "p1 = None \<or> p1 \<in> Some ` {length ?mem0..<length mem1}"
    and h1: "\<And>rest. read_headers (mem1 @ rest) (header_array (mem1 @ rest) req1) =
       map (\<lambda>(n, v). (c_text (latin1 n), c_text (latin1 v))) (call_headers cs)"
    and a1: "\<And>rest n v. (n, v) \<in> set (header_array (mem1 @ rest) req1) \<Longrightarrow>
       {n, v} \<subseteq> Some ` {length ?mem0..<length mem1}"
    by (rule attach_headers_spec) blast
  have "q_body req1 = None" by (simp add: r1 request_init_def)
  from two assms(3) this obtain new2 p2 n2 where m2: "mem2 = mem1 @ new2"
    and k2: "keep2 = keep1 @ [length mem1..<length mem2]"
    and r2: "req2 = req1\<lparr>q_body := p2, q_body_size := n2\<rparr>"
    and p2: "p2 = None \<or> p2 \<in> Some ` {length mem1..<length mem2}"
    and b2: "request_body mem2 req2 = call_body cs"
    by (rule attach_body_spec) blast
  have same: "q_headers req = q_headers req1" "q_header_count req = q_header_count req1"
    by (cases req1; simp add: out r2)+
  have arr: "header_array mem req = header_array (mem1 @ new2) req1"
    unfolding header_array_def same by (simp add: out m2)
  have texts: "read_string mem (Some 0) = c_text (upper_utf8 (call_method cs))"
    "read_string mem (Some 1) = c_text (utf8_string (call_url cs))"
    by (simp_all add: out m2 m1 read_string_def load_def nth_append)
  have heads: "read_headers mem (header_array mem req) =
      map (\<lambda>(n, v). (c_text (latin1 n), c_text (latin1 v))) (call_headers cs)"
    unfolding arr using h1 [of new2] by (simp add: out m2)
  have rest: "q_body req = q_body req2" "q_body_size req = q_body_size req2" "mem = mem2"
    by (simp_all add: out)
  have body: "request_body mem req = call_body cs"
    using b2 unfolding request_body_def rest .
  have spec: "q_url req = Some 1" "q_method req = Some 0" "q_priority req = of_int (call_priority cs)"
    "q_max_redirects req = of_int (call_max_redirects cs)"
    "(q_disable_cache req \<noteq> 0) = call_disable_cache cs" "q_headers req = p1" "q_body req = p2"
    by (simp_all add: out r2 r1)
  have len: "2 \<le> length mem1" "length mem1 \<le> length mem2" by (simp_all add: m1 m2)
  have keep: "set keep = {0..<length mem2}" using len by (auto simp: out k2 k1)
  have "Some ` {length mem1..<length mem2} \<subseteq> Some ` set keep"
    "Some ` {length ?mem0..<length mem1} \<subseteq> Some ` set keep" "{Some 0, Some 1} \<subseteq> Some ` set keep"
    using len by (auto simp: keep image_iff)
  then show "set (request_pointers mem req) - {None} \<subseteq> Some ` set keep"
    using p1 p2 a1 [of _ _ new2] by (fastforce simp: request_pointers_def spec arr)
  show "request_spec mem req = Some \<lparr>
      spec_url = c_text (utf8_string (call_url cs)),
      spec_method =
        (let m = c_text (upper_utf8 (call_method cs)) in if m = [] then latin1 ''GET'' else m),
      spec_priority = to_request_priority (of_int (call_priority cs)),
      spec_max_redirects = sint (of_int (call_max_redirects cs) :: 32 word),
      spec_headers = map (\<lambda>(n, v). (c_text (latin1 n), c_text (latin1 v))) (call_headers cs),
      spec_body = call_body cs,
      spec_disable_cache = call_disable_cache cs\<rparr>"
    using texts by (simp add: request_spec_def spec heads body Let_def)
qed

text \<open>C14. A request crosses the C boundary intact: what the library reads through the struct's pointers
  is the call's method (or GET for an empty one) and URL as UTF-8, every header in order as
  latin-1, the body to the byte, and the priority and the redirect limit at 32 bits (a text
  ends at its first zero byte); and every buffer it reads is one the bridge keeps alive.\<close>

theorem request_crosses:
  assumes "build_request cs = (req, mem, keep)"
    and "length (call_headers cs) < 2 ^ 64" and "length (call_body cs) < 2 ^ 64"
  shows "request_spec mem req = Some \<lparr>
      spec_url = c_text (utf8_string (call_url cs)),
      spec_method =
        (let m = c_text (upper_utf8 (call_method cs)) in if m = [] then latin1 ''GET'' else m),
      spec_priority = to_request_priority (of_int (call_priority cs)),
      spec_max_redirects = sint (of_int (call_max_redirects cs) :: 32 word),
      spec_headers = map (\<lambda>(n, v). (c_text (latin1 n), c_text (latin1 v))) (call_headers cs),
      spec_body = call_body cs,
      spec_disable_cache = call_disable_cache cs\<rparr> \<and>
    set (request_pointers mem req) - {None} \<subseteq> Some ` set keep"
  using request_read [OF assms] by simp

theorem request_crosses_witness:
  "case build_request (plain_call no_options [(''X-A'', ''1'')] []) of (req, mem, keep) \<Rightarrow>
     request_spec mem req = Some \<lparr>
      spec_url = c_text (utf8_string ''https://h/''),
      spec_method = (let m = c_text (upper_utf8 ''GET'') in if m = [] then latin1 ''GET'' else m),
      spec_priority = to_request_priority (of_int 4),
      spec_max_redirects = sint (of_int 0 :: 32 word),
      spec_headers = map (\<lambda>(n, v). (c_text (latin1 n), c_text (latin1 v)))
        (header_items (merged_headers no_options (Headers [(''X-A'', ''1'')]))),
      spec_body = [],
      spec_disable_cache = False\<rparr> \<and>
    set (request_pointers mem req) - {None} \<subseteq> Some ` set keep"
proof -
  obtain req mem keep where b: "build_request (plain_call no_options [(''X-A'', ''1'')] []) = (req, mem, keep)"
    by (metis prod_cases3)
  have call: "call_headers (plain_call no_options [(''X-A'', ''1'')] []) =
      header_items (merged_headers no_options (Headers [(''X-A'', ''1'')]))"
    "call_body (plain_call no_options [(''X-A'', ''1'')] []) = []"
    "call_method (plain_call no_options [(''X-A'', ''1'')] []) = ''GET''"
    "call_url (plain_call no_options [(''X-A'', ''1'')] []) = ''https://h/''"
    "call_priority (plain_call no_options [(''X-A'', ''1'')] []) = 4"
    "call_max_redirects (plain_call no_options [(''X-A'', ''1'')] []) = 0"
    "\<not> call_disable_cache (plain_call no_options [(''X-A'', ''1'')] [])"
    by (simp_all add: plain_call_def)
  have "length (header_items (merged_headers no_options (Headers [(''X-A'', ''1'')]))) = 1"
    by code_simp
  then have "length (call_headers (plain_call no_options [(''X-A'', ''1'')] [])) < 2 ^ 64"
    "length (call_body (plain_call no_options [(''X-A'', ''1'')] [])) < 2 ^ 64"
    by (simp_all only: call) simp_all
  from request_crosses [OF b this] show ?thesis
    unfolding b prod.case call(1-6) by (simp only: call(7))
qed

section \<open>The engine's configuration\<close>

record engine_settings =
  set_user_agent :: ustr
  set_accept_language :: ustr
  set_experimental_options :: ustr
  set_storage_path :: ustr
  set_proxy_rules :: ustr
  set_proxy_bypass_rules :: ustr
  set_proxy_username :: ustr
  set_proxy_password :: ustr
  set_quic_hints :: "(ustr \<times> int) list"
  set_enable_quic :: bool
  set_enable_http2 :: bool
  set_enable_brotli :: bool
  set_cache_mode :: int
  set_cache_max_bytes :: int

record c_engine_config =
  g_strings :: "nat option list"
  g_quic_hints :: "nat option"
  g_quic_hint_count :: "64 word"
  g_enable_quic :: "32 word"
  g_enable_http2 :: "32 word"
  g_enable_brotli :: "32 word"
  g_cache_mode :: "32 word"
  g_cache_max_bytes :: "64 word"

text \<open>The eight string fields are \<open>g_strings\<close>, in the order of the struct.\<close>

definition setting_strings :: "engine_settings \<Rightarrow> ustr list" where
  "setting_strings s =
     [set_user_agent s, set_accept_language s, set_experimental_options s, set_storage_path s,
      set_proxy_rules s, set_proxy_bypass_rules s, set_proxy_username s, set_proxy_password s]"

definition engine_config_init :: c_engine_config where
  "engine_config_init = \<lparr>g_strings = replicate 8 None, g_quic_hints = None, g_quic_hint_count = 0,
     g_enable_quic = 1, g_enable_http2 = 1, g_enable_brotli = 1, g_cache_mode = 0,
     g_cache_max_bytes = 0\<rparr>"

definition as_bytes :: "ustr \<Rightarrow> exn + bytes" where
  "as_bytes s = (if s \<noteq> [] then encode_text s else Inr [])"

definition flag :: "bool \<Rightarrow> 32 word" where
  "flag b = (if b then 1 else 0)"

lemma flag_set [simp]: "flag b \<noteq> 0 \<longleftrightarrow> b" "flag b = 0 \<longleftrightarrow> \<not> b"
  by (simp_all add: flag_def)

text \<open>The hints: one buffer for each host, and an array of hosts and ports.\<close>

fun put_hints ::
  "(ustr \<times> int) list \<Rightarrow> memory \<Rightarrow> (nat option \<times> 32 word \<times> 32 word) list \<Rightarrow>
    exn + (memory \<times> (nat option \<times> 32 word \<times> 32 word) list)" where
  "put_hints [] mem arr = Inr (mem, arr)"
| "put_hints ((host, port) # hs) mem arr =
     bindE (encode_text host) (\<lambda>b.
     put_hints hs (mem @ [CString b]) (arr @ [(Some (length mem), of_int port, of_int port)]))"

definition build_engine_config :: "engine_settings \<Rightarrow> exn + (c_engine_config \<times> memory \<times> nat list)" where
  "build_engine_config s =
     bindE (mapE as_bytes (setting_strings s)) (\<lambda>texts.
     let mem = map CString texts;
         config = engine_config_init\<lparr>g_strings := map Some [0..<length texts],
           g_enable_quic := flag (set_enable_quic s), g_enable_http2 := flag (set_enable_http2 s),
           g_enable_brotli := flag (set_enable_brotli s), g_cache_mode := of_int (set_cache_mode s),
           g_cache_max_bytes := of_int (set_cache_max_bytes s)\<rparr> in
     if set_quic_hints s = [] then Inr (config, mem, [])
     else
       bindE (put_hints (set_quic_hints s) mem []) (\<lambda>(mem, arr).
       Inr (config\<lparr>g_quic_hints := Some (length mem),
              g_quic_hint_count := of_nat (length (set_quic_hints s))\<rparr>,
            mem @ [CHints arr], [length mem])))"

record engine_spec =
  es_strings :: "bytes list"
  es_quic :: bool
  es_http2 :: bool
  es_brotli :: bool
  es_cache_mode :: int
  es_cache_max_bytes :: int
  es_hints :: "(bytes \<times> int \<times> int) list"

definition hint_port :: "32 word \<Rightarrow> int" where
  "hint_port p = (if 0 < sint p then sint p else 443)"

fun read_hints :: "memory \<Rightarrow> (nat option \<times> 32 word \<times> 32 word) list \<Rightarrow> (bytes \<times> int \<times> int) list" where
  "read_hints mem [] = []"
| "read_hints mem ((host, port, alt) # hs) =
     (if host = None then read_hints mem hs
      else (read_string mem host, hint_port port, hint_port alt) # read_hints mem hs)"

definition hint_array :: "memory \<Rightarrow> c_engine_config \<Rightarrow> (nat option \<times> 32 word \<times> 32 word) list" where
  "hint_array mem config =
     (case load mem (g_quic_hints config) of
        Some (CHints arr) \<Rightarrow> take (unat (g_quic_hint_count config)) arr
      | _ \<Rightarrow> [])"

definition engine_spec :: "memory \<Rightarrow> c_engine_config \<Rightarrow> engine_spec" where
  "engine_spec mem config = \<lparr>
     es_strings = map (read_string mem) (g_strings config),
     es_quic = (g_enable_quic config \<noteq> 0), es_http2 = (g_enable_http2 config \<noteq> 0),
     es_brotli = (g_enable_brotli config \<noteq> 0), es_cache_mode = sint (g_cache_mode config),
     es_cache_max_bytes = sint (g_cache_max_bytes config),
     es_hints = read_hints mem (hint_array mem config)\<rparr>"

lemma as_bytes_encode: "as_bytes s = encode_text s"
  by (simp add: as_bytes_def encode_text_def)

lemma put_hints_spec:
  assumes "put_hints hs mem arr = Inr (mem', arr')"
  shows "\<exists>new es. mem' = mem @ new \<and> arr' = arr @ es \<and> length es = length hs \<and>
    (\<forall>rest. list_all2 (\<lambda>(host, port) (b, p, q). \<exists>u. encode_text host = Inr u \<and> b = c_text u \<and>
        p = hint_port (of_int port) \<and> q = p) hs (read_hints (mem' @ rest) es))"
  using assms
proof (induction hs mem arr rule: put_hints.induct)
  case (2 host port hs mem arr)
  from 2(2) obtain b where b: "encode_text host = Inr b"
    and step: "put_hints hs (mem @ [CString b]) (arr @ [(Some (length mem), of_int port, of_int port)]) =
      Inr (mem', arr')"
    by (auto simp: bindE_eq_Inr)
  from 2(1) [OF step] obtain new es where m: "mem' = (mem @ [CString b]) @ new"
    and a: "arr' = (arr @ [(Some (length mem), of_int port, of_int port)]) @ es"
    and l: "length es = length hs"
    and r: "\<forall>rest. list_all2 (\<lambda>(host, port) (b, p, q). \<exists>u. encode_text host = Inr u \<and> b = c_text u \<and>
        p = hint_port (of_int port) \<and> q = p) hs (read_hints (mem' @ rest) es)" by blast
  have "read_string (mem' @ rest) (Some (length mem)) = c_text b" for rest
    by (simp add: m read_string_def load_def nth_append)
  with r b show ?case
    by (intro exI [of _ "CString b # new"] exI [of _ "(Some (length mem), of_int port, of_int port) # es"])
      (simp add: m a l)
qed simp

lemma texts_cross:
  assumes "mapE as_bytes ts = Inr bs"
  shows "list_all2 (\<lambda>t b. \<exists>u. encode_text t = Inr u \<and> b = c_text u) ts
    (map (read_string (map CString bs @ rest)) (map Some [0..<length bs]))"
proof -
  have "list_all2 (\<lambda>t u. encode_text t = Inr u) ts bs"
    using assms by (simp add: mapE_Inr_iff as_bytes_encode)
  moreover have "read_string (map CString bs @ rest) (Some i) = c_text (bs ! i)" if "i < length bs" for i
    using that by (simp add: read_string_def load_def nth_append)
  ultimately show ?thesis by (auto simp: list_all2_conv_all_nth)
qed

text \<open>What the library makes of the settings: the texts, the switches and the hints they describe.\<close>

definition same_engine :: "engine_settings \<Rightarrow> engine_spec \<Rightarrow> bool" where
  "same_engine s e \<longleftrightarrow>
     list_all2 (\<lambda>t b. \<exists>u. encode_text t = Inr u \<and> b = c_text u) (setting_strings s) (es_strings e) \<and>
     es_quic e = set_enable_quic s \<and> es_http2 e = set_enable_http2 s \<and>
     es_brotli e = set_enable_brotli s \<and>
     es_cache_mode e = sint (of_int (set_cache_mode s) :: 32 word) \<and>
     es_cache_max_bytes e = sint (of_int (set_cache_max_bytes s) :: 64 word) \<and>
     list_all2 (\<lambda>(host, port) (b, p, q). \<exists>u. encode_text host = Inr u \<and> b = c_text u \<and>
        p = hint_port (of_int port) \<and> q = p) (set_quic_hints s) (es_hints e)"

lemma encode_text_refused: "encode_text t = Inl e \<Longrightarrow> \<not> list_all scalar t"
  using utf8_defined [of t] by (auto simp: encode_text_def split: option.splits)

lemma texts_refused:
  assumes "mapE as_bytes ts = Inl e"
  shows "\<not> list_all (list_all scalar) ts"
  using assms
proof (induction ts)
  case (Cons t ts)
  then show ?case
    by (cases "as_bytes t") (auto simp: as_bytes_encode bindE_eq_Inl dest: encode_text_refused)
qed simp

lemma hints_refused:
  assumes "put_hints hs mem arr = Inl e"
  shows "\<not> list_all (\<lambda>h. list_all scalar (fst h)) hs"
  using assms
proof (induction hs mem arr rule: put_hints.induct)
  case (2 host port hs mem arr)
  then show ?case by (cases "encode_text host") (auto dest: encode_text_refused)
qed simp



section \<open>The response\<close>

text \<open>
  \<open>_read_response\<close>. The library's view is \<open>call_response\<close> of the theory NativeCall; a null pointer
  is \<open>None\<close>. Fields are decoded in the order of the code: the headers first, then the proxy, and the
  others as the dataclass is built.
\<close>

definition c_field :: "bytes option \<Rightarrow> bytes" where
  "c_field p = (case p of None \<Rightarrow> [] | Some b \<Rightarrow> c_text b)"

definition decoded :: "bytes option \<Rightarrow> exn + ustr" where
  "decoded p = (case decode_strict (c_field p) of None \<Rightarrow> Inl UnicodeDecodeError | Some t \<Rightarrow> Inr t)"

definition proxy_name :: "ustr \<Rightarrow> ustr" where
  "proxy_name p = (if p \<in> {[], cps '':0'', cps ''direct://''} then cps ''direct'' else p)"

definition read_response :: "c_response option \<Rightarrow> string \<Rightarrow> exn + raw_response" where
  "read_response view url =
     (case view of
        None \<Rightarrow> Inl (RequestFailed RequestError (cps ''the call has not finished'') 0 url)
      | Some raw \<Rightarrow>
          if cr_error_code raw \<noteq> 0 then
            Inl (error_for (sint (cr_error_code raw)) (decode_replace (c_field (cr_error_message raw))) url)
          else
            let hs = map (\<lambda>(n, v). (of_latin1 (c_text n), of_latin1 (c_text v))) (cr_headers raw) in
            bindE (decoded (cr_proxy_server raw)) (\<lambda>proxy.
            bindE (decoded (cr_final_url raw)) (\<lambda>final.
            bindE (decoded (cr_negotiated_protocol raw)) (\<lambda>protocol.
            Inr \<lparr>raw_status_code = sint (cr_status_code raw),
              raw_reason = of_latin1 (c_field (cr_status_text raw)), raw_headers = hs,
              raw_url = final, raw_http_version = protocol,
              raw_redirect_count = sint (cr_redirect_count raw),
              raw_from_cache = (cr_was_cached raw \<noteq> 0), raw_proxy = proxy_name proxy,
              raw_metrics = from_native (cr_metrics raw)\<rparr>))))"

text \<open>Once an outcome is claimed, nothing the network or the owner does changes what the owner reads.\<close>

inductive later :: "call_state \<Rightarrow> call_state \<Rightarrow> bool" where
  same: "later s s"
| canceled: "later s s' \<Longrightarrow> later s (on_canceled s')"
| destroyed: "later s s' \<Longrightarrow> later s (on_destroyed s')"
| metrics: "later s s' \<Longrightarrow> later s (set_metrics m s')"
| failed: "later s s' \<Longrightarrow> later s (on_error e msg s')"
| succeeded: "later s s' \<Longrightarrow> later s (on_succeeded s')"
| drained: "later s s' \<Longrightarrow> later s (drain_signals s')"
| cancelled: "later s s' \<Longrightarrow> later s (cancel s')"
| read: "later s s' \<Longrightarrow> later s (snd (call_read capacity s'))"

lemma read_view:
  "cs_claimed (reclaim s) = cs_claimed s" "cs_phase (reclaim s) = cs_phase s" "cs_view (reclaim s) = cs_view s"
  "cs_claimed (resume_if_low s) = cs_claimed s" "cs_phase (resume_if_low s) = cs_phase s"
  "cs_view (resume_if_low s) = cs_view s"
  using resume_facts(2) [of s] by (simp_all add: frame_def reclaim_def)

lemma call_read_view:
  "cs_claimed (snd (call_read n s)) = cs_claimed s" "cs_phase (snd (call_read n s)) = cs_phase s"
  "cs_view (snd (call_read n s)) = cs_view s"
  unfolding call_read_def Let_def by (simp_all add: read_view)

lemma finish_claimed: "cs_claimed s \<Longrightarrow> finish c m s = s"
  by (simp add: finish_def)

text \<open>A step that leaves the outcome of a finished call as it is.\<close>

definition keeps_outcome :: "call_state \<Rightarrow> call_state \<Rightarrow> bool" where
  "keeps_outcome s s' \<longleftrightarrow>
     cs_claimed s' = cs_claimed s \<and> cs_phase s' = cs_phase s \<and> cs_view s' = cs_view s"

lemma keeps_outcome_steps:
  "keeps_outcome s (destroy_request s)" "keeps_outcome s (drain_signals s)" "keeps_outcome s (cancel s)"
  "cs_phase s = Finished \<Longrightarrow> keeps_outcome s (set_metrics m s)"
  "keeps_outcome s (snd (call_read n s))"
  by (simp_all add: keeps_outcome_def owner_steps set_metrics_def call_read_view)

lemma keeps_outcome_callbacks:
  assumes "cs_claimed s"
  shows "keeps_outcome s (on_canceled s)" and "keeps_outcome s (on_destroyed s)"
    and "keeps_outcome s (on_error e msg s)" and "keeps_outcome s (on_succeeded s)"
  using assms
  using keeps_outcome_steps(1) [of s] keeps_outcome_steps(1) [of "s\<lparr>cs_reads := cs_reads s - 1\<rparr>"]
  by (simp_all add: on_canceled_def on_destroyed_def on_error_def on_succeeded_def finish_claimed
      keeps_outcome_def)

lemma later_view:
  assumes "later s s'" and "cs_claimed s" and "cs_phase s = Finished"
  shows "cs_claimed s' \<and> cs_phase s' = Finished \<and> cs_view s' = cs_view s"
  using assms
  by (induction rule: later.induct)
    (use keeps_outcome_steps keeps_outcome_callbacks in \<open>simp_all add: keeps_outcome_def\<close>)

lemma finished_view:
  assumes "\<not> cs_claimed s"
  shows "cr_error_code (cs_view (finish e msg s)) = of_int e"
    and "cr_error_message (cs_view (finish e msg s)) = Some msg"
    and "cs_claimed (finish e msg s)" and "cs_phase (finish e msg s) = Finished"
  using assms by (simp_all add: finish_def signal_progress_def)

lemma c_text_id: "0 \<notin> set b \<Longrightarrow> c_text b = b"
  unfolding c_text_def by (rule takeWhile_eq_all_conv [THEN iffD2]) auto

lemma sint_of_code: "- (2 ^ 31) \<le> e \<Longrightarrow> e < 2 ^ 31 \<Longrightarrow> sint (of_int e :: 32 word) = e"
  by (simp add: sint_sbintrunc' signed_take_bit_int_eq_self)

text \<open>C35. A failure reaches the caller as the exception of its Chromium code, with its message, and it is
  the first outcome that counts: whatever the network reports and the owner does afterwards, the
  same exception is raised.\<close>

theorem failure_reaches_caller:
  assumes "call_run u s rx tx" and "live s" and "e \<noteq> 0" and "- (2 ^ 31) \<le> e" and "e < 2 ^ 31"
    and "0 \<notin> set msg" and "later (on_error e msg s) s'"
  shows "read_response (call_response s') url = Inl (error_for e (decode_replace msg) url)"
proof -
  have open_call: "\<not> cs_claimed s" using assms(2) by (simp add: live_def)
  have end_state: "cs_claimed (on_error e msg s)" "cs_phase (on_error e msg s) = Finished"
    "cs_view (on_error e msg s) = cs_view (finish e msg s)"
    using finished_view(3,4) [OF open_call] by (simp_all add: on_error_def destroy_request_def)
  from later_view [OF assms(7) end_state(1,2)] end_state(3)
  have view: "call_response s' = Some (cs_view (finish e msg s))" by (simp add: call_response_def)
  have code: "sint (of_int e :: 32 word) = e" using assms(4,5) by (rule sint_of_code)
  with assms(3) have "of_int e \<noteq> (0 :: 32 word)" by auto
  then show ?thesis
    using code finished_view(1,2) [OF open_call] c_text_id [OF assms(6)]
    by (simp add: read_response_def view c_field_def)
qed

theorem failure_reaches_caller_witness:
  "read_response (call_response (on_destroyed (on_error (- 105) [33] sample_half))) ''https://h/'' =
     Inl (error_for (- 105) (decode_replace [33]) ''https://h/'')"
proof (rule failure_reaches_caller [OF sample_half_run])
  show "live sample_half" by (simp add: sample_defs)
  show "later (on_error (- 105) [33] sample_half) (on_destroyed (on_error (- 105) [33] sample_half))"
    by (intro later.intros)
qed simp_all

text \<open>A call without an outcome has no error code.\<close>

definition no_code :: "call_state \<Rightarrow> bool" where
  "no_code s \<longleftrightarrow> cs_claimed s \<or> cr_error_code (cs_view s) = 0"

lemma no_code_steps:
  "no_code (read_data s) = no_code s" "no_code (signal_progress s) = no_code s"
  "no_code (drain_signals s) = no_code s" "no_code (destroy_request s) = no_code s"
  "no_code (cancel s) = no_code s" "no_code (set_redirect_count n s) = no_code s"
  "no_code s \<Longrightarrow> no_code (set_metrics m s)" "no_code (on_response r s) = no_code s"
  "no_code (finish e msg s)" "no_code (snd (call_read k s)) = no_code s"
  by (simp_all add: no_code_def owner_steps set_redirect_count_def set_metrics_def on_response_def
      publish_def finish_def call_read_view)

lemma call_run_no_code: "call_run url s rx tx \<Longrightarrow> no_code s"
proof (induction rule: call_run.induct)
  case (owner_read s rx tx capacity p s')
  then show ?case using no_code_steps(10) [of capacity s] by simp
next
  case (read_completed s rx tx d)
  then show ?case
    by (simp add: on_read_completed_def on_data_def Let_def no_code_steps)
      (simp add: no_code_def)
qed (simp_all add: no_code_steps on_followed_redirect_def on_redirect_limit_def on_response_started_def
    on_succeeded_def on_error_def on_canceled_def on_destroyed_def,
  simp_all add: no_code_def fresh_call_def zero_response_def finish_def signal_progress_def)



end
