(* ===== verification/Bridge.thy ===== *)
theory Bridge
  imports Marshal
begin

text \<open>
  Waiting for a call and streaming its body: \<open>Call\<close> of \<open>src/cronet/_bridge.py\<close>. The functions of the
  C ABI a \<open>Call\<close> uses are a record of operations, \<open>call_lib\<close>, over an abstract native call, and
  \<open>native_lib\<close> is that record for the model of the theory NativeCall.

  Time passes in ticks. Before every operation of the owner the network acts: \<open>net E k s\<close> is the
  call after what Chromium did before the owner's \<open>k\<close>-th operation, and \<open>clock E k\<close> what
  \<open>time.monotonic\<close> would then say, in milliseconds. A loop takes fuel, and \<open>None\<close> means only that the
  fuel ran out; that enough fuel exists is proved.

  The locale \<open>body_source\<close> is what a streaming reader relies on. It is interpreted on \<open>native_lib\<close>.
\<close>

record 's call_lib =
  lib_read :: "nat \<Rightarrow> 's \<Rightarrow> read_result \<times> 's"
  lib_state :: "'s \<Rightarrow> phase"
  lib_drain :: "'s \<Rightarrow> 's"
  lib_readable :: "'s \<Rightarrow> bool"
  lib_cancel :: "'s \<Rightarrow> 's"
  lib_response :: "'s \<Rightarrow> c_response option"

record 's env =
  net :: "nat \<Rightarrow> 's \<Rightarrow> 's"
  clock :: "nat \<Rightarrow> rat"

definition native_lib :: "call_state call_lib" where
  "native_lib = \<lparr>lib_read = call_read, lib_state = cs_phase, lib_drain = drain_signals,
     lib_readable = (\<lambda>s. 0 < cs_signals s), lib_cancel = cancel, lib_response = call_response\<rparr>"

definition CHUNK_SIZE :: nat where
  "CHUNK_SIZE = 64 * 1024"

section \<open>One operation of the owner\<close>

type_synonym 's world = "nat \<times> 's"

definition act :: "'s env \<Rightarrow> ('s \<Rightarrow> 'a \<times> 's) \<Rightarrow> 's world \<Rightarrow> 'a \<times> 's world" where
  "act E f w = (case f (net E (fst w) (snd w)) of (a, s) \<Rightarrow> (a, (Suc (fst w), s)))"

text \<open>\<open>Call.read\<close>: \<open>None\<close> is the end of the body.\<close>

definition piece :: "'s call_lib \<Rightarrow> 's \<Rightarrow> bytes option \<times> 's" where
  "piece lib s =
     (case lib_read lib CHUNK_SIZE s of
        (ReadEOF, s') \<Rightarrow> (None, s')
      | (ReadBytes b, s') \<Rightarrow> (Some b, s'))"

definition drain :: "'s call_lib \<Rightarrow> 's env \<Rightarrow> 's world \<Rightarrow> 's world" where
  "drain lib E w = snd (act E (\<lambda>s. ((), lib_drain lib s)) w)"

definition state_of :: "'s call_lib \<Rightarrow> 's env \<Rightarrow> 's world \<Rightarrow> phase \<times> 's world" where
  "state_of lib E w = act E (\<lambda>s. (lib_state lib s, s)) w"

text \<open>
  \<open>_countdown\<close>: the deadline is fixed when the first round asks, and every round reads the clock.
  A timeout that is negative never runs out and hands on -1.
\<close>

definition now :: "'s env \<Rightarrow> 's world \<Rightarrow> rat \<times> 's world" where
  "now E w = act E (\<lambda>s. (clock E (fst w), s)) w"

definition start_countdown :: "int \<Rightarrow> 's env \<Rightarrow> 's world \<Rightarrow> rat option \<times> 's world" where
  "start_countdown timeout_ms E w =
     (if timeout_ms < 0 then (None, w)
      else (case now E w of (t, w) \<Rightarrow> (Some (t + of_int timeout_ms), w)))"

definition truncated :: "rat \<Rightarrow> int" where
  "truncated x = (if x < 0 then - \<lfloor>- x\<rfloor> else \<lfloor>x\<rfloor>)"

definition countdown :: "rat option \<Rightarrow> 's env \<Rightarrow> 's world \<Rightarrow> int option \<times> 's world" where
  "countdown deadline E w =
     (case deadline of
        None \<Rightarrow> (Some (-1), w)
      | Some d \<Rightarrow>
          (case now E w of (t, w) \<Rightarrow>
             (let remaining = truncated (d - t) in (if remaining \<le> 0 then None else Some remaining, w))))"

text \<open>\<open>poll\<close>: it returns once the descriptor is readable, or once the time is up.\<close>

fun poll :: "nat \<Rightarrow> 's call_lib \<Rightarrow> 's env \<Rightarrow> rat option \<Rightarrow> 's world \<Rightarrow> (bool \<times> 's world) option" where
  "poll 0 lib E limit w = None"
| "poll (Suc fuel) lib E limit w =
     (case act E (\<lambda>s. (lib_readable lib s, s)) w of (ready, w') \<Rightarrow>
        if ready then Some (True, w')
        else
          (case limit of
             Some t \<Rightarrow> if t \<le> clock E (fst w) then Some (False, w') else poll fuel lib E limit w'
           | None \<Rightarrow> poll fuel lib E limit w'))"

definition wait_for_progress ::
  "nat \<Rightarrow> 's call_lib \<Rightarrow> 's env \<Rightarrow> int \<Rightarrow> 's world \<Rightarrow> (bool \<times> 's world) option" where
  "wait_for_progress fuel lib E timeout_ms w =
     poll fuel lib E (if timeout_ms < 0 then None else Some (clock E (fst w) + of_int timeout_ms)) w"

section \<open>Waiting for the headers\<close>

fun headers_loop ::
  "nat \<Rightarrow> 's call_lib \<Rightarrow> 's env \<Rightarrow> rat option \<Rightarrow> 's world \<Rightarrow> (bool \<times> 's world) option" where
  "headers_loop 0 lib E deadline w = None"
| "headers_loop (Suc fuel) lib E deadline w =
     (case countdown deadline E w of
        (None, w) \<Rightarrow> (case state_of lib E w of (p, w) \<Rightarrow> Some (p \<noteq> Started, w))
      | (Some remaining, w) \<Rightarrow>
          (case state_of lib E (drain lib E w) of (p, w) \<Rightarrow>
             if p \<noteq> Started then Some (True, w)
             else
               (case wait_for_progress fuel lib E remaining w of
                  None \<Rightarrow> None
                | Some (ready, w) \<Rightarrow>
                    if ready then headers_loop fuel lib E deadline w else Some (False, w))))"

definition wait_for_headers ::
  "nat \<Rightarrow> 's call_lib \<Rightarrow> 's env \<Rightarrow> int \<Rightarrow> 's world \<Rightarrow> (bool \<times> 's world) option" where
  "wait_for_headers fuel lib E timeout_ms w =
     (case start_countdown timeout_ms E w of (deadline, w) \<Rightarrow> headers_loop fuel lib E deadline w)"

section \<open>Streaming the body\<close>

text \<open>The inner loop: every piece there is, and whether the end was reached.\<close>

fun take_pieces ::
  "nat \<Rightarrow> 's call_lib \<Rightarrow> 's env \<Rightarrow> 's world \<Rightarrow> (bytes list \<times> bool \<times> 's world) option" where
  "take_pieces 0 lib E w = None"
| "take_pieces (Suc fuel) lib E w =
     (case act E (piece lib) w of
        (None, w) \<Rightarrow> Some ([], True, w)
      | (Some b, w) \<Rightarrow>
          if b = [] then Some ([], False, w)
          else
            (case take_pieces fuel lib E w of
               None \<Rightarrow> None
             | Some (ps, ended, w) \<Rightarrow> Some (b # ps, ended, w)))"

datatype body_end = Ended | TimedOut

fun body_loop ::
  "nat \<Rightarrow> 's call_lib \<Rightarrow> 's env \<Rightarrow> rat option \<Rightarrow> 's world \<Rightarrow> (bytes list \<times> body_end \<times> 's world) option" where
  "body_loop 0 lib E deadline w = None"
| "body_loop (Suc fuel) lib E deadline w =
     (case countdown deadline E w of
        (None, w) \<Rightarrow> Some ([], TimedOut, w)
      | (Some remaining, w) \<Rightarrow>
          (case take_pieces fuel lib E (drain lib E w) of
             None \<Rightarrow> None
           | Some (ps, ended, w) \<Rightarrow>
               if ended then Some (ps, Ended, w)
               else
                 (case wait_for_progress fuel lib E remaining w of
                    None \<Rightarrow> None
                  | Some (ready, w) \<Rightarrow>
                      if ready then
                        (case body_loop fuel lib E deadline w of
                           None \<Rightarrow> None
                         | Some (qs, out, w) \<Rightarrow> Some (ps @ qs, out, w))
                      else Some (ps, TimedOut, w))))"

definition iter_body ::
  "nat \<Rightarrow> 's call_lib \<Rightarrow> 's env \<Rightarrow> int \<Rightarrow> 's world \<Rightarrow> (bytes list \<times> body_end \<times> 's world) option" where
  "iter_body fuel lib E timeout_ms w =
     (case start_countdown timeout_ms E w of (deadline, w) \<Rightarrow> body_loop fuel lib E deadline w)"

section \<open>Cancelling, waiting for the end and the result\<close>

text \<open>\<open>cronet_call_wait\<close>: a negative timeout waits for the outcome, zero only looks.\<close>

fun wait_finished :: "nat \<Rightarrow> 's call_lib \<Rightarrow> 's env \<Rightarrow> rat option \<Rightarrow> 's world \<Rightarrow> (bool \<times> 's world) option" where
  "wait_finished 0 lib E limit w = None"
| "wait_finished (Suc fuel) lib E limit w =
     (case state_of lib E w of (p, w') \<Rightarrow>
        if p = Finished then Some (True, w')
        else
          (case limit of
             Some t \<Rightarrow> if t \<le> clock E (fst w) then Some (False, w') else wait_finished fuel lib E limit w'
           | None \<Rightarrow> wait_finished fuel lib E limit w'))"

definition wait_call :: "nat \<Rightarrow> 's call_lib \<Rightarrow> 's env \<Rightarrow> int \<Rightarrow> 's world \<Rightarrow> (bool \<times> 's world) option" where
  "wait_call fuel lib E timeout_ms w =
     wait_finished fuel lib E
       (if timeout_ms < 0 then None else Some (clock E (fst w) + of_int timeout_ms)) w"

definition cancel_call :: "'s call_lib \<Rightarrow> 's env \<Rightarrow> 's world \<Rightarrow> 's world" where
  "cancel_call lib E w = snd (act E (\<lambda>s. ((), lib_cancel lib s)) w)"

definition result_of :: "'s call_lib \<Rightarrow> 's env \<Rightarrow> string \<Rightarrow> 's world \<Rightarrow> (exn + raw_response) \<times> 's world" where
  "result_of lib E url w = act E (\<lambda>s. (read_response (lib_response lib s) url, s)) w"

section \<open>What a streaming reader relies on\<close>

text \<open>
  \<open>run s rx tx\<close>: the call can be in state \<open>s\<close> with \<open>rx\<close> delivered and \<open>tx\<close> read; \<open>step s d s'\<close>: the
  network can take it to \<open>s'\<close>, delivering \<open>d\<close>; \<open>over s\<close>: it has its outcome. \<open>room\<close> bounds what is
  buffered.
\<close>

locale body_source =
  fixes lib :: "'s call_lib" and run :: "'s \<Rightarrow> bytes \<Rightarrow> bytes \<Rightarrow> bool"
    and step :: "'s \<Rightarrow> bytes \<Rightarrow> 's \<Rightarrow> bool" and over :: "'s \<Rightarrow> bool" and room :: nat
  assumes step_run: "run s rx tx \<Longrightarrow> step s d s' \<Longrightarrow> run s' (rx @ d) tx"
    and step_over: "step s d s' \<Longrightarrow> over s \<Longrightarrow> over s' \<and> d = []"
    and step_ready: "step s d s' \<Longrightarrow> lib_readable lib s \<Longrightarrow> lib_readable lib s'"
    and step_wakes: "step s d s' \<Longrightarrow> \<not> over s \<Longrightarrow> over s' \<Longrightarrow> lib_readable lib s'"
    and drain_run: "run s rx tx \<Longrightarrow> run (lib_drain lib s) rx tx"
    and drain_over: "over (lib_drain lib s) = over s"
    and read_bytes: "run s rx tx \<Longrightarrow> lib_read lib CHUNK_SIZE s = (ReadBytes b, s') \<Longrightarrow> run s' rx (tx @ b)"
    and read_end: "run s rx tx \<Longrightarrow> lib_read lib CHUNK_SIZE s = (ReadEOF, s') \<Longrightarrow>
      s' = s \<and> tx = rx \<and> over s"
    and read_dry: "run s rx tx \<Longrightarrow> lib_read lib CHUNK_SIZE s = (ReadBytes [], s') \<Longrightarrow>
      s' = s \<and> \<not> over s"
    and read_over: "run s rx tx \<Longrightarrow> over (snd (lib_read lib CHUNK_SIZE s)) = over s"
    and bounded: "run s rx tx \<Longrightarrow> length tx \<le> length rx \<and> length rx < length tx + room"
    and over_state: "run s rx tx \<Longrightarrow> over s \<longleftrightarrow> lib_state lib s = Finished"
    and cancel_run: "run s rx tx \<Longrightarrow> run (lib_cancel lib s) rx tx"
begin

definition fair :: "'s env \<Rightarrow> bool" where
  "fair E \<longleftrightarrow> (\<forall>k s rx tx. run s rx tx \<longrightarrow> (\<exists>d. step s d (net E k s)))"

lemma net_run:
  assumes "fair E" and "run s rx tx"
  obtains d where "run (net E k s) (rx @ d) tx" and "step s d (net E k s)"
  using assms step_run unfolding fair_def by blast

lemma drain_world:
  assumes "fair E" and "run s rx tx" and "drain lib E (k, s) = (k', s')"
  obtains d where "run s' (rx @ d) tx" and "k' = Suc k"
proof -
  from assms(1,2) obtain d where "run (net E k s) (rx @ d) tx" by (rule net_run)
  from drain_run [OF this] show ?thesis using that [of d] assms(3) by (simp add: drain_def act_def)
qed

lemma countdown_world:
  assumes "fair E" and "run s rx tx" and "countdown deadline E (k, s) = (left, (k', s'))"
  obtains d where "run s' (rx @ d) tx" and "k \<le> k'" and "deadline = None \<Longrightarrow> left = Some (-1) \<and> k' = k \<and> s' = s"
proof (cases deadline)
  case None
  then show ?thesis using that [of "[]"] assms by (simp add: countdown_def)
next
  case (Some t)
  from assms(1,2) obtain d where "run (net E k s) (rx @ d) tx" by (rule net_run)
  then show ?thesis
    using that [of d] assms(3) Some by (simp add: countdown_def now_def act_def Let_def)
qed

lemma poll_world:
  assumes "fair E" and "run s rx tx" and "poll fuel lib E limit (k, s) = Some (ready, (k', s'))"
  shows "\<exists>d. run s' (rx @ d) tx \<and> k < k'"
  using assms(2,3)
proof (induction fuel arbitrary: k s rx)
  case (Suc fuel)
  from assms(1) Suc.prems(1) obtain d where d: "run (net E k s) (rx @ d) tx" by (rule net_run)
  show ?case
  proof (cases "poll fuel lib E limit (Suc k, net E k s) = Some (ready, (k', s'))")
    case True
    from Suc.IH [OF d True] show ?thesis by (metis Suc_lessD append.assoc)
  next
    case False
    then have "s' = net E k s \<and> k' = Suc k"
      using Suc.prems(2) by (auto simp: act_def split: if_splits option.splits)
    with d show ?thesis by auto
  qed
qed simp

lemma take_pieces_world:
  assumes "fair E" and "run s rx tx" and "take_pieces fuel lib E (k, s) = Some (ps, ended, (k', s'))"
  shows "\<exists>d. run s' (rx @ d) (tx @ concat ps) \<and> k < k' \<and> (ended \<longrightarrow> rx @ d = tx @ concat ps \<and> over s') \<and>
    (\<not> ended \<longrightarrow> \<not> over s')"
  using assms(2,3)
proof (induction fuel arbitrary: k s rx tx ps)
  case (Suc fuel)
  from assms(1) Suc.prems(1) obtain d where d: "run (net E k s) (rx @ d) tx" by (rule net_run)
  obtain res s1 where read: "lib_read lib CHUNK_SIZE (net E k s) = (res, s1)" by force
  show ?case
  proof (cases res)
    case ReadEOF
    with read_end [OF d] read Suc.prems(2) d show ?thesis
      by (auto simp: act_def piece_def intro!: exI [of _ d])
  next
    case (ReadBytes b)
    show ?thesis
    proof (cases "b = []")
      case True
      with read_dry [OF d] read ReadBytes Suc.prems(2) d show ?thesis
        by (auto simp: act_def piece_def intro!: exI [of _ d])
    next
      case False
      then obtain qs where rest: "take_pieces fuel lib E (Suc k, s1) = Some (qs, ended, (k', s'))"
        and ps: "ps = b # qs"
        using Suc.prems(2) read ReadBytes by (auto simp: act_def piece_def split: option.splits)
      have "run s1 (rx @ d) (tx @ b)" using read_bytes [OF d] read ReadBytes by simp
      from Suc.IH [OF this rest] obtain e where "run s' ((rx @ d) @ e) ((tx @ b) @ concat qs)" "Suc k < k'"
        "ended \<longrightarrow> (rx @ d) @ e = (tx @ b) @ concat qs \<and> over s'" "\<not> ended \<longrightarrow> \<not> over s'" by blast
      then show ?thesis by (intro exI [of _ "d @ e"]) (simp add: ps)
    qed
  qed
qed simp

lemma state_world:
  assumes "fair E" and "run s rx tx" and "state_of lib E (k, s) = (p, (k', s'))"
  obtains d where "run s' (rx @ d) tx" and "p = lib_state lib s'"
proof -
  from assms(1,2) obtain d where "run (net E k s) (rx @ d) tx" by (rule net_run)
  then show ?thesis using that [of d] assms(3) by (auto simp: state_of_def act_def)
qed

text \<open>Waiting for the headers leaves the body alone, and success means the headers are there.\<close>

lemma headers_world:
  assumes "fair E" and "run s rx tx" and "headers_loop fuel lib E deadline (k, s) = Some (ok, (k', s'))"
  shows "\<exists>d. run s' (rx @ d) tx \<and> (ok \<longrightarrow> lib_state lib s' \<noteq> Started)"
  using assms(2,3)
proof (induction fuel arbitrary: k s rx)
  case (Suc fuel)
  obtain left k1 s1 where cd: "countdown deadline E (k, s) = (left, (k1, s1))" by (metis prod_cases3)
  from assms(1) Suc.prems(1) cd obtain d1 where d1: "run s1 (rx @ d1) tx" by (rule countdown_world)
  show ?case
  proof (cases left)
    case None
    obtain p k2 s2 where st: "state_of lib E (k1, s1) = (p, (k2, s2))" by (metis prod_cases3)
    from assms(1) d1 st obtain d2 where "run s2 ((rx @ d1) @ d2) tx" "p = lib_state lib s2" by (rule state_world)
    then show ?thesis using Suc.prems(2) cd None st by (auto intro!: exI [of _ "d1 @ d2"])
  next
    case (Some left)
    obtain k2 s2 where dr: "drain lib E (k1, s1) = (k2, s2)" by force
    from assms(1) d1 dr obtain d2 where d2: "run s2 ((rx @ d1) @ d2) tx" by (rule drain_world)
    obtain p k3 s3 where st: "state_of lib E (k2, s2) = (p, (k3, s3))" by (metis prod_cases3)
    from assms(1) d2 st obtain d3 where d3: "run s3 (((rx @ d1) @ d2) @ d3) tx" and p: "p = lib_state lib s3"
      by (rule state_world)
    show ?thesis
    proof (cases "p = Started")
      case False
      then show ?thesis using Suc.prems(2) cd Some dr st d3 p by (auto intro!: exI [of _ "d1 @ d2 @ d3"])
    next
      case True
      obtain ready k4 s4 where w: "wait_for_progress fuel lib E left (k3, s3) = Some (ready, (k4, s4))"
        using Suc.prems(2) cd Some dr st True by (cases "wait_for_progress fuel lib E left (k3, s3)") auto
      from poll_world [OF assms(1) d3 w [unfolded wait_for_progress_def]] obtain d4 where
        d4: "run s4 ((((rx @ d1) @ d2) @ d3) @ d4) tx" by blast
      show ?thesis
      proof (cases ready)
        case False
        then show ?thesis using Suc.prems(2) cd Some dr st True w d4 by (auto intro!: exI [of _ "d1 @ d2 @ d3 @ d4"])
      next
        case ready: True
        then have "headers_loop fuel lib E deadline (k4, s4) = Some (ok, (k', s'))"
          using Suc.prems(2) cd Some dr st True w by simp
        from Suc.IH [OF d4 this] obtain d5 where "run s' (((((rx @ d1) @ d2) @ d3) @ d4) @ d5) tx"
          "ok \<longrightarrow> lib_state lib s' \<noteq> Started" by blast
        then show ?thesis by (intro exI [of _ "d1 @ d2 @ d3 @ d4 @ d5"]) simp
      qed
    qed
  qed
qed simp

text \<open>What comes out is what the network delivered, in order, and an ordinary end is the end.\<close>

lemma body_loop_faithful:
  assumes "fair E" and "run s rx tx" and "body_loop fuel lib E deadline (k, s) = Some (ps, out, (k', s'))"
  shows "\<exists>d. run s' (rx @ d) (tx @ concat ps) \<and> (out = Ended \<longrightarrow> rx @ d = tx @ concat ps \<and> over s')"
  using assms(2,3)
proof (induction fuel arbitrary: k s rx tx ps)
  case (Suc fuel)
  obtain left k1 s1 where cd: "countdown deadline E (k, s) = (left, (k1, s1))" by (metis prod_cases3)
  from assms(1) Suc.prems(1) cd obtain d1 where d1: "run s1 (rx @ d1) tx" by (rule countdown_world)
  show ?case
  proof (cases left)
    case None
    with Suc.prems(2) cd d1 show ?thesis by auto
  next
    case (Some remaining)
    obtain k2 s2 where dr: "drain lib E (k1, s1) = (k2, s2)" by force
    from assms(1) d1 dr obtain d2 where d2: "run s2 ((rx @ d1) @ d2) tx" by (rule drain_world)
    obtain qs ended k3 s3 where tp: "take_pieces fuel lib E (k2, s2) = Some (qs, ended, (k3, s3))"
      using Suc.prems(2) cd Some dr by (cases "take_pieces fuel lib E (k2, s2)") auto
    from take_pieces_world [OF assms(1) d2 tp] obtain d3 where
      d3: "run s3 (((rx @ d1) @ d2) @ d3) (tx @ concat qs)"
      and e3: "ended \<longrightarrow> ((rx @ d1) @ d2) @ d3 = tx @ concat qs \<and> over s3" by blast
    show ?thesis
    proof (cases ended)
      case True
      with Suc.prems(2) cd Some dr tp d3 e3 show ?thesis by (auto intro!: exI [of _ "d1 @ d2 @ d3"])
    next
      case False
      obtain ready k4 s4 where w: "wait_for_progress fuel lib E remaining (k3, s3) = Some (ready, (k4, s4))"
        using Suc.prems(2) cd Some dr tp False
        by (cases "wait_for_progress fuel lib E remaining (k3, s3)") auto
      from poll_world [OF assms(1) d3 w [unfolded wait_for_progress_def]] obtain d4 where
        d4: "run s4 ((((rx @ d1) @ d2) @ d3) @ d4) (tx @ concat qs)" by blast
      show ?thesis
      proof (cases ready)
        case True
        then obtain rs where rest: "body_loop fuel lib E deadline (k4, s4) = Some (rs, out, (k', s'))"
          and ps: "ps = qs @ rs"
          using Suc.prems(2) cd Some dr tp False w by (auto split: option.splits)
        from Suc.IH [OF d4 rest] obtain d5 where
          "run s' (((((rx @ d1) @ d2) @ d3) @ d4) @ d5) ((tx @ concat qs) @ concat rs)"
          "out = Ended \<longrightarrow> ((((rx @ d1) @ d2) @ d3) @ d4) @ d5 = (tx @ concat qs) @ concat rs \<and> over s'"
          by blast
        then show ?thesis by (intro exI [of _ "d1 @ d2 @ d3 @ d4 @ d5"]) (simp add: ps)
      next
        case False
        with Suc.prems(2) cd Some dr tp w \<open>\<not> ended\<close> d4 show ?thesis
          by (auto intro!: exI [of _ "d1 @ d2 @ d3 @ d4"])
      qed
    qed
  qed
qed simp

text \<open>
  Liveness: when the network is done by tick \<open>n\<close>, the loops end. \<open>ticks n k s\<close> bounds how many more
  operations can find anything to do.
\<close>

definition done_by :: "'s env \<Rightarrow> nat \<Rightarrow> bool" where
  "done_by E n \<longleftrightarrow> (\<forall>k \<ge> n. \<forall>s rx tx. run s rx tx \<longrightarrow> over (net E k s))"

lemma done_over: "done_by E n \<Longrightarrow> run s rx tx \<Longrightarrow> n \<le> k \<Longrightarrow> over (net E k s)"
  by (auto simp: done_by_def)

lemma poll_returns:
  assumes "fair E" and "done_by E n" and "run s rx tx" and "\<not> over s" and "n - k < fuel"
  shows "\<exists>ready w. poll fuel lib E limit (k, s) = Some (ready, w) \<and> (limit = None \<longrightarrow> ready)"
  using assms(3-5)
proof (induction fuel arbitrary: k s rx)
  case (Suc fuel)
  from assms(1) Suc.prems(1) obtain d where d: "run (net E k s) (rx @ d) tx" and st: "step s d (net E k s)"
    by (rule net_run)
  show ?case
  proof (cases "lib_readable lib (net E k s)")
    case True
    then show ?thesis by (intro exI [of _ True]) (simp add: act_def)
  next
    case False
    then have no: "\<not> over (net E k s)" using step_wakes [OF st Suc.prems(2)] by blast
    then have "k < n" using done_over [OF assms(2) Suc.prems(1)] by (metis not_less)
    then have "n - Suc k < fuel" using Suc.prems(3) by simp
    from Suc.IH [OF d no this] False show ?thesis by (cases limit) (auto simp: act_def)
  qed
qed simp

lemma wait_finished_returns:
  assumes "fair E" and "done_by E n" and "run s rx tx" and "n - k < fuel"
  shows "\<exists>ended k' s' d. wait_finished fuel lib E limit (k, s) = Some (ended, (k', s')) \<and>
    run s' (rx @ d) tx \<and> (limit = None \<longrightarrow> ended)"
  using assms(3,4)
proof (induction fuel arbitrary: k s rx)
  case (Suc fuel)
  obtain p k1 s1 where st: "state_of lib E (k, s) = (p, (k1, s1))" by (metis prod_cases3)
  from assms(1) Suc.prems(1) st obtain d where d: "run s1 (rx @ d) tx" and p: "p = lib_state lib s1"
    by (rule state_world)
  have k1: "k1 = Suc k" and s1: "s1 = net E k s" using st by (auto simp: state_of_def act_def)
  show ?case
  proof (cases "p = Finished")
    case True
    then show ?thesis using st d by auto
  next
    case False
    then have "\<not> over (net E k s)" using over_state [OF d] p s1 by simp
    then have "k < n" using done_over [OF assms(2) Suc.prems(1)] by (metis not_less)
    then have "n - k1 < fuel" using Suc.prems(2) k1 by simp
    from Suc.IH [OF d this] obtain ended k' s' e where
      "wait_finished fuel lib E limit (k1, s1) = Some (ended, (k', s'))" "run s' ((rx @ d) @ e) tx"
      "limit = None \<longrightarrow> ended" by blast
    then show ?thesis using st False d by (cases limit) (auto intro: exI [of _ "d @ e"])
  qed
qed simp

lemma headers_loop_returns:
  assumes "fair E" and "done_by E n" and "run s rx tx" and "n - k + 1 < fuel"
  shows "\<exists>ok w. headers_loop fuel lib E deadline (k, s) = Some (ok, w)"
  using assms(3,4)
proof (induction fuel arbitrary: k s rx)
  case (Suc fuel)
  obtain left k1 s1 where cd: "countdown deadline E (k, s) = (left, (k1, s1))" by (metis prod_cases3)
  from assms(1) Suc.prems(1) cd obtain d1 where d1: "run s1 (rx @ d1) tx" and k1: "k \<le> k1"
    by (rule countdown_world)
  obtain k2 s2 where dr: "drain lib E (k1, s1) = (k2, s2)" by force
  from assms(1) d1 dr obtain d2 where d2: "run s2 ((rx @ d1) @ d2) tx" and k2: "k2 = Suc k1" by (rule drain_world)
  obtain p k3 s3 where st: "state_of lib E (k2, s2) = (p, (k3, s3))" by (metis prod_cases3)
  from assms(1) d2 st obtain d3 where d3: "run s3 (((rx @ d1) @ d2) @ d3) tx" and p: "p = lib_state lib s3"
    by (rule state_world)
  have k3: "k3 = Suc k2" and s3: "s3 = net E k2 s2" using st by (auto simp: state_of_def act_def)
  show ?case
  proof (cases left)
    case None
    then show ?thesis using cd by (cases "state_of lib E (k1, s1)") simp
  next
    case (Some left)
    show ?thesis
    proof (cases "p = Started")
      case False
      then show ?thesis using cd Some dr st by (intro exI [of _ True]) simp
    next
      case True
      then have no: "\<not> over s3" using over_state [OF d3] p by simp
      then have "k2 < n" using done_over [OF assms(2) d2] s3 by (metis not_less)
      then have f: "n - k3 < fuel" "n - Suc k3 + 1 < fuel" using Suc.prems(2) k1 k2 k3 by linarith+
      obtain ready k4 s4 where w: "wait_for_progress fuel lib E left (k3, s3) = Some (ready, (k4, s4))"
        using poll_returns [OF assms(1,2) d3 no f(1)] unfolding wait_for_progress_def by (metis surj_pair)
      from poll_world [OF assms(1) d3 w [unfolded wait_for_progress_def]] obtain d4 where
        d4: "run s4 ((((rx @ d1) @ d2) @ d3) @ d4) tx" and k4: "k3 < k4" by blast
      have "n - k4 + 1 < fuel" using f(2) k4 by linarith
      from Suc.IH [OF d4 this] show ?thesis using cd Some dr st True w by auto
    qed
  qed
qed simp

lemma take_pieces_returns:
  assumes "fair E" and "done_by E n" and "run s rx tx"
    and "(if k < n then n - k + room + 1 else if over s then length rx - length tx + 1 else room + 1) < fuel"
  shows "\<exists>r. take_pieces fuel lib E (k, s) = Some r"
  using assms(3,4)
proof (induction fuel arbitrary: k s rx tx)
  case (Suc fuel)
  from assms(1) Suc.prems(1) obtain d where d: "run (net E k s) (rx @ d) tx" and st: "step s d (net E k s)"
    by (rule net_run)
  obtain res s1 where read: "lib_read lib CHUNK_SIZE (net E k s) = (res, s1)" by force
  show ?case
  proof (cases "\<exists>b. res = ReadBytes b \<and> b \<noteq> []")
    case True
    then obtain b where b: "res = ReadBytes b" "b \<noteq> []" by blast
    have r1: "run s1 (rx @ d) (tx @ b)" using read_bytes [OF d] read b by simp
    have o1: "over s1 = over (net E k s)" using read_over [OF d] read by simp
    have fits: "length (tx @ b) \<le> length (rx @ d)" "length (rx @ d) < length (tx @ b) + room"
      using bounded [OF r1] by blast+
    have "(if Suc k < n then n - Suc k + room + 1
        else if over s1 then length (rx @ d) - length (tx @ b) + 1 else room + 1) < fuel"
    proof (cases "k < n")
      case True
      then show ?thesis using Suc.prems(2) fits by auto
    next
      case False
      then have o: "over (net E k s)" using assms(2) Suc.prems(1) by (auto simp: done_by_def not_less)
      obtain m where pos: "length b = Suc m" using b(2) by (cases b) simp_all
      have "length (rx @ d) < length tx + room" using bounded [OF d] by simp
      moreover have "d = []" if "over s" using step_over [OF st that] by simp
      ultimately show ?thesis
        using False Suc.prems(2) pos o o1 fits(1) by (cases "over s") auto
    qed
    from Suc.IH [OF r1 this] obtain r where "take_pieces fuel lib E (Suc k, s1) = Some r" by blast
    then show ?thesis using read b by (cases r) (auto simp: act_def piece_def)
  next
    case False
    then show ?thesis using read by (cases res) (auto simp: act_def piece_def)
  qed
qed simp

lemma take_pieces_over:
  assumes "fair E" and "done_by E n" and "run s rx tx" and "n \<le> k"
    and "take_pieces fuel lib E (k, s) = Some (ps, ended, (k', s'))"
  shows ended
  using assms(3-5)
proof (induction fuel arbitrary: k s rx tx ps)
  case (Suc fuel)
  from assms(1) Suc.prems(1) obtain d where d: "run (net E k s) (rx @ d) tx" by (rule net_run)
  have o: "over (net E k s)" using assms(2) Suc.prems(1,2) by (auto simp: done_by_def)
  obtain res s1 where read: "lib_read lib CHUNK_SIZE (net E k s) = (res, s1)" by force
  show ?case
  proof (cases res)
    case ReadEOF
    then show ?thesis using read Suc.prems(3) by (simp add: act_def piece_def)
  next
    case (ReadBytes b)
    then have ne: "b \<noteq> []" using read_dry [OF d] read o by auto
    then obtain qs where "take_pieces fuel lib E (Suc k, s1) = Some (qs, ended, (k', s'))"
      using read ReadBytes Suc.prems(3) by (auto simp: act_def piece_def split: option.splits)
    moreover have "run s1 (rx @ d) (tx @ b)" using read_bytes [OF d] read ReadBytes by simp
    ultimately show ?thesis using Suc.IH Suc.prems(2) by (metis le_SucI)
  qed
qed simp

lemma body_loop_returns:
  assumes "fair E" and "done_by E n" and "run s rx tx" and "n - k + room + 3 < fuel"
  shows "\<exists>ps out w. body_loop fuel lib E deadline (k, s) = Some (ps, out, w) \<and>
    (deadline = None \<longrightarrow> out = Ended)"
  using assms(3,4)
proof (induction fuel arbitrary: k s rx tx)
  case (Suc fuel)
  obtain left k1 s1 where cd: "countdown deadline E (k, s) = (left, (k1, s1))" by (metis prod_cases3)
  from assms(1) Suc.prems(1) cd obtain d1 where d1: "run s1 (rx @ d1) tx" and k1: "k \<le> k1"
    and unlimited: "deadline = None \<Longrightarrow> left = Some (-1)"
    by (rule countdown_world) blast
  obtain k2 s2 where dr: "drain lib E (k1, s1) = (k2, s2)" by force
  from assms(1) d1 dr obtain d2 where d2: "run s2 ((rx @ d1) @ d2) tx" and k2: "k2 = Suc k1"
    by (rule drain_world)
  have "(if k2 < n then n - k2 + room + 1
      else if over s2 then length ((rx @ d1) @ d2) - length tx + 1 else room + 1) < fuel"
    using Suc.prems(2) bounded [OF d2] k1 k2 by (auto simp del: length_append)
  from take_pieces_returns [OF assms(1,2) d2 this] obtain qs ended k3 s3 where
    tp: "take_pieces fuel lib E (k2, s2) = Some (qs, ended, (k3, s3))" by (metis prod_cases3 surj_pair)
  from take_pieces_world [OF assms(1) d2 tp] obtain d3 where
    d3: "run s3 (((rx @ d1) @ d2) @ d3) (tx @ concat qs)" and k3: "k2 < k3" and e3: "\<not> ended \<longrightarrow> \<not> over s3"
    by blast
  show ?case
  proof (cases left)
    case None
    then show ?thesis using cd unlimited by auto
  next
    case (Some left)
    show ?thesis
    proof (cases ended)
      case True
      then show ?thesis using cd Some dr tp by simp
    next
      case False
      then have no: "\<not> over s3" using e3 by blast
      have kn: "k2 < n" using take_pieces_over [OF assms(1,2) d2 _ tp] False by (metis not_less)
      then have "n - k3 < fuel" using Suc.prems(2) k1 k2 k3 by linarith
      from poll_returns [OF assms(1,2) d3 no this] obtain ready k4 s4 where
        w: "wait_for_progress fuel lib E left (k3, s3) = Some (ready, (k4, s4))"
        and rdy: "left < 0 \<longrightarrow> ready" unfolding wait_for_progress_def by (metis surj_pair)
      from poll_world [OF assms(1) d3 w [unfolded wait_for_progress_def]] obtain d4 where
        d4: "run s4 ((((rx @ d1) @ d2) @ d3) @ d4) (tx @ concat qs)" and k4: "k3 < k4" by blast
      have "n - k4 + room + 3 < fuel" using Suc.prems(2) k1 k2 k3 k4 kn by linarith
      from Suc.IH [OF d4 this] obtain ps out w' where
        "body_loop fuel lib E deadline (k4, s4) = Some (ps, out, w')" "deadline = None \<longrightarrow> out = Ended" by blast
      then show ?thesis using cd Some dr tp w False rdy unlimited by (cases ready) auto
    qed
  qed
qed simp

end

section \<open>The native call is such a source\<close>

text \<open>What Chromium may do between two operations of the owner: the network's rules of \<open>call_run\<close>,
  any number of them.\<close>

inductive net_steps :: "call_state \<Rightarrow> bytes \<Rightarrow> call_state \<Rightarrow> bool" where
  idle: "net_steps s [] s"
| redirected: "net_steps s d s' \<Longrightarrow> live s' \<Longrightarrow> cs_phase s' = Started \<Longrightarrow>
    net_steps s d (on_followed_redirect loc s')"
| redirect_limit: "net_steps s d s' \<Longrightarrow> live s' \<Longrightarrow> cs_phase s' = Started \<Longrightarrow>
    net_steps s d (on_redirect_limit limit n loc r s')"
| response_started: "net_steps s d s' \<Longrightarrow> live s' \<Longrightarrow> cs_phase s' = Started \<Longrightarrow>
    net_steps s d (on_response_started r n s')"
| read_completed: "net_steps s d s' \<Longrightarrow> live s' \<Longrightarrow> 0 < cs_reads s' \<Longrightarrow> e \<noteq> [] \<Longrightarrow>
    length e \<le> READ_BUFFER \<Longrightarrow> net_steps s (d @ e) (on_read_completed e s')"
| succeeded: "net_steps s d s' \<Longrightarrow> live s' \<Longrightarrow> 0 < cs_reads s' \<Longrightarrow> net_steps s d (on_succeeded s')"
| failed: "net_steps s d s' \<Longrightarrow> live s' \<Longrightarrow> c \<noteq> 0 \<Longrightarrow> net_steps s d (on_error c msg s')"
| metrics: "net_steps s d s' \<Longrightarrow> cs_request s' \<Longrightarrow> net_steps s d (set_metrics m s')"
| canceled: "net_steps s d s' \<Longrightarrow> cs_request s' \<Longrightarrow> cs_destroyed s' \<Longrightarrow> net_steps s d (on_canceled s')"
| destroyed: "net_steps s d s' \<Longrightarrow> cs_request s' \<Longrightarrow> cs_destroyed s' \<Longrightarrow> net_steps s d (on_destroyed s')"

lemma net_steps_run: "net_steps s d s' \<Longrightarrow> call_run url s rx tx \<Longrightarrow> call_run url s' (rx @ d) tx"
proof (induction rule: net_steps.induct)
  case (read_completed s d s' e)
  then show ?case using call_run.read_completed [of url s' "rx @ d" tx e] by simp
qed (simp_all add: call_run.intros)

text \<open>A step keeps a wakeup, keeps an outcome, and wakes the owner when it brings one.\<close>

definition wakes :: "call_state \<Rightarrow> call_state \<Rightarrow> bool" where
  "wakes s s' \<longleftrightarrow> (0 < cs_signals s \<longrightarrow> 0 < cs_signals s') \<and> (cs_claimed s \<longrightarrow> cs_claimed s') \<and>
     (\<not> cs_claimed s \<longrightarrow> cs_claimed s' \<longrightarrow> 0 < cs_signals s')"

lemma wakes_trans: "wakes a b \<Longrightarrow> wakes b c \<Longrightarrow> wakes a c"
  by (auto simp: wakes_def)

lemma wakes_parts:
  "wakes s s" "wakes s (read_data s)" "wakes s (destroy_request s)" "wakes s (set_redirect_count n s)"
  "wakes s (signal_progress s)" "wakes s (set_metrics m s)" "wakes s (finish c msg s)"
  "wakes s (on_response r s)" "wakes s (snd (on_data e s))" "wakes s (s\<lparr>cs_reads := k\<rparr>)"
  "wakes s (s\<lparr>cs_request := a, cs_released := b, cs_reads := k\<rparr>)" "wakes s (s\<lparr>cs_final_url := u\<rparr>)"
  by (simp_all add: wakes_def read_data_def destroy_request_def set_redirect_count_def
      signal_progress_def set_metrics_def finish_def on_response_def on_data_def Let_def)

lemmas wakes_after = wakes_parts [THEN wakes_trans [rotated]]

lemma wakes_callbacks:
  "wakes s (on_followed_redirect loc s)" "wakes s (on_redirect_limit limit n loc r s)"
  "wakes s (on_response_started r n s)" "wakes s (on_read_completed e s)" "wakes s (on_succeeded s)"
  "wakes s (on_error c msg s)" "wakes s (on_canceled s)" "wakes s (on_destroyed s)"
proof -
  show "wakes s (on_followed_redirect loc s)"
    unfolding on_followed_redirect_def by (rule wakes_after(12) [OF wakes_parts(1)])
  show "wakes s (on_redirect_limit limit n loc r s)"
    unfolding on_redirect_limit_def
    by (cases "limit = 0") (simp_all add: wakes_after(3) wakes_after(7) wakes_after(4) wakes_parts(8))
  show "wakes s (on_response_started r n s)"
    unfolding on_response_started_def by (intro wakes_after(2,4) wakes_parts(8))
  show "wakes s (on_succeeded s)" unfolding on_succeeded_def by (intro wakes_after(3,7) wakes_parts(10))
  show "wakes s (on_error c msg s)" unfolding on_error_def by (intro wakes_after(3) wakes_parts(7))
  show "wakes s (on_canceled s)" unfolding on_canceled_def by (rule wakes_parts(7))
  show "wakes s (on_destroyed s)" unfolding on_destroyed_def by (intro wakes_after(11) wakes_parts(7))
  have d: "wakes s (snd (on_data e (s\<lparr>cs_reads := cs_reads s - 1\<rparr>)))"
    by (intro wakes_after(9) wakes_parts(10))
  show "wakes s (on_read_completed e s)"
    using d wakes_after(2) [OF d]
    by (cases "on_data e (s\<lparr>cs_reads := cs_reads s - 1\<rparr>)") (simp add: on_read_completed_def)
qed

lemma net_steps_wakes: "net_steps s d s' \<Longrightarrow> wakes s s'"
  by (induction rule: net_steps.induct)
    (simp_all add: wakes_parts(1,6) wakes_after wakes_callbacks [THEN wakes_trans [rotated]])

lemma live_not_claimed: "live s \<Longrightarrow> \<not> cs_claimed s"
  by (simp add: live_def)

lemma net_steps_claimed: "net_steps s d s' \<Longrightarrow> cs_claimed s \<Longrightarrow> d = []"
proof (induction rule: net_steps.induct)
  case (read_completed s d s' e)
  then have "cs_claimed s'" using net_steps_wakes [OF read_completed(1)] by (simp add: wakes_def)
  with read_completed show ?case using live_not_claimed by blast
qed simp_all

lemma run_length:
  assumes "call_run url s rx tx"
  shows "length tx \<le> length rx \<and> length rx < length tx + (HIGH_WATER + READ_BUFFER)"
  using call_invD(2,10) [OF call_run_inv [OF assms]] by auto

lemma chunk_positive: "0 < CHUNK_SIZE"
  by (simp add: CHUNK_SIZE_def)

lemma read_ends:
  assumes "call_run url s rx tx" and "call_read CHUNK_SIZE s = (ReadEOF, s')"
  shows "s' = s \<and> tx = rx \<and> cs_claimed s"
proof -
  note inv = call_invD [OF call_run_inv [OF assms(1)]]
  from assms(2) inv(1) have "available s = [] \<and> cs_complete s \<and> s' = s"
    by (cases rule: call_read_cases) simp_all
  with inv(2,4) show ?thesis by simp
qed

lemma read_dries:
  assumes "call_run url s rx tx" and "call_read CHUNK_SIZE s = (ReadBytes [], s')"
  shows "s' = s \<and> \<not> cs_claimed s"
proof -
  note inv = call_invD [OF call_run_inv [OF assms(1)]]
  from assms(2) inv(1) have "\<not> cs_complete s \<and> s' = s"
    using chunk_positive by (cases rule: call_read_cases) simp_all
  with inv(4) show ?thesis by simp
qed

interpretation native: body_source native_lib "call_run url" net_steps cs_claimed
    "HIGH_WATER + READ_BUFFER" for url
proof unfold_locales
  fix s d s' rx tx
  show "call_run url s' (rx @ d) tx" if "call_run url s rx tx" "net_steps s d s'"
    using that by (intro net_steps_run)
  show "cs_claimed s' \<and> d = []" if "net_steps s d s'" "cs_claimed s"
    using net_steps_wakes [OF that(1)] net_steps_claimed [OF that] that(2) by (simp add: wakes_def)
  show "lib_readable native_lib s'" if "net_steps s d s'" "lib_readable native_lib s"
    using net_steps_wakes [OF that(1)] that(2) by (simp add: wakes_def native_lib_def)
  show "lib_readable native_lib s'" if "net_steps s d s'" "\<not> cs_claimed s" "cs_claimed s'"
    using net_steps_wakes [OF that(1)] that(2,3) by (simp add: wakes_def native_lib_def)
next
  fix s rx tx
  show "call_run url (lib_drain native_lib s) rx tx" if "call_run url s rx tx"
    using call_run.owner_drain [OF that] by (simp add: native_lib_def)
  show "cs_claimed (lib_drain native_lib s) = cs_claimed s"
    by (simp add: native_lib_def drain_signals_def)
  show "cs_claimed (snd (lib_read native_lib CHUNK_SIZE s)) = cs_claimed s"
    by (simp add: native_lib_def call_read_view)
  show "cs_claimed s \<longleftrightarrow> lib_state native_lib s = Finished" if "call_run url s rx tx"
    using call_invD(3) [OF call_run_inv [OF that]] by (simp add: native_lib_def)
  show "call_run url (lib_cancel native_lib s) rx tx" if "call_run url s rx tx"
    using call_run.owner_cancel [OF that] by (simp add: native_lib_def)
  show "length tx \<le> length rx \<and> length rx < length tx + (HIGH_WATER + READ_BUFFER)"
    if "call_run url s rx tx" using that by (rule run_length)
next
  fix s rx tx b s'
  show "call_run url s' rx (tx @ b)"
    if "call_run url s rx tx" "lib_read native_lib CHUNK_SIZE s = (ReadBytes b, s')"
    using that call_run.owner_read by (simp add: native_lib_def)
  show "s' = s \<and> tx = rx \<and> cs_claimed s"
    if "call_run url s rx tx" "lib_read native_lib CHUNK_SIZE s = (ReadEOF, s')"
    using that read_ends by (simp add: native_lib_def)
  show "s' = s \<and> \<not> cs_claimed s"
    if "call_run url s rx tx" "lib_read native_lib CHUNK_SIZE s = (ReadBytes [], s')"
    using that read_dries by (simp add: native_lib_def)
qed

section \<open>Properties of the streamed body\<close>

text \<open>Before each operation the network takes some of its steps, from whatever state the call is in.\<close>

definition network :: "bytes \<Rightarrow> call_state env \<Rightarrow> bool" where
  "network url E \<longleftrightarrow> (\<forall>k s rx tx. call_run url s rx tx \<longrightarrow> (\<exists>d. net_steps s d (net E k s)))"

text \<open>From the \<open>n\<close>-th operation on, the call has an outcome.\<close>

definition finishes_by :: "bytes \<Rightarrow> nat \<Rightarrow> call_state env \<Rightarrow> bool" where
  "finishes_by url n E \<longleftrightarrow> (\<forall>k \<ge> n. \<forall>s rx tx. call_run url s rx tx \<longrightarrow> cs_claimed (net E k s))"

definition stream_fuel :: "nat \<Rightarrow> nat" where
  "stream_fuel n = n + HIGH_WATER + READ_BUFFER + 4"

lemma network_fair: "network url E \<Longrightarrow> native.fair url E"
  by (simp add: network_def native.fair_def)

lemma finishes_done: "finishes_by url n E \<Longrightarrow> native.done_by url E n"
  by (simp add: finishes_by_def native.done_by_def)

lemma iter_body_returns:
  assumes "network url E" and "finishes_by url n E" and "call_run url s rx tx" and "stream_fuel n \<le> fuel"
  shows "\<exists>ps k' s'. iter_body fuel native_lib E (-1) (k, s) = Some (ps, Ended, (k', s'))"
proof -
  have "n - k + (HIGH_WATER + READ_BUFFER) + 3 < fuel" using assms(4) by (simp add: stream_fuel_def)
  from native.body_loop_returns [OF network_fair [OF assms(1)] finishes_done [OF assms(2)] assms(3) this, of None]
  show ?thesis by (auto simp: iter_body_def start_countdown_def)
qed

text \<open>A network for concrete runs: the response starts, three bytes come, and from the third operation
  on the request fails if it has not ended.\<close>

definition sample_net :: "call_state env" where
  "sample_net = \<lparr>net = (\<lambda>k s.
       if live s \<and> k = 0 \<and> cs_phase s = Started then on_response_started sample_start 0 s
       else if live s \<and> k = 1 \<and> 0 < cs_reads s then on_read_completed [1, 2, 3] s
       else if live s \<and> 2 \<le> k then on_error (-100) [] s else s),
     clock = (\<lambda>k. of_nat k)\<rparr>"

lemma sample_net_network: "network url sample_net"
proof -
  have small: "length [1, 2, 3 :: 8 word] \<le> READ_BUFFER" by (simp add: READ_BUFFER_def)
  have "\<exists>d. net_steps s d (net sample_net k s)" for k s
  proof -
    have "\<exists>d. net_steps s d s" using net_steps.idle by blast
    moreover have "\<exists>d. net_steps s d (on_response_started sample_start 0 s)"
      if "live s" "cs_phase s = Started" using that net_steps.response_started [OF net_steps.idle] by blast
    moreover have "\<exists>d. net_steps s d (on_read_completed [1, 2, 3] s)" if "live s" "0 < cs_reads s"
      using that net_steps.read_completed [OF net_steps.idle _ _ _ small] by blast
    moreover have "\<exists>d. net_steps s d (on_error (-100) [] s)" if "live s"
      using that net_steps.failed [OF net_steps.idle, of s "-100"] by auto
    ultimately show ?thesis by (simp add: sample_net_def)
  qed
  then show ?thesis by (simp add: network_def)
qed

lemma sample_net_finishes: "finishes_by url 2 sample_net"
proof -
  have "cs_claimed (net sample_net k s)" if k: "2 \<le> k" and run: "call_run url s rx tx" for k s rx tx
  proof (cases "live s")
    case True
    then show ?thesis
      using k by (simp add: sample_net_def on_error_def finish_def destroy_request_def signal_progress_def)
  next
    case False
    then have "cs_claimed s" using call_invD(8) [OF call_run_inv [OF run]] by (auto simp: live_def)
    with False show ?thesis by (simp add: sample_net_def)
  qed
  then show ?thesis by (auto simp: finishes_by_def)
qed


text \<open>C24. Without a timeout, streaming ends: once the network is finished with the call, no wakeup is
  missed, the reader reaches the end of the body, and has handed over every byte of it.\<close>

theorem stream_ends:
  assumes "network url E" and "finishes_by url n E" and "call_run url s rx []" and "stream_fuel n \<le> fuel"
  shows "\<exists>ps k' s'. iter_body fuel native_lib E (-1) (k, s) = Some (ps, Ended, (k', s')) \<and>
    call_run url s' (concat ps) (concat ps)"
proof -
  obtain ps k' s' where run: "iter_body fuel native_lib E (-1) (k, s) = Some (ps, Ended, (k', s'))"
    using iter_body_returns [OF assms] by blast
  obtain d where "call_run url s' (rx @ d) (concat ps)" "rx @ d = concat ps"
    using native.body_loop_faithful [OF network_fair [OF assms(1)] assms(3), of fuel None k ps Ended k' s'] run
    by (auto simp: iter_body_def start_countdown_def)
  with run show ?thesis by auto
qed

theorem stream_ends_witness:
  "\<exists>ps k' s'. iter_body (stream_fuel 2) native_lib sample_net (-1) (0, fresh_call [104]) = Some (ps, Ended, (k', s')) \<and>
    call_run [104] s' (concat ps) (concat ps)"
  by (rule stream_ends [OF sample_net_network sample_net_finishes call_run.start order_refl])


end
