(* ===== verification/Session.thy ===== *)
theory Session
  imports Redirect Bridge Responses
begin

text \<open>
  Sessions (\<open>src/cronet/session.py\<close>): what opening one checks and hands to the engine, how one request
  is performed by a blocking and by an asyncio session, how a response is streamed, and
  \<open>request\<close> itself, with and without a cookie jar.

  The record \<open>services\<close> is what a session stands on: the standard library backends, the random
  draws, the C ABI's operations, and \<open>sv_start\<close>, the outcome of the \<open>k\<close>-th \<open>Engine.start\<close>: an
  exception, or a native call and the network it runs on. \<open>sv_seconds\<close> prints a timeout and
  The argument \<open>create\<close> of \<open>open_session\<close> is \<open>cronet_engine_create\<close>, which answers with a failure
  message or none.
  A timeout is a rational number of seconds.
\<close>

section \<open>Opening a session\<close>

text \<open>
  The \<open>headers\<close> argument as an object that is iterated: a mapping or a sequence yields its pairs
  every time, an iterator once.
\<close>

datatype header_feed = Reusable header_source | OneShot pairs

definition iterate :: "header_feed \<Rightarrow> pairs \<times> header_feed" where
  "iterate feed =
     (case feed of
        Reusable src \<Rightarrow> (source_pairs src, feed)
      | OneShot ps \<Rightarrow> (ps, OneShot []))"

datatype quic_hint = HintName ustr | HintPort ustr int

datatype cookies_option = NoJar | OwnJar | SharedJar

record session_options =
  so_headers :: header_feed
  so_proxy :: string
  so_proxy_bypass :: ustr
  so_proxy_username :: ustr
  so_proxy_password :: ustr
  so_user_agent :: "ustr option"
  so_accept_language :: ustr
  so_http2 :: bool
  so_http3 :: bool
  so_require_http3 :: bool
  so_quic_hints :: "quic_hint list"
  so_brotli :: bool
  so_cookies :: cookies_option
  so_cache :: string
  so_cache_size :: int
  so_storage_path :: ustr
  so_timeout :: "rat option"
  so_max_redirects :: int
  so_tls :: "tls_profile option"
  so_experimental_options :: "(string \<times> json) list"

record session =
  ses_require_http3 :: bool
  ses_headers :: headers
  ses_timeout :: "rat option"
  ses_max_redirects :: int
  ses_cookies :: bool

text \<open>\<open>Cache(cache)\<close> and \<open>_CACHE_MODES\<close>.\<close>

definition cache_mode :: "string \<Rightarrow> exn + int" where
  "cache_mode c =
     (if c = ''off'' then Inr 0 else if c = ''memory'' then Inr 1 else if c = ''disk'' then Inr 2
      else Inl (ValueError (BadEnumValue c)))"

definition default_user_agent :: "ustr \<Rightarrow> ustr" where
  "default_user_agent version =
     cps ''Mozilla/5.0 (X11; Linux x86_64) AppleWebKit/537.36 (KHTML, like Gecko) Chrome/'' @
     takeWhile (\<lambda>c. c \<noteq> 46) version @ cps ''.0.0.0 Safari/537.36''"

text \<open>\<open>dict.update\<close>: a key that is there keeps its place and takes the new value.\<close>

fun dict_set :: "('a \<times> 'b) list \<Rightarrow> 'a \<times> 'b \<Rightarrow> ('a \<times> 'b) list" where
  "dict_set [] kv = [kv]"
| "dict_set ((k, v) # d) kv = (if k = fst kv then kv # d else (k, v) # dict_set d kv)"

definition dict_update :: "('a \<times> 'b) list \<Rightarrow> ('a \<times> 'b) list \<Rightarrow> ('a \<times> 'b) list" where
  "dict_update d new = foldl dict_set d new"

definition session_experimental :: "session_options \<Rightarrow> (string \<times> json) list" where
  "session_experimental so =
     (case so_tls so of
        None \<Rightarrow> so_experimental_options so
      | Some p \<Rightarrow> dict_update (so_experimental_options so) (to_options p))"

definition hint_pair :: "quic_hint \<Rightarrow> ustr \<times> int" where
  "hint_pair h = (case h of HintName host \<Rightarrow> (host, 443) | HintPort host port \<Rightarrow> (host, port))"

definition decoded_json :: "bytes \<Rightarrow> exn + ustr" where
  "decoded_json b = (case decode_strict b of None \<Rightarrow> Inl UnicodeDecodeError | Some t \<Rightarrow> Inr t)"

text \<open>The \<open>EngineSettings\<close> of the session, its arguments evaluated from the first to the last.\<close>

definition engine_settings_of ::
  "(json \<Rightarrow> exn + bytes) \<Rightarrow> ustr \<Rightarrow> session_options \<Rightarrow> exn + engine_settings" where
  "engine_settings_of encode_json version so =
     (let options = session_experimental so in
      bindE (if options = [] then Inr []
             else bindE (encode_json (JObj options)) decoded_json) (\<lambda>experimental.
      bindE (with_proxy_credentials (so_proxy so) (so_proxy_username so) (so_proxy_password so)) (\<lambda>rules.
      bindE (cache_mode (so_cache so)) (\<lambda>mode.
      Inr \<lparr>set_user_agent = (case so_user_agent so of None \<Rightarrow> default_user_agent version | Some u \<Rightarrow> u),
        set_accept_language = so_accept_language so, set_experimental_options = experimental,
        set_storage_path = so_storage_path so, set_proxy_rules = cps rules,
        set_proxy_bypass_rules = so_proxy_bypass so, set_proxy_username = so_proxy_username so,
        set_proxy_password = so_proxy_password so, set_quic_hints = map hint_pair (so_quic_hints so),
        set_enable_quic = so_http3 so, set_enable_http2 = so_http2 so, set_enable_brotli = so_brotli so,
        set_cache_mode = mode, set_cache_max_bytes = so_cache_size so\<rparr>))))"

text \<open>\<open>Engine.__init__\<close>: the configuration crosses the boundary and the library accepts it or not.\<close>

definition create_engine :: "(engine_spec \<Rightarrow> bytes option) \<Rightarrow> engine_settings \<Rightarrow> exn + unit" where
  "create_engine create settings =
     bindE (build_engine_config settings) (\<lambda>(config, mem, keep).
     case create (engine_spec mem config) of
       None \<Rightarrow> Inr ()
     | Some failure \<Rightarrow>
         let reason = decode_replace (c_text failure) in
         Inl (LibraryError (if reason \<noteq> [] then reason else cps ''the engine could not be created'')))"

definition open_session ::
  "(json \<Rightarrow> exn + bytes) \<Rightarrow> ustr \<Rightarrow> (engine_spec \<Rightarrow> bytes option) \<Rightarrow> session_options \<Rightarrow> exn + session" where
  "open_session encode_json version create so =
     (case iterate (so_headers so) of (given, feed) \<Rightarrow>
      bindE (check_pairs ''the session'' given) (\<lambda>_.
      bindE (guardE (so_require_http3 so \<longrightarrow> so_http3 so) (ValueError Http3SwitchedOff)) (\<lambda>_.
      bindE (guardE (so_require_http3 so \<and> so_proxy so \<noteq> [] \<longrightarrow> starts_with ''socks5://'' (so_proxy so))
               (ValueError Http3ThroughProxy)) (\<lambda>_.
      let kept = Headers (fst (iterate feed)) in
      bindE (engine_settings_of encode_json version so) (\<lambda>settings.
      bindE (create_engine create settings) (\<lambda>_.
      Inr \<lparr>ses_require_http3 = so_require_http3 so, ses_headers = kept, ses_timeout = so_timeout so,
        ses_max_redirects = so_max_redirects so, ses_cookies = (so_cookies so \<noteq> NoJar)\<rparr>))))))"

section \<open>What a session makes of a request's options\<close>

definition redirect_limit :: "session \<Rightarrow> request_options \<Rightarrow> int" where
  "redirect_limit ses opts =
     (case opt_max_redirects opts of None \<Rightarrow> ses_max_redirects ses | Some n \<Rightarrow> n)"

definition timeout_seconds :: "session \<Rightarrow> request_options \<Rightarrow> rat option" where
  "timeout_seconds ses opts =
     (case opt_timeout opts of Unset \<Rightarrow> ses_timeout ses | NoLimit \<Rightarrow> None | Seconds t \<Rightarrow> Some t)"

definition timeout_ms :: "session \<Rightarrow> request_options \<Rightarrow> int" where
  "timeout_ms ses opts =
     (case timeout_seconds ses opts of None \<Rightarrow> -1 | Some t \<Rightarrow> max 0 (truncated (t * 1000)))"

definition target :: "string \<Rightarrow> request_options \<Rightarrow> exn + string" where
  "target url opts =
     bindE (check_options opts) (\<lambda>_.
     bindE (check_headers (opt_headers opts) ''a request'') (\<lambda>_.
     bindE (checked_url url) (\<lambda>u. with_query u (opt_query opts))))"

text \<open>\<open>_checked\<close>: 104, 51 is \<open>h3\<close>.\<close>

definition checked :: "session \<Rightarrow> response \<Rightarrow> exn + response" where
  "checked ses r =
     (if ses_require_http3 ses \<and> http_version r \<noteq> cps ''h3'' then
        Inl (ProtocolDowngraded
          (resp_url r @ cps '' answered over '' @
           (if http_version r \<noteq> [] then http_version r else cps ''an unknown protocol'') @
           cps '', not HTTP/3, and this session was opened with require_http3=True'') r)
      else Inr r)"

section \<open>Performing one request\<close>

record ('j, 'c, 's) services =
  sv_backends :: "('j, 'c) backends"
  sv_draw :: "nat \<Rightarrow> nat \<Rightarrow> nat"
  sv_lib :: "'s call_lib"
  sv_start :: "nat \<Rightarrow> call_settings \<Rightarrow> exn + ('s \<times> 's env)"
  sv_seconds :: "rat option \<Rightarrow> ustr"

text \<open>What is done to the native call, in order.\<close>

datatype life = CallStarted | CallCancelled | CallAwaited | CallClosed

definition timed_out :: "(rat option \<Rightarrow> ustr) \<Rightarrow> session \<Rightarrow> string \<Rightarrow> request_options \<Rightarrow> exn" where
  "timed_out seconds ses url opts =
     RequestFailed Timeout
       (cps ''no response from '' @ cps url @ cps '' within '' @ seconds (timeout_seconds ses opts) @
        cps ''s '' @ [8212] @ cps '' raise timeout=, or pass timeout=None for no limit'')
       ERROR_TIMED_OUT url"

type_synonym 's performed = "((exn + response) \<times> 's world \<times> life list) option"

text \<open>The \<open>except TimeoutError\<close> of \<open>_perform\<close>: cancel, wait for the end, and then close.\<close>

definition give_up :: "nat \<Rightarrow> 's call_lib \<Rightarrow> 's env \<Rightarrow> exn \<Rightarrow> 's world \<Rightarrow> 's performed" where
  "give_up fuel lib E e w =
     (case wait_call fuel lib E (-1) (cancel_call lib E w) of
        None \<Rightarrow> None
      | Some (_, w) \<Rightarrow> Some (Inl e, w, [CallStarted, CallCancelled, CallAwaited, CallClosed]))"

text \<open>What is made of a call that ended: its metadata is read again and the body put to it.\<close>

definition finished_response ::
  "'s call_lib \<Rightarrow> 's env \<Rightarrow> session \<Rightarrow> string \<Rightarrow> bytes \<Rightarrow> 's world \<Rightarrow> (exn + response) \<times> 's world" where
  "finished_response lib E ses url body w =
     (case result_of lib E url w of (r, w) \<Rightarrow> (bindE r (\<lambda>raw. checked ses (from_raw raw body)), w))"

text \<open>\<open>Session._perform\<close>, once the call has started.\<close>

definition perform_call ::
  "nat \<Rightarrow> 's call_lib \<Rightarrow> 's env \<Rightarrow> (rat option \<Rightarrow> ustr) \<Rightarrow> session \<Rightarrow> string \<Rightarrow> request_options \<Rightarrow> 's \<Rightarrow>
    's performed" where
  "perform_call fuel lib E seconds ses url opts s =
     (let limit = timeout_ms ses opts; late = timed_out seconds ses url opts in
      case wait_for_headers fuel lib E limit (0, s) of
        None \<Rightarrow> None
      | Some (there, w) \<Rightarrow>
          if \<not> there then give_up fuel lib E late w
          else
            (case result_of lib E url w of
               (Inl e, w) \<Rightarrow> Some (Inl e, w, [CallStarted, CallClosed])
             | (Inr _, w) \<Rightarrow>
                 (case iter_body fuel lib E limit w of
                    None \<Rightarrow> None
                  | Some (ps, TimedOut, w) \<Rightarrow> give_up fuel lib E late w
                  | Some (ps, Ended, w) \<Rightarrow>
                      (case finished_response lib E ses url (concat ps) w of
                         (r, w) \<Rightarrow> Some (r, w, [CallStarted, CallClosed])))))"

text \<open>
  \<open>Session._perform\<close>: the call is composed, started and performed. What it returns last is the
  cookie jar, which composing the call may have pruned. Nothing was started when composing or
  starting it failed.
\<close>

definition perform ::
  "nat \<Rightarrow> ('j, 'c, 's) services \<Rightarrow> session \<Rightarrow> nat \<Rightarrow> string \<Rightarrow> string \<Rightarrow> request_options \<Rightarrow> int \<Rightarrow>
    'j option \<Rightarrow> ((exn + response) \<times> life list \<times> 'j option) option" where
  "perform fuel sv ses k verb url opts limit cookies =
     (case build_call (sv_backends sv) (sv_draw sv k) verb url opts (ses_headers ses) cookies limit of
        (Inl e, cookies) \<Rightarrow> Some (Inl e, [], cookies)
      | (Inr settings, cookies) \<Rightarrow>
          (case sv_start sv k settings of
             Inl e \<Rightarrow> Some (Inl e, [], cookies)
           | Inr (s, E) \<Rightarrow>
               (case perform_call fuel (sv_lib sv) E (sv_seconds sv) ses url opts s of
                  None \<Rightarrow> None
                | Some (r, w, events) \<Rightarrow> Some (r, events, cookies))))"

section \<open>The asyncio session\<close>

text \<open>
  \<open>_progress\<close> waits for the descriptor in the event loop, and \<open>asyncio.timeout\<close> interrupts it when
  the deadline passes. The two loops have no countdown of their own.
\<close>

fun async_headers ::
  "nat \<Rightarrow> 's call_lib \<Rightarrow> 's env \<Rightarrow> rat option \<Rightarrow> 's world \<Rightarrow> (bool \<times> 's world) option" where
  "async_headers 0 lib E deadline w = None"
| "async_headers (Suc fuel) lib E deadline w =
     (case state_of lib E (drain lib E w) of (p, w) \<Rightarrow>
        if p \<noteq> Started then Some (True, w)
        else
          (case poll fuel lib E deadline w of
             None \<Rightarrow> None
           | Some (ready, w) \<Rightarrow> if ready then async_headers fuel lib E deadline w else Some (False, w)))"

fun async_body ::
  "nat \<Rightarrow> 's call_lib \<Rightarrow> 's env \<Rightarrow> rat option \<Rightarrow> 's world \<Rightarrow> (bytes list \<times> body_end \<times> 's world) option" where
  "async_body 0 lib E deadline w = None"
| "async_body (Suc fuel) lib E deadline w =
     (case take_pieces fuel lib E (drain lib E w) of
        None \<Rightarrow> None
      | Some (ps, ended, w) \<Rightarrow>
          if ended then Some (ps, Ended, w)
          else
            (case poll fuel lib E deadline w of
               None \<Rightarrow> None
             | Some (ready, w) \<Rightarrow>
                 if ready then
                   (case async_body fuel lib E deadline w of
                      None \<Rightarrow> None
                    | Some (qs, out, w) \<Rightarrow> Some (ps @ qs, out, w))
                 else Some (ps, TimedOut, w)))"

definition async_timed_out :: "(rat option \<Rightarrow> ustr) \<Rightarrow> session \<Rightarrow> string \<Rightarrow> request_options \<Rightarrow> exn" where
  "async_timed_out seconds ses url opts =
     RequestFailed Timeout
       (cps ''no response within '' @ seconds (timeout_seconds ses opts) @ cps '' seconds'')
       ERROR_TIMED_OUT url"

text \<open>The \<open>finally\<close> of \<open>AsyncSession._perform\<close> and of \<open>stream\<close>: a call that is still running is cancelled.\<close>

definition release ::
  "nat \<Rightarrow> 's call_lib \<Rightarrow> 's env \<Rightarrow> exn + response \<Rightarrow> 's world \<Rightarrow> 's performed" where
  "release fuel lib E r w =
     (case wait_call fuel lib E 0 w of
        None \<Rightarrow> None
      | Some (ended, w) \<Rightarrow>
          if ended then Some (r, w, [CallStarted, CallClosed])
          else Some (r, cancel_call lib E w, [CallStarted, CallCancelled, CallClosed]))"

definition async_perform_call ::
  "nat \<Rightarrow> 's call_lib \<Rightarrow> 's env \<Rightarrow> (rat option \<Rightarrow> ustr) \<Rightarrow> session \<Rightarrow> string \<Rightarrow> request_options \<Rightarrow> 's \<Rightarrow>
    's performed" where
  "async_perform_call fuel lib E seconds ses url opts s =
     (let deadline = map_option (\<lambda>t. clock E 0 + t * 1000) (timeout_seconds ses opts);
          late = async_timed_out seconds ses url opts in
      case async_headers fuel lib E deadline (0, s) of
        None \<Rightarrow> None
      | Some (there, w) \<Rightarrow>
          if \<not> there then release fuel lib E (Inl late) w
          else
            (case result_of lib E url w of
               (Inl e, w) \<Rightarrow> release fuel lib E (Inl e) w
             | (Inr _, w) \<Rightarrow>
                 (case async_body fuel lib E deadline w of
                    None \<Rightarrow> None
                  | Some (ps, TimedOut, w) \<Rightarrow> release fuel lib E (Inl late) w
                  | Some (ps, Ended, w) \<Rightarrow>
                      (case finished_response lib E ses url (concat ps) w of
                         (r, w) \<Rightarrow> release fuel lib E r w))))"

definition async_perform ::
  "nat \<Rightarrow> ('j, 'c, 's) services \<Rightarrow> session \<Rightarrow> nat \<Rightarrow> string \<Rightarrow> string \<Rightarrow> request_options \<Rightarrow> int \<Rightarrow>
    'j option \<Rightarrow> ((exn + response) \<times> life list \<times> 'j option) option" where
  "async_perform fuel sv ses k verb url opts limit cookies =
     (case build_call (sv_backends sv) (sv_draw sv k) verb url opts (ses_headers ses) cookies limit of
        (Inl e, cookies) \<Rightarrow> Some (Inl e, [], cookies)
      | (Inr settings, cookies) \<Rightarrow>
          (case sv_start sv k settings of
             Inl e \<Rightarrow> Some (Inl e, [], cookies)
           | Inr (s, E) \<Rightarrow>
               (case async_perform_call fuel (sv_lib sv) E (sv_seconds sv) ses url opts s of
                  None \<Rightarrow> None
                | Some (r, w, events) \<Rightarrow> Some (r, events, cookies))))"

section \<open>Streaming a response\<close>

text \<open>
  \<open>Session.stream\<close> with a block that reads its response to the end: the response as the block sees
  it, its iterator holding the pieces that will come, and the clean-up after the block. The
  outcome of the call is not looked at again.
\<close>

definition stream_call ::
  "nat \<Rightarrow> 's call_lib \<Rightarrow> 's env \<Rightarrow> (rat option \<Rightarrow> ustr) \<Rightarrow> session \<Rightarrow> string \<Rightarrow> request_options \<Rightarrow> 's \<Rightarrow>
    's performed" where
  "stream_call fuel lib E seconds ses url opts s =
     (let limit = timeout_ms ses opts; late = timed_out seconds ses url opts in
      case wait_for_headers fuel lib E limit (0, s) of
        None \<Rightarrow> None
      | Some (there, w) \<Rightarrow>
          if \<not> there then release fuel lib E (Inl late) w
          else
            (case finished_response lib E ses url [] w of
               (Inl e, w) \<Rightarrow> release fuel lib E (Inl e) w
             | (Inr r, w) \<Rightarrow>
                 (case iter_body fuel lib E limit w of
                    None \<Rightarrow> None
                  | Some (ps, out, w) \<Rightarrow>
                      release fuel lib E (Inr (with_content r [] (Some (BodyStream ps (out = TimedOut))))) w)))"

section \<open>A request\<close>

text \<open>The network of a redirect walk: each hop is one \<open>_perform\<close> that follows nothing itself.\<close>

definition OUT_OF_FUEL :: exn where
  "OUT_OF_FUEL = RuntimeError ''the model ran out of fuel''"

definition hop_network :: "nat \<Rightarrow> ('j, 'c, 's) services \<Rightarrow> session \<Rightarrow> 'j network" where
  "hop_network fuel sv ses k jar verb url opts =
     (case perform fuel sv ses k verb url opts 0 (Some jar) of
        None \<Rightarrow> (Inl OUT_OF_FUEL, jar)
      | Some (r, _, cookies) \<Rightarrow> (r, (case cookies of None \<Rightarrow> jar | Some jar' \<Rightarrow> jar')))"

text \<open>\<open>Session.request\<close>: one call when there is no jar, and a walk over the hops when there is one.\<close>

definition session_request ::
  "nat \<Rightarrow> ('j, 'c, 's) services \<Rightarrow> session \<Rightarrow> string \<Rightarrow> string \<Rightarrow> request_options \<Rightarrow> 'j option \<Rightarrow>
    ((exn + response) \<times> 'j option) option" where
  "session_request fuel sv ses verb url opts cookies =
     (case target url opts of
        Inl e \<Rightarrow> Some (Inl e, cookies)
      | Inr t \<Rightarrow>
          (case cookies of
             None \<Rightarrow>
               (case perform fuel sv ses 0 verb t opts (redirect_limit ses opts) None of
                  None \<Rightarrow> None
                | Some (r, _, _) \<Rightarrow> Some (r, None))
           | Some jar \<Rightarrow>
               (case follow (cookie_lib (sv_backends sv)) (hop_network fuel sv ses) verb t opts
                       (redirect_limit ses opts) jar of
                  None \<Rightarrow> None
                | Some (r, c, _) \<Rightarrow> Some (r, Some (chain_cookies c)))))"

text \<open>\<open>AsyncSession.request\<close> is the same over the asyncio \<open>_perform\<close>.\<close>

definition async_hop_network :: "nat \<Rightarrow> ('j, 'c, 's) services \<Rightarrow> session \<Rightarrow> 'j network" where
  "async_hop_network fuel sv ses k jar verb url opts =
     (case async_perform fuel sv ses k verb url opts 0 (Some jar) of
        None \<Rightarrow> (Inl OUT_OF_FUEL, jar)
      | Some (r, _, cookies) \<Rightarrow> (r, (case cookies of None \<Rightarrow> jar | Some jar' \<Rightarrow> jar')))"

definition async_request ::
  "nat \<Rightarrow> ('j, 'c, 's) services \<Rightarrow> session \<Rightarrow> string \<Rightarrow> string \<Rightarrow> request_options \<Rightarrow> 'j option \<Rightarrow>
    ((exn + response) \<times> 'j option) option" where
  "async_request fuel sv ses verb url opts cookies =
     (case target url opts of
        Inl e \<Rightarrow> Some (Inl e, cookies)
      | Inr t \<Rightarrow>
          (case cookies of
             None \<Rightarrow>
               (case async_perform fuel sv ses 0 verb t opts (redirect_limit ses opts) None of
                  None \<Rightarrow> None
                | Some (r, _, _) \<Rightarrow> Some (r, None))
           | Some jar \<Rightarrow>
               (case follow (cookie_lib (sv_backends sv)) (async_hop_network fuel sv ses) verb t opts
                       (redirect_limit ses opts) jar of
                  None \<Rightarrow> None
                | Some (r, c, _) \<Rightarrow> Some (r, Some (chain_cookies c)))))"

text \<open>The methods that name an HTTP method, \<open>get\<close> to \<open>options\<close>, of both sessions.\<close>

datatype shorthand = Get | Post | Put | Patch | Delete | Head | Options

fun http_method :: "shorthand \<Rightarrow> string" where
  "http_method Get = ''GET''"
| "http_method Post = ''POST''"
| "http_method Put = ''PUT''"
| "http_method Patch = ''PATCH''"
| "http_method Delete = ''DELETE''"
| "http_method Head = ''HEAD''"
| "http_method Options = ''OPTIONS''"

definition session_verb ::
  "nat \<Rightarrow> ('j, 'c, 's) services \<Rightarrow> session \<Rightarrow> shorthand \<Rightarrow> string \<Rightarrow> request_options \<Rightarrow> 'j option \<Rightarrow>
    ((exn + response) \<times> 'j option) option" where
  "session_verb fuel sv ses v url opts cookies =
     session_request fuel sv ses (http_method v) url opts cookies"

definition async_verb ::
  "nat \<Rightarrow> ('j, 'c, 's) services \<Rightarrow> session \<Rightarrow> shorthand \<Rightarrow> string \<Rightarrow> request_options \<Rightarrow> 'j option \<Rightarrow>
    ((exn + response) \<times> 'j option) option" where
  "async_verb fuel sv ses v url opts cookies =
     async_request fuel sv ses (http_method v) url opts cookies"

end
