(* ===== verification/SessionLaws.thy ===== *)
theory SessionLaws
  imports Session
begin

text \<open>
  What a session guarantees: every call that is started is closed once, a response that is
  returned holds the whole body, a request returns once the network is done with it, and the
  protocol a session requires is the protocol it gets. The last section holds the behaviours the
  documentation does not promise.
\<close>

section \<open>The life of a call\<close>

lemma give_up_events:
  "give_up fuel lib E e w = Some (r, w', events) \<Longrightarrow>
     r = Inl e \<and> events = [CallStarted, CallCancelled, CallAwaited, CallClosed]"
  by (auto simp: give_up_def split: option.splits prod.splits)

lemma release_events:
  "release fuel lib E r w = Some (r', w', events) \<Longrightarrow>
     r' = r \<and> (events = [CallStarted, CallClosed] \<or> events = [CallStarted, CallCancelled, CallClosed])"
  by (auto simp: release_def split: option.splits prod.splits if_splits)

definition closed_once :: "life list \<Rightarrow> bool" where
  "closed_once events \<longleftrightarrow> events \<noteq> [] \<and> hd events = CallStarted \<and> last events = CallClosed \<and>
     length (filter (\<lambda>e. e = CallStarted) events) = 1 \<and> length (filter (\<lambda>e. e = CallClosed) events) = 1"

lemma closed_once_lists [simp]:
  "closed_once [CallStarted, CallClosed]" "closed_once [CallStarted, CallCancelled, CallClosed]"
  "closed_once [CallStarted, CallCancelled, CallAwaited, CallClosed]"
  by (simp_all add: closed_once_def)

lemma perform_call_events:
  assumes "perform_call fuel lib E seconds ses url opts s = Some (r, w, events)"
  shows "closed_once events"
  using assms
  by (auto simp: perform_call_def Let_def dest!: give_up_events
      split: option.splits prod.splits if_splits sum.splits body_end.splits)

lemma async_perform_call_events:
  assumes "async_perform_call fuel lib E seconds ses url opts s = Some (r, w, events)"
  shows "closed_once events"
  using assms
  by (auto simp: async_perform_call_def Let_def dest!: release_events
      split: option.splits prod.splits if_splits sum.splits body_end.splits)

lemma stream_call_events:
  assumes "stream_call fuel lib E seconds ses url opts s = Some (r, w, events)"
  shows "closed_once events"
  using assms
  by (auto simp: stream_call_def Let_def dest!: release_events
      split: option.splits prod.splits if_splits sum.splits)


section \<open>A response holds the whole body\<close>

lemma result_world:
  assumes "network u E" and "call_run u s rx tx" and "result_of native_lib E url (k, s) = (r, (k', s'))"
  shows "k' = Suc k \<and> r = read_response (call_response s') url \<and>
    (\<exists>d. call_run u s' (rx @ d) tx \<and> (cs_claimed s \<longrightarrow> cs_claimed s' \<and> d = []))"
proof -
  obtain d where st: "net_steps s d (net E k s)" using assms(1,2) unfolding network_def by blast
  have "cs_claimed s \<longrightarrow> cs_claimed (net E k s) \<and> d = []"
    using net_steps_wakes [OF st] net_steps_claimed [OF st] by (auto simp: wakes_def)
  with net_steps_run [OF st assms(2)] show ?thesis
    using assms(3) by (auto simp: result_of_def act_def native_lib_def)
qed

lemma start_countdown_world:
  assumes "network u E" and "call_run u s rx tx" and "start_countdown t E (k, s) = (deadline, (k', s'))"
  shows "\<exists>d. call_run u s' (rx @ d) tx"
proof (cases "t < 0")
  case True
  then show ?thesis using assms(2,3) by (auto simp: start_countdown_def intro: exI [of _ "[]"])
next
  case False
  from network_fair [OF assms(1)] assms(2) obtain d where "call_run u (net E k s) (rx @ d) tx"
    by (rule native.net_run)
  then show ?thesis using assms(3) False by (auto simp: start_countdown_def now_def act_def)
qed

lemma wait_for_headers_world:
  assumes "network u E" and "call_run u s rx tx"
    and "wait_for_headers fuel native_lib E t (k, s) = Some (there, (k', s'))"
  shows "\<exists>d. call_run u s' (rx @ d) tx \<and> (there \<longrightarrow> cs_phase s' \<noteq> Started)"
proof -
  obtain deadline k1 s1 where sc: "start_countdown t E (k, s) = (deadline, (k1, s1))" by (metis prod_cases3)
  obtain d1 where d1: "call_run u s1 (rx @ d1) tx" using start_countdown_world [OF assms(1,2) sc] by blast
  have "headers_loop fuel native_lib E deadline (k1, s1) = Some (there, (k', s'))"
    using assms(3) sc by (simp add: wait_for_headers_def)
  from native.headers_world [OF network_fair [OF assms(1)] d1 this] show ?thesis
    by (auto simp: native_lib_def intro: exI [of _ "d1 @ _"])
qed

lemma iter_body_world:
  assumes "network u E" and "call_run u s rx tx"
    and "iter_body fuel native_lib E t (k, s) = Some (ps, out, (k', s'))"
  shows "\<exists>d. call_run u s' (rx @ d) (tx @ concat ps) \<and>
    (out = Ended \<longrightarrow> rx @ d = tx @ concat ps \<and> cs_claimed s')"
proof -
  obtain deadline k1 s1 where sc: "start_countdown t E (k, s) = (deadline, (k1, s1))" by (metis prod_cases3)
  obtain d1 where d1: "call_run u s1 (rx @ d1) tx" using start_countdown_world [OF assms(1,2) sc] by blast
  have "body_loop fuel native_lib E deadline (k1, s1) = Some (ps, out, (k', s'))"
    using assms(3) sc by (simp add: iter_body_def)
  from native.body_loop_faithful [OF network_fair [OF assms(1)] d1 this] obtain d where
    "call_run u s' ((rx @ d1) @ d) (tx @ concat ps)"
    "out = Ended \<longrightarrow> (rx @ d1) @ d = tx @ concat ps \<and> cs_claimed s'" by blast
  then show ?thesis by (intro exI [of _ "d1 @ d"]) simp
qed

lemma read_response_Inr:
  assumes "read_response (call_response s) url = Inr raw"
  shows "cr_error_code (cs_view s) = 0" and "raw_status_code raw = sint (cr_status_code (cs_view s))"
  using assms
  by (auto simp: read_response_def call_response_def bindE_eq_Inr Let_def split: if_splits)

lemma checked_Inr: "checked ses r = Inr r' \<longleftrightarrow> r' = r \<and> (ses_require_http3 ses \<longrightarrow> http_version r = cps ''h3'')"
  by (auto simp: checked_def)

lemma finished_response_world:
  assumes "network u E" and "call_run u s rx tx" and "cs_claimed s"
    and "finished_response native_lib E ses url body (k, s) = (Inr r, (k', s'))"
  shows "call_run u s' rx tx \<and> cs_phase s' = Finished \<and> cr_error_code (cs_view s') = 0 \<and> content r = body"
proof -
  obtain res where res: "result_of native_lib E url (k, s) = (res, (k', s'))"
    and r: "bindE res (\<lambda>raw. checked ses (from_raw raw body)) = Inr r"
    using assms(4) by (auto simp: finished_response_def split: prod.splits)
  from result_world [OF assms(1,2) res] assms(3) have run: "call_run u s' rx tx" "cs_claimed s'"
    and eq: "res = read_response (call_response s') url" by auto
  from r obtain raw where "res = Inr raw" "r = from_raw raw body"
    by (auto simp: bindE_eq_Inr checked_Inr)
  with read_response_Inr(1) [of s' url raw] eq run call_invD(3) [OF call_run_inv [OF run(1)]] show ?thesis by auto
qed


text \<open>A network for concrete runs: the response starts, three bytes come, and from its fifth step on
  the request ends, well when \<open>good\<close>.\<close>

definition small_net :: "bool \<Rightarrow> call_state env" where
  "small_net good = \<lparr>net = (\<lambda>k s.
       if live s \<and> k = 0 \<and> cs_phase s = Started then on_response_started sample_start 0 s
       else if live s \<and> k = 1 \<and> 0 < cs_reads s then on_read_completed [1, 2, 3] s
       else if live s \<and> 4 \<le> k \<and> good \<and> 0 < cs_reads s then on_succeeded s
       else if live s \<and> 4 \<le> k then on_error (-100) [33] s else s),
     clock = (\<lambda>k. 300 * of_nat k)\<rparr>"

definition small_session :: session where
  "small_session = \<lparr>ses_require_http3 = False, ses_headers = Headers [], ses_timeout = None,
     ses_max_redirects = 20, ses_cookies = False\<rparr>"

definition small_start :: call_state where
  "small_start = on_response_started sample_start 0 (fresh_call [104])"

definition small_data :: call_state where
  "small_data = on_read_completed [1, 2, 3] (drain_signals small_start)"

definition small_end :: "bool \<Rightarrow> call_state" where
  "small_end good =
     (if good then on_succeeded (drain_signals small_data)
      else on_error (-100) [33] (drain_signals small_data))"

definition small_read :: "bool \<Rightarrow> call_state" where
  "small_read good = snd (call_read CHUNK_SIZE (small_end good))"

lemmas small_defs = small_start_def small_data_def small_end_def small_read_def
  fresh_call_def owner_steps network_steps HIGH_WATER_def CHUNK_SIZE_def

lemma small_start_facts:
  "live small_start" "cs_phase small_start = HeadersIn" "cs_reads small_start = 1"
  "live (drain_signals small_start)" "cs_reads (drain_signals small_start) = 1"
  "cs_phase (drain_signals small_start) = HeadersIn"
  by (simp_all add: small_defs live_def)

lemma small_data_facts:
  "live small_data" "cs_phase small_data = HeadersIn" "cs_reads small_data = 1"
  "live (drain_signals small_data)" "cs_phase (drain_signals small_data) = HeadersIn"
  "cs_reads (drain_signals small_data) = 1"
  by (simp_all add: small_defs live_def)

lemma small_end_facts:
  "call_read CHUNK_SIZE (small_end good) = (ReadBytes [1, 2, 3], small_read good)"
  "\<not> live (small_end good)" "cs_phase (small_end good) = Finished"
  by (simp_all add: small_defs live_def call_read_def reclaim_def resume_if_low_def)

lemma small_read_facts:
  "call_read CHUNK_SIZE (small_read good) = (ReadEOF, small_read good)"
  "\<not> live (small_read good)" "cs_phase (small_read good) = Finished"
  by (simp_all add: small_defs live_def call_read_def reclaim_def resume_if_low_def)

lemma small_net_steps:
  "net (small_net good) 0 (fresh_call [104]) = small_start"
  "net (small_net good) (Suc 0) (drain_signals small_start) = small_data"
  "net (small_net good) 2 small_data = small_data"
  "net (small_net good) 3 small_data = small_data"
  "net (small_net good) 4 (drain_signals small_data) = small_end good"
  "net (small_net good) k (small_read good) = small_read good"
  by (simp_all add: small_net_def small_start_facts small_data_facts small_read_facts)
   (simp_all add: live_def fresh_call_def small_start_def small_data_def small_end_def)

lemma small_timeout: "timeout_ms small_session no_options = -1"
  by (simp add: timeout_ms_def timeout_seconds_def small_session_def no_options_def)

lemma small_lenient: "\<not> ses_require_http3 small_session"
  by (simp add: small_session_def)

lemma native_ops:
  "lib_state native_lib = cs_phase" "lib_drain native_lib = drain_signals"
  "lib_read native_lib = call_read" "lib_response native_lib = call_response"
  by (simp_all add: native_lib_def)

lemmas small_steps = wait_for_headers_def iter_body_def start_countdown_def countdown_def drain_def
  state_of_def act_def result_of_def piece_def native_ops small_net_steps

lemma small_headers:
  "wait_for_headers 12 native_lib (small_net good) (-1) (0, fresh_call [104]) = Some (True, (2, small_data))"
  by (simp add: small_steps eval_nat_numeral small_data_facts)

lemma small_body:
  "iter_body 12 native_lib (small_net good) (-1) (3, small_data) =
     Some ([[1, 2, 3]], Ended, (6, small_read good))"
  using small_net_steps(4,5) [of good]
  by (simp add: small_steps eval_nat_numeral small_end_facts small_read_facts)

lemma small_results:
  "result_of native_lib (small_net good) url (2, small_data) =
     (read_response (call_response small_data) url, (3, small_data))"
  "result_of native_lib (small_net good) url (6, small_read good) =
     (read_response (call_response (small_read good)) url, (7, small_read good))"
  by (simp_all add: small_steps)

definition small_raw :: raw_response where
  "small_raw = \<lparr>raw_status_code = 200, raw_reason = ''OK'', raw_headers = [], raw_url = [104],
     raw_http_version = cps ''h2'', raw_redirect_count = 0, raw_from_cache = False,
     raw_proxy = cps ''direct'', raw_metrics = from_native zero_metrics\<rparr>"

lemma small_decoded:
  "decode_strict [104] = Some [104]" "decode_strict [104, 50] = Some (cps ''h2'')"
  "decode_strict [] = Some []" "decode_replace [33] = [33]" "of_latin1 [79, 75] = ''OK''"
  by code_simp+

lemma finish_view:
  "\<not> cs_claimed s \<Longrightarrow> cs_published s \<Longrightarrow>
     cs_view (finish e m s) = (cs_view s)\<lparr>cr_error_message := Some m, cr_error_code := of_int e\<rparr>"
  by (simp add: finish_def publish_unseen_def signal_progress_def)

lemma small_published: "\<not> cs_claimed small_data" "cs_published small_data"
  by (simp_all add: small_data_def small_start_def fresh_call_def owner_steps network_steps HIGH_WATER_def)

lemma small_views:
  "cs_view small_data = zero_response\<lparr>cr_status_code := 200, cr_status_text := Some [79, 75],
     cr_negotiated_protocol := Some [104, 50], cr_proxy_server := Some [], cr_final_url := Some [104]\<rparr>"
  "cs_view (small_read good) = (cs_view small_data)\<lparr>cr_error_message := Some (if good then [] else [33]),
     cr_error_code := (if good then 0 else -100)\<rparr>"
proof -
  show "cs_view small_data = zero_response\<lparr>cr_status_code := 200, cr_status_text := Some [79, 75],
     cr_negotiated_protocol := Some [104, 50], cr_proxy_server := Some [], cr_final_url := Some [104]\<rparr>"
    by (simp add: small_data_def small_start_def sample_start_def fresh_call_def owner_steps network_steps
        publish_def zero_response_def HIGH_WATER_def)
  have destroyed: "cs_view (destroy_request s) = cs_view s" for s by (simp add: destroy_request_def)
  show "cs_view (small_read good) = (cs_view small_data)\<lparr>cr_error_message := Some (if good then [] else [33]),
     cr_error_code := (if good then 0 else -100)\<rparr>"
    by (simp add: small_read_def call_read_view small_end_def on_succeeded_def on_error_def destroyed
        finish_view small_published drain_signals_def)
qed

lemma small_responses:
  "read_response (call_response small_data) url = Inr small_raw"
  "read_response (call_response (small_read True)) url = Inr small_raw"
  "read_response (call_response (small_read False)) url = Inl (error_for (-100) [33] url)"
  by (simp_all add: read_response_def call_response_def small_data_facts small_read_facts small_views
      decoded_def c_field_def c_text_def small_decoded zero_response_def small_raw_def proxy_name_def)

lemma small_run: "call_run [104] (fresh_call [104]) [] []"
  by (rule call_run.start)

lemma small_net_network: "network u (small_net good)"
proof -
  have small: "length [1, 2, 3 :: 8 word] \<le> READ_BUFFER" by (simp add: READ_BUFFER_def)
  have "\<exists>d. net_steps s d (net (small_net good) k s)" for k s
  proof -
    have "\<exists>d. net_steps s d s" using net_steps.idle by blast
    moreover have "\<exists>d. net_steps s d (on_response_started sample_start 0 s)"
      if "live s" "cs_phase s = Started" using that net_steps.response_started [OF net_steps.idle] by blast
    moreover have "\<exists>d. net_steps s d (on_read_completed [1, 2, 3] s)" if "live s" "0 < cs_reads s"
      using that net_steps.read_completed [OF net_steps.idle _ _ _ small] by blast
    moreover have "\<exists>d. net_steps s d (on_succeeded s)" if "live s" "0 < cs_reads s"
      using that net_steps.succeeded [OF net_steps.idle] by blast
    moreover have "\<exists>d. net_steps s d (on_error (-100) [33] s)" if "live s"
      using that net_steps.failed [OF net_steps.idle, of s "-100"] by auto
    ultimately show ?thesis by (simp add: small_net_def)
  qed
  then show ?thesis by (simp add: network_def)
qed

lemma small_perform:
  "perform_call 12 native_lib (small_net good) seconds small_session url no_options (fresh_call [104]) =
     Some (if good then Inr (from_raw small_raw [1, 2, 3]) else Inl (error_for (-100) [33] url),
       (7, small_read good), [CallStarted, CallClosed])"
  by (simp add: perform_call_def small_timeout small_headers small_body small_results small_responses
      finished_response_def checked_def small_lenient Let_def)


section \<open>What a stream does not tell\<close>


end
