(* ===== verification/SessionProtocol.thy ===== *)
theory SessionProtocol
  imports SessionLaws
begin

text \<open>
  Guarantees of a whole request: the protocol a session requires is the protocol of every response it
  returns, along redirects too; the blocking and the asyncio session give the same result when
  nothing limits their time; and a request returns once the network is done with its calls.
\<close>

section \<open>The required protocol\<close>

definition over_http3 :: "response \<Rightarrow> bool" where
  "over_http3 r \<longleftrightarrow> http_version r = cps ''h3''"

lemma finished_response_h3:
  assumes "finished_response lib E ses url body w = (Inr r, w')" and "ses_require_http3 ses"
  shows "over_http3 r"
  using assms
  by (auto simp: finished_response_def bindE_eq_Inr checked_Inr over_http3_def split: prod.splits)

lemma perform_call_h3:
  assumes "perform_call fuel lib E seconds ses url opts s = Some (Inr r, w, events)"
    and "ses_require_http3 ses"
  shows "over_http3 r"
  using assms
  by (auto simp: perform_call_def Let_def dest!: give_up_events intro: finished_response_h3
      split: option.splits prod.splits if_splits sum.splits body_end.splits)

lemma perform_h3:
  assumes "perform fuel sv ses k verb url opts limit cookies = Some (Inr r, events, cookies')"
    and "ses_require_http3 ses"
  shows "over_http3 r"
  using assms
  by (auto simp: perform_def intro: perform_call_h3 split: option.splits prod.splits sum.splits)

text \<open>A walk ends on a response of its network: what holds of those holds of its result.\<close>

lemma walk_result:
  assumes "walk fuel lib perf c trace = Some (Inr r, c', trace')"
    and "\<And>k jar verb url opts r jar'. perf k jar verb url opts = (Inr r, jar') \<Longrightarrow> P r"
    and "\<And>r hs. P r \<Longrightarrow> P (with_history r hs)"
    and "\<And>r. chain_final c = Some r \<Longrightarrow> P r"
  shows "P r"
  using assms(1,4)
proof (induction fuel arbitrary: c trace)
  case (Suc fuel)
  show ?case
  proof (cases "chain_pending c")
    case None
    with Suc.prems show ?thesis by (auto simp: chain_result_def split: option.splits)
  next
    case (Some hop)
    obtain verb url opts where hop: "hop = (verb, url, opts)" by (cases hop)
    obtain out jar where p: "perf (length trace) (chain_cookies c) verb url opts = (out, jar)" by force
    then obtain r1 where r1: "out = Inr r1" using Suc.prems(1) Some hop by (cases out) auto
    obtain res c1 where rc: "receive lib (c\<lparr>chain_cookies := jar\<rparr>) r1 = (res, c1)" by force
    have pend: "chain_pending (c\<lparr>chain_cookies := jar\<rparr>) = Some (verb, url, opts)" using Some hop by simp
    obtain u where u: "res = Inr u" using Suc.prems(1) Some hop p r1 rc by (cases res) auto
    have more: "walk fuel lib perf c1 (trace @ [((verb, url, opts), r1)]) = Some (Inr r, c', trace')"
      using Suc.prems(1) Some hop p r1 rc u by simp
    have "P r1" using assms(2) p r1 by blast
    have "P r2" if "chain_final c1 = Some r2" for r2
      using pend rc
    proof (cases rule: receive_cases)
      case last
      then show ?thesis using that \<open>P r1\<close> assms(3) by auto
    next
      case more
      then show ?thesis using that Suc.prems(2) by simp
    qed (use u in simp_all)
    from Suc.IH [OF more this] show ?thesis .
  qed
qed simp

lemma over_http3_with_history [simp]: "over_http3 (with_history r hs) = over_http3 r"
  by (simp add: over_http3_def)

text \<open>C8. A session that requires HTTP/3 never returns a response that came over anything else, with a
  cookie jar or without one, whatever redirects were followed.\<close>

theorem required_protocol_kept:
  assumes "session_request fuel sv ses verb url opts cookies = Some (Inr r, cookies')"
    and "ses_require_http3 ses"
  shows "over_http3 r"
proof -
  obtain t where t: "target url opts = Inr t"
    using assms(1) by (auto simp: session_request_def split: sum.splits)
  show ?thesis
  proof (cases cookies)
    case None
    with assms t show ?thesis
      by (auto simp: session_request_def intro: perform_h3 split: option.splits)
  next
    case (Some jar)
    then obtain c trace where f: "follow (cookie_lib (sv_backends sv)) (hop_network fuel sv ses) verb t opts
        (redirect_limit ses opts) jar = Some (Inr r, c, trace)"
      using assms(1) t by (auto simp: session_request_def split: option.splits)
    have hops: "over_http3 r"
      if "hop_network fuel sv ses k jar verb url opts = (Inr r, jar')" for k jar verb url opts r jar'
      using that assms(2) by (auto simp: hop_network_def intro: perform_h3 split: option.splits prod.splits)
    show ?thesis
      by (rule walk_result [OF f [unfolded follow_def], where P = "\<lambda>r. over_http3 r"])
        (use hops in \<open>auto simp: start_chain_def\<close>)
  qed
qed

text \<open>For a concrete run: a library whose calls are already over, each with the response it is given.\<close>

definition over_lib :: "c_response call_lib" where
  "over_lib = \<lparr>lib_read = (\<lambda>n s. (ReadEOF, s)), lib_state = (\<lambda>s. Finished), lib_drain = id,
     lib_readable = (\<lambda>s. True), lib_cancel = id, lib_response = Some\<rparr>"

definition h3_response :: c_response where
  "h3_response = zero_response\<lparr>cr_status_code := 200, cr_negotiated_protocol := Some [104, 51]\<rparr>"

definition h3_services :: "(unit, string, c_response) services" where
  "h3_services = \<lparr>sv_backends = plain_backends, sv_draw = (\<lambda>k i. 0), sv_lib = over_lib,
     sv_start = (\<lambda>k settings. Inr (h3_response, \<lparr>net = (\<lambda>k s. s), clock = (\<lambda>k. 0)\<rparr>)),
     sv_seconds = (\<lambda>t. [])\<rparr>"

definition h3_session :: session where
  "h3_session = small_session\<lparr>ses_require_http3 := True\<rparr>"

definition h3_raw :: raw_response where
  "h3_raw = \<lparr>raw_status_code = 200, raw_reason = [], raw_headers = [], raw_url = [],
     raw_http_version = cps ''h3'', raw_redirect_count = 0, raw_from_cache = False,
     raw_proxy = cps ''direct'', raw_metrics = from_native zero_metrics\<rparr>"

lemma h3_read: "read_response (Some h3_response) url = Inr h3_raw"
proof -
  have d: "decode_strict [104, 51] = Some (cps ''h3'')" "decode_strict [] = Some []" "of_latin1 [] = []"
    by code_simp+
  show ?thesis
    by (simp only: read_response_def h3_response_def zero_response_def)
      (simp add: decoded_def c_field_def c_text_def d h3_raw_def proxy_name_def)
qed

lemma h3_performed:
  "perform_call 3 over_lib \<lparr>net = (\<lambda>k s. s), clock = (\<lambda>k. 0)\<rparr> seconds h3_session url no_options h3_response =
     Some (Inr (from_raw h3_raw []), (6, h3_response), [CallStarted, CallClosed])"
proof -
  have "timeout_ms h3_session no_options = -1"
    "checked h3_session (from_raw h3_raw []) = Inr (from_raw h3_raw [])"
    by (simp_all add: h3_session_def small_session_def timeout_ms_def timeout_seconds_def no_options_def
        checked_def h3_raw_def)
  then show ?thesis
    by (simp add: perform_call_def wait_for_headers_def iter_body_def start_countdown_def countdown_def
        drain_def state_of_def act_def result_of_def piece_def finished_response_def
        over_lib_def h3_read numeral_3_eq_3)
qed

lemma plain_target: "target ''https://h/'' no_options = Inr ''https://h/''"
proof -
  have "checked_url ''https://h/'' = Inr ''https://h/''" by code_simp
  then show ?thesis
    by (simp add: target_def check_options_def check_headers_def no_options_def with_query_def)
qed

lemma plain_build_no_jar:
  "build_call plain_backends draw ''GET'' url no_options (Headers []) None limit =
     (Inr \<lparr>call_method = ''GET'', call_url = url, call_headers = [], call_body = [], call_priority = 4,
        call_max_redirects = limit, call_disable_cache = False\<rparr>, None)"
proof -
  have "merged_headers no_options (Headers []) = Headers []" by code_simp
  then show ?thesis
    by (simp add: build_call_def encode_body_def given_bodies_def no_options_def authorization_def
        consult_jar_def plain_backends_def implied_additions_def native_priority_def)
qed

theorem required_protocol_kept_witness:
  "over_http3 (from_raw h3_raw [])"
proof (rule required_protocol_kept)
  have headers: "ses_headers h3_session = Headers []" by (simp add: h3_session_def small_session_def)
  show "session_request 3 h3_services h3_session ''GET'' ''https://h/'' no_options None =
      Some (Inr (from_raw h3_raw []), None)"
    by (simp add: session_request_def plain_target perform_def h3_services_def headers
        plain_build_no_jar h3_performed)
  show "ses_require_http3 h3_session" by (simp add: h3_session_def)
qed

section \<open>Blocking and asyncio\<close>

lemma async_headers_unlimited:
  "async_headers fuel lib E None w = headers_loop fuel lib E None w"
  by (induction fuel arbitrary: w)
    (simp_all add: countdown_def wait_for_progress_def split: prod.splits option.splits)

lemma async_body_unlimited:
  "async_body fuel lib E None w = body_loop fuel lib E None w"
  by (induction fuel arbitrary: w)
    (simp_all add: countdown_def wait_for_progress_def split: prod.splits option.splits)

text \<open>Without a deadline no wait gives up.\<close>

lemma unlimited_poll: "poll fuel lib E None w = Some (ready, w') \<Longrightarrow> ready"
  by (induction fuel arbitrary: w) (auto split: prod.splits if_splits)

lemma unlimited_headers: "headers_loop fuel lib E None w = Some (there, w') \<Longrightarrow> there"
  by (induction fuel arbitrary: w)
    (auto simp: countdown_def wait_for_progress_def dest: unlimited_poll
      split: prod.splits if_splits option.splits)

lemma unlimited_body: "body_loop fuel lib E None w = Some (ps, out, w') \<Longrightarrow> out = Ended"
  by (induction fuel arbitrary: w ps)
    (auto simp: countdown_def wait_for_progress_def dest: unlimited_poll
      split: prod.splits if_splits option.splits)

lemma release_finished:
  assumes "native.fair u E" and "native.done_by u E n" and "call_run u s rx tx" and "n - k < fuel"
  shows "\<exists>w' events. release fuel native_lib E r (k, s) = Some (r, w', events)"
proof -
  from native.wait_finished_returns [OF assms, of "Some (clock E k)"] obtain ended k' s' where
    "wait_finished fuel native_lib E (Some (clock E k)) (k, s) = Some (ended, (k', s'))" by blast
  then show ?thesis by (cases ended) (simp_all add: release_def wait_call_def)
qed

text \<open>Enough fuel for any request over a network that is done by its \<open>n\<close>-th step.\<close>

definition request_fuel :: "nat \<Rightarrow> nat" where
  "request_fuel n = n + HIGH_WATER + READ_BUFFER + 4"

lemma perform_call_returns:
  assumes "network u E" and "finishes_by u n E" and "call_run u s [] []" and "request_fuel n \<le> fuel"
  shows "\<exists>r w events. perform_call fuel native_lib E seconds ses url opts s = Some (r, w, events)"
proof -
  note fair = network_fair [OF assms(1)] and fin = finishes_done [OF assms(2)]
  let ?t = "timeout_ms ses opts" and ?late = "timed_out seconds ses url opts"
  have fuel: "n - k + 1 < fuel" "n - k < fuel" "n - k + (HIGH_WATER + READ_BUFFER) + 3 < fuel" for k
    using assms(4) by (simp_all add: request_fuel_def)
  have stop: "\<exists>r w events. give_up fuel native_lib E e (k, s) = Some (r, w, events)"
    if "call_run u s rx tx" for e k s rx tx
  proof -
    obtain k1 s1 where c: "cancel_call native_lib E (k, s) = (k1, s1)" by force
    from fair that obtain d where "call_run u (net E k s) (rx @ d) tx" by (rule native.net_run)
    from native.cancel_run [OF this] have run: "call_run u s1 (rx @ d) tx"
      using c by (simp add: cancel_call_def act_def)
    obtain ended k2 s2 where "wait_finished fuel native_lib E None (k1, s1) = Some (ended, (k2, s2))"
      using native.wait_finished_returns [OF fair fin run fuel(2), of None] by blast
    with c show ?thesis by (simp add: give_up_def wait_call_def)
  qed
  obtain deadline k0 s0 where sc: "start_countdown ?t E (0, s) = (deadline, (k0, s0))" by (metis prod_cases3)
  obtain d0 where d0: "call_run u s0 ([] @ d0) []" using start_countdown_world [OF assms(1,3) sc] by blast
  obtain there k1 s1 where h: "wait_for_headers fuel native_lib E ?t (0, s) = Some (there, (k1, s1))"
    using native.headers_loop_returns [OF fair fin d0 fuel(1) [of k0], of deadline] sc
    unfolding wait_for_headers_def by fastforce
  obtain d1 where d1: "call_run u s1 ([] @ d1) []" using wait_for_headers_world [OF assms(1,3) h] by blast
  obtain res k2 s2 where r: "result_of native_lib E url (k1, s1) = (res, (k2, s2))" by (metis prod_cases3)
  obtain d2 where d2: "call_run u s2 (([] @ d1) @ d2) []" using result_world [OF assms(1) d1 r] by blast
  obtain dl k3 s3 where sb: "start_countdown ?t E (k2, s2) = (dl, (k3, s3))" by (metis prod_cases3)
  obtain d3 where d3: "call_run u s3 ((([] @ d1) @ d2) @ d3) []" using start_countdown_world [OF assms(1) d2 sb] by blast
  obtain ps out k4 s4 where b: "iter_body fuel native_lib E ?t (k2, s2) = Some (ps, out, (k4, s4))"
    using native.body_loop_returns [OF fair fin d3 fuel(3) [of k3], of dl] sb
    unfolding iter_body_def by fastforce
  obtain d4 where d4: "call_run u s4 ((([] @ d1) @ d2) @ d4) ([] @ concat ps)"
    using iter_body_world [OF assms(1) d2 b] by blast
  show ?thesis
    using h r b stop [OF d1, of ?late k1] stop [OF d4, of ?late k4]
    by (cases there; cases res; cases out)
      (auto simp: perform_call_def Let_def split: prod.splits)
qed

text \<open>A session whose calls run on the native library, each over a network that will be done.\<close>

definition calls_finish :: "nat \<Rightarrow> ('j, 'c, call_state) services \<Rightarrow> bool" where
  "calls_finish n sv \<longleftrightarrow> sv_lib sv = native_lib \<and>
     (\<forall>k settings s E. sv_start sv k settings = Inr (s, E) \<longrightarrow>
        (\<exists>u. call_run u s [] [] \<and> network u E \<and> finishes_by u n E))"

lemma perform_returns:
  assumes "calls_finish n sv" and "request_fuel n \<le> fuel"
  shows "\<exists>r events cookies'. perform fuel sv ses k verb url opts limit cookies = Some (r, events, cookies')"
proof -
  have "\<exists>r w events. perform_call fuel (sv_lib sv) E (sv_seconds sv) ses url opts s = Some (r, w, events)"
    if started: "sv_start sv k settings = Inr (s, E)" for s E settings
  proof -
    obtain u where "call_run u s [] []" "network u E" "finishes_by u n E" "sv_lib sv = native_lib"
      using assms(1) started unfolding calls_finish_def by blast
    with perform_call_returns assms(2) show ?thesis by metis
  qed
  then show ?thesis by (fastforce simp: perform_def split: prod.splits sum.splits option.splits)
qed

lemma follow_returns: "\<exists>r c trace. follow lib perf verb t opts limit jar = Some (r, c, trace)"
proof -
  let ?c = "start_chain verb t opts limit jar"
  have inv: "chain_inv ?c []" and fuel: "fuel_needed ?c [] \<le> walk_fuel limit"
    by (simp_all add: start_chain_def chain_inv_def fuel_needed_def walk_fuel_def)
  from walk_ends [OF this, of lib perf] show ?thesis unfolding follow_def by blast
qed

text \<open>C12. Every request ends: over calls whose networks are done by their \<open>n\<close>-th step, whatever the
  timeout, the servers' redirects and the cookie jar, \<open>request\<close> returns or raises, and no call it
  makes on the way is left waiting.\<close>

theorem request_returns:
  assumes "calls_finish n sv" and "request_fuel n \<le> fuel"
  shows "(\<exists>r cookies'. session_request fuel sv ses verb url opts cookies = Some (r, cookies')) \<and>
    (\<exists>r events cookies'. perform fuel sv ses k verb' url' opts' limit cookies = Some (r, events, cookies'))"
proof -
  note returns = perform_returns [OF assms]
  have "\<exists>r cookies'. session_request fuel sv ses verb url opts cookies = Some (r, cookies')"
  proof (cases "target url opts")
    case (Inr t)
    show ?thesis
    proof (cases cookies)
      case None
      obtain r events c where "perform fuel sv ses 0 verb t opts (redirect_limit ses opts) None = Some (r, events, c)"
        using returns by blast
      with Inr None show ?thesis by (simp add: session_request_def)
    next
      case (Some jar)
      obtain r c trace where "follow (cookie_lib (sv_backends sv)) (hop_network fuel sv ses) verb t opts
          (redirect_limit ses opts) jar = Some (r, c, trace)"
        using follow_returns [of "cookie_lib (sv_backends sv)" "hop_network fuel sv ses" verb t opts
            "redirect_limit ses opts" jar] by auto
      with Inr Some show ?thesis by (simp add: session_request_def)
    qed
  qed (simp add: session_request_def)
  with returns show ?thesis by blast
qed

text \<open>A session over a network that sends three bytes and breaks off.\<close>

definition sample_services :: "(unit, string, call_state) services" where
  "sample_services = \<lparr>sv_backends = plain_backends, sv_draw = (\<lambda>k i. 0), sv_lib = native_lib,
     sv_start = (\<lambda>k settings. Inr (fresh_call [104], sample_net)), sv_seconds = (\<lambda>t. [])\<rparr>"

lemma sample_services_finish: "calls_finish 2 sample_services"
  using sample_net_network sample_net_finishes call_run.start
  by (auto simp: calls_finish_def sample_services_def)

theorem request_returns_witness:
  "(\<exists>r cookies'. session_request (request_fuel 2) sample_services small_session ''GET'' ''https://h/'' no_options None =
      Some (r, cookies')) \<and>
   (\<exists>r events cookies'. perform (request_fuel 2) sample_services small_session 0 ''GET'' ''https://h/'' no_options 20 None =
      Some (r, events, cookies'))"
  by (rule request_returns [OF sample_services_finish order_refl])

text \<open>One call: the two sessions make the same of it.\<close>

lemma async_call_agrees:
  assumes "network u E" and "finishes_by u n E" and "call_run u s [] []" and "request_fuel n \<le> fuel"
    and "timeout_seconds ses opts = None"
  shows "\<exists>r w w' events events'.
    perform_call fuel native_lib E seconds ses url opts s = Some (r, w, events) \<and>
    async_perform_call fuel native_lib E seconds ses url opts s = Some (r, w', events')"
proof -
  note fair = network_fair [OF assms(1)] and fin = finishes_done [OF assms(2)]
  have fuel: "n - k < fuel" for k using assms(4) by (simp add: request_fuel_def)
  have unlimited: "timeout_ms ses opts = -1" using assms(5) by (simp add: timeout_ms_def)
  have start: "start_countdown (-1) E w = (None, w)" for w by (simp add: start_countdown_def)
  have rel: "\<exists>w' events. release fuel native_lib E r (k, s) = Some (r, w', events)"
    if "call_run u s rx tx" for r k s rx tx
    by (rule release_finished [OF fair fin that fuel])
  obtain r w events where p: "perform_call fuel native_lib E seconds ses url opts s = Some (r, w, events)"
    using perform_call_returns [OF assms(1-4)] by blast
  obtain there k1 s1 where h: "headers_loop fuel native_lib E None (0, s) = Some (there, (k1, s1))"
    using p by (auto simp: perform_call_def unlimited wait_for_headers_def start Let_def split: option.splits)
  have wh: "wait_for_headers fuel native_lib E (-1) (0, s) = Some (there, (k1, s1))"
    using h by (simp add: wait_for_headers_def start)
  obtain d1 where d1: "call_run u s1 ([] @ d1) []" using wait_for_headers_world [OF assms(1,3) wh] by blast
  have there
    using unlimited_headers [OF h] .
  obtain res k2 s2 where r: "result_of native_lib E url (k1, s1) = (res, (k2, s2))" by (metis prod_cases3)
  obtain d2 where d2: "call_run u s2 (([] @ d1) @ d2) []" using result_world [OF assms(1) d1 r] by blast
  show ?thesis
  proof (cases res)
    case (Inl e)
    with rel [OF d2, of "Inl e" k2] p h wh r \<open>there\<close> show ?thesis
      by (auto simp: perform_call_def async_perform_call_def unlimited assms(5) async_headers_unlimited Let_def)
  next
    case (Inr raw)
    obtain ps out k3 s3 where b: "body_loop fuel native_lib E None (k2, s2) = Some (ps, out, (k3, s3))"
      using p wh r \<open>there\<close> Inr
      by (auto simp: perform_call_def unlimited iter_body_def start Let_def split: option.splits)
    have ib: "iter_body fuel native_lib E (-1) (k2, s2) = Some (ps, out, (k3, s3))"
      using b by (simp add: iter_body_def start)
    obtain d3 where d3: "call_run u s3 ((([] @ d1) @ d2) @ d3) ([] @ concat ps)"
      using iter_body_world [OF assms(1) d2 ib] by blast
    have "out = Ended" using unlimited_body [OF b] .
    obtain res' k4 s4 where f: "finished_response native_lib E ses url (concat ps) (k3, s3) = (res', (k4, s4))"
      by (metis prod_cases3)
    obtain d4 where d4: "call_run u s4 (((([] @ d1) @ d2) @ d3) @ d4) ([] @ concat ps)"
      using f result_world [OF assms(1) d3] unfolding finished_response_def by (fastforce split: prod.splits)
    from rel [OF d4, of res' k4] p h wh r b ib f \<open>there\<close> \<open>out = Ended\<close> Inr show ?thesis
      by (auto simp: perform_call_def async_perform_call_def unlimited assms(5) async_headers_unlimited
          async_body_unlimited Let_def)
  qed
qed

lemma async_perform_agrees:
  assumes "calls_finish n sv" and "request_fuel n \<le> fuel" and "timeout_seconds ses opts = None"
  shows "\<exists>r cookies' events events'.
    perform fuel sv ses k verb url opts limit cookies = Some (r, events, cookies') \<and>
    async_perform fuel sv ses k verb url opts limit cookies = Some (r, events', cookies')"
proof -
  obtain built jar where c: "build_call (sv_backends sv) (sv_draw sv k) verb url opts (ses_headers ses) cookies limit =
    (built, jar)" by force
  show ?thesis
  proof (cases built)
    case (Inr settings)
    show ?thesis
    proof (cases "sv_start sv k settings")
      case start: (Inr call)
      obtain s E where call: "call = (s, E)" by force
      obtain u where u: "call_run u s [] []" "network u E" "finishes_by u n E" and lib: "sv_lib sv = native_lib"
        using assms(1) start call unfolding calls_finish_def by blast
      obtain r w w' events events' where
        "perform_call fuel native_lib E (sv_seconds sv) ses url opts s = Some (r, w, events)"
        "async_perform_call fuel native_lib E (sv_seconds sv) ses url opts s = Some (r, w', events')"
        using async_call_agrees [OF u(2,3,1) assms(2,3)] by blast
      then show ?thesis using c Inr start call lib by (simp add: perform_def async_perform_def)
    qed (use c Inr in \<open>simp add: perform_def async_perform_def\<close>)
  qed (use c in \<open>simp add: perform_def async_perform_def\<close>)
qed

text \<open>Two networks that answer alike whenever a hop has a property that redirects keep make the same walk.\<close>

lemma walk_cong:
  assumes "\<And>k jar verb url opts. P opts \<Longrightarrow> perf k jar verb url opts = perf' k jar verb url opts"
    and "\<And>verb url r opts verb' url' opts'. next_hop verb url r opts = Inr (Some (verb', url', opts')) \<Longrightarrow>
      P opts \<Longrightarrow> P opts'"
    and "\<And>verb url opts. chain_pending c = Some (verb, url, opts) \<Longrightarrow> P opts"
  shows "walk fuel lib perf c trace = walk fuel lib perf' c trace"
  using assms(3)
proof (induction fuel arbitrary: c trace)
  case (Suc fuel)
  show ?case
  proof (cases "chain_pending c")
    case (Some hop)
    obtain verb url opts where hop: "hop = (verb, url, opts)" by (cases hop)
    have P: "P opts" using Suc.prems Some hop by simp
    obtain out jar where p: "perf (length trace) (chain_cookies c) verb url opts = (out, jar)" by force
    have p': "perf' (length trace) (chain_cookies c) verb url opts = (out, jar)" using p assms(1) [OF P] by simp
    show ?thesis
    proof (cases out)
      case (Inl e)
      then show ?thesis using Some hop p p' by simp
    next
      case (Inr r)
      obtain res c1 where rc: "receive lib (c\<lparr>chain_cookies := jar\<rparr>) r = (res, c1)" by force
      have pend: "chain_pending (c\<lparr>chain_cookies := jar\<rparr>) = Some (verb, url, opts)" using Some hop by simp
      have "P opts'" if "chain_pending c1 = Some (verb', url', opts')" "res = Inr u" for verb' url' opts' u
        using pend rc by (cases rule: receive_cases) (use that assms(2) P in auto)
      then have "walk fuel lib perf c1 t = walk fuel lib perf' c1 t" if "res = Inr u" for t u
        using Suc.IH that by blast
      then show ?thesis using Some hop p p' Inr rc by (simp split: sum.splits)
    qed
  qed simp
qed simp

lemma next_hop_timeout:
  assumes "next_hop verb url r opts = Inr (Some (verb', url', opts'))"
  shows "opt_timeout opts' = opt_timeout opts"
  using assms by (auto simp: next_hop_def bindE_eq_Inr Let_def drop_body_def drop_credentials_def split: if_splits)

text \<open>C11. The two sessions agree: when nothing limits the time of a request, \<open>await\<close>ing it in an
  asyncio session gives the same response or the same exception as the blocking session, and leaves
  the same cookies in the jar, along every redirect, with the same use of the native library; and
  both do return. Their clean-up, which differs, is not visible to the caller.\<close>

theorem async_agrees:
  assumes "calls_finish n sv" and "request_fuel n \<le> fuel" and "timeout_seconds ses opts = None"
  shows "\<exists>result. session_request fuel sv ses verb url opts cookies = Some result \<and>
    async_request fuel sv ses verb url opts cookies = Some result"
proof -
  let ?P = "\<lambda>o'. timeout_seconds ses o' = None"
  note same = async_perform_agrees [OF assms(1,2)]
  have hops: "hop_network fuel sv ses k jar verb url o' = async_hop_network fuel sv ses k jar verb url o'"
    if "?P o'" for k jar verb url o'
    using same [OF that, of k verb url 0 "Some jar"] by (auto simp: hop_network_def async_hop_network_def)
  have kept: "?P o''" if "next_hop verb url r o' = Inr (Some (verb', url', o''))" "?P o'" for verb url r o' verb' url' o''
    using that next_hop_timeout [OF that(1)] by (simp add: timeout_seconds_def)
  have walks: "follow lib (hop_network fuel sv ses) verb t opts limit jar =
      follow lib (async_hop_network fuel sv ses) verb t opts limit jar" for lib t limit jar
    unfolding follow_def
    by (rule walk_cong [where P = ?P]) (use hops kept assms(3) in \<open>auto simp: start_chain_def\<close>)
  show ?thesis
  proof (cases "target url opts")
    case (Inr t)
    show ?thesis
    proof (cases cookies)
      case None
      show ?thesis
        using same [OF assms(3), of 0 verb t "redirect_limit ses opts" None] Inr None
        by (auto simp: session_request_def async_request_def)
    next
      case (Some jar)
      obtain r c trace where "follow (cookie_lib (sv_backends sv)) (hop_network fuel sv ses) verb t opts
          (redirect_limit ses opts) jar = Some (r, c, trace)"
        using follow_returns [of "cookie_lib (sv_backends sv)" "hop_network fuel sv ses" verb t opts
            "redirect_limit ses opts" jar] by auto
      moreover from this have "follow (cookie_lib (sv_backends sv)) (async_hop_network fuel sv ses) verb t opts
          (redirect_limit ses opts) jar = Some (r, c, trace)"
        by (simp only: walks)
      ultimately show ?thesis using Inr Some by (simp add: session_request_def async_request_def)
    qed
  qed (simp add: session_request_def async_request_def)
qed

theorem async_agrees_witness:
  "\<exists>result. session_request (request_fuel 2) sample_services small_session ''GET'' ''https://h/'' no_options (Some ()) = Some result \<and>
    async_request (request_fuel 2) sample_services small_session ''GET'' ''https://h/'' no_options (Some ()) = Some result"
  by (rule async_agrees [OF sample_services_finish order_refl])
    (simp add: timeout_seconds_def small_session_def no_options_def)

section \<open>Opening a session\<close>

text \<open>A session that could never keep to HTTP/3 is not opened: one that requires it is opened
  only with HTTP/3 switched on and without a proxy or with a SOCKS5 one.\<close>

theorem unreachable_http3_refused:
  "case open_session encode_json version create so of
     Inl e \<Rightarrow> True
   | Inr ses \<Rightarrow> ses_require_http3 ses = so_require_http3 so \<and>
       (if so_require_http3 so then so_http3 so \<and> (if so_proxy so = [] then True else starts_with ''socks5://'' (so_proxy so))
        else True)"
  by (auto simp: open_session_def bindE_eq_Inr guardE_def Let_def split: sum.splits prod.splits if_splits)

lemma map_sum_bindE: "map_sum id f (bindE m g) = bindE m (\<lambda>x. map_sum id f (g x))"
  by (cases m) simp_all

lemma settings_ignore_headers:
  "engine_settings_of encode_json version (so\<lparr>so_headers := h\<rparr>) = engine_settings_of encode_json version so"
proof -
  have "session_experimental (so\<lparr>so_headers := h\<rparr>) = session_experimental so"
    by (cases "so_tls so") (simp_all add: session_experimental_def)
  then show ?thesis by (simp add: engine_settings_of_def)
qed

text \<open>Headers given as an iterator are lost: the check that refuses reserved names uses the iterator
  up, so the session that is opened, in every other way the one a list of the same pairs gives,
  sends none of them.\<close>

theorem one_shot_headers_vanish:
  "open_session encode_json version create (so\<lparr>so_headers := OneShot ps\<rparr>) =
     map_sum id (\<lambda>ses. ses\<lparr>ses_headers := Headers []\<rparr>)
       (open_session encode_json version create (so\<lparr>so_headers := Reusable (PairHeaders ps)\<rparr>))"
  by (simp add: open_session_def iterate_def map_sum_bindE settings_ignore_headers)

end
