(* ===== verification/Engine.thy ===== *)
theory Engine
  imports Marshal
begin

text \<open>
  The native engine and the bookkeeping that makes closing it safe (\<open>Engine\<close> in
  \<open>src/cronet/_bridge.py\<close>, with \<open>Call.close\<close>). The fields of an \<open>Engine\<close> are the record \<open>engine\<close>; what
  the library holds for it is the record \<open>library\<close>. Each critical section of the code (each
  \<open>with self._lock\<close> block) is one definition, and the sections together with the native calls
  between them are the rules of \<open>engine_step\<close>, where any number of threads may be anywhere in
  \<open>start\<close>, in the life of a call, in the net log operations or in \<open>close\<close>.

  The bookkeeping is proved to implement a lease: the engine may be entered while it is open, and
  is destroyed once, after it was closed and everybody has left.
\<close>

section \<open>The critical sections\<close>

record engine =
  eng_open :: bool
  eng_live :: "nat set"
  eng_in_flight :: int

text \<open>\<open>Engine.__init__\<close>, once the library has created the engine.\<close>

definition new_engine :: engine where
  "new_engine = \<lparr>eng_open = True, eng_live = {}, eng_in_flight = 0\<rparr>"

definition engine_closed :: "engine \<Rightarrow> bool" where
  "engine_closed e = (\<not> eng_open e)"

definition claim :: "engine \<Rightarrow> exn + engine" where
  "claim e = (if eng_open e then Inr (e\<lparr>eng_in_flight := eng_in_flight e + 1\<rparr>) else Inl SessionClosed)"

definition release_claim :: "engine \<Rightarrow> engine" where
  "release_claim e = e\<lparr>eng_in_flight := eng_in_flight e - 1\<rparr>"

text \<open>What the library has: the calls it has allocated, those asked to stop, and whether the engine is gone.\<close>

record library =
  nat_calls :: "nat set"
  nat_cancelled :: "nat set"
  nat_destroyed :: nat

definition native_cancel :: "nat set \<Rightarrow> library \<Rightarrow> library" where
  "native_cancel cs n = n\<lparr>nat_cancelled := nat_cancelled n \<union> cs\<rparr>"

definition native_free :: "nat \<Rightarrow> library \<Rightarrow> library" where
  "native_free c n = n\<lparr>nat_calls := nat_calls n - {c}, nat_cancelled := nat_cancelled n - {c}\<rparr>"

text \<open>The end of \<open>start\<close>: a call that finds the engine closed meanwhile is cancelled by its own starter.\<close>

definition register :: "nat \<Rightarrow> engine \<times> library \<Rightarrow> engine \<times> library" where
  "register c en =
     (case en of (e, n) \<Rightarrow>
        (e\<lparr>eng_live := insert c (eng_live e)\<rparr>, if eng_open e then n else native_cancel {c} n))"

definition discard :: "nat \<Rightarrow> engine \<Rightarrow> engine" where
  "discard c e = e\<lparr>eng_live := eng_live e - {c}\<rparr>"

text \<open>\<open>close\<close> up to its wait: nothing to do, or the engine is closed and every live call cancelled.\<close>

definition begin_close :: "engine \<times> library \<Rightarrow> (engine \<times> library) option" where
  "begin_close en =
     (case en of (e, n) \<Rightarrow>
        if eng_open e then Some (e\<lparr>eng_open := False\<rparr>, native_cancel (eng_live e) n) else None)"

definition may_finish :: "engine \<Rightarrow> bool" where
  "may_finish e = (eng_in_flight e = 0)"

text \<open>\<open>weakref.finalize\<close> runs its callback at most once, whoever asks.\<close>

definition run_finalizer :: "library \<Rightarrow> library" where
  "run_finalizer n = (if nat_destroyed n = 0 then n\<lparr>nat_destroyed := 1\<rparr> else n)"

section \<open>What the callers are told\<close>

text \<open>
  The operations as one thread sees them when no other runs: \<open>create\<close> is \<open>cronet_call_start\<close>, which
  answers with a call or with none, and \<open>why\<close> is what \<open>cronet_last_error\<close> says then.
\<close>

definition engine_start ::
  "(c_request \<times> memory \<Rightarrow> nat option) \<Rightarrow> ustr \<Rightarrow> call_settings \<Rightarrow> engine \<times> library \<Rightarrow> (exn + nat) \<times> engine \<times> library" where
  "engine_start create why settings en =
     (case build_request settings of (request, memory, keepalive) \<Rightarrow>
      case en of (e, n) \<Rightarrow>
      case claim e of
        Inl x \<Rightarrow> (Inl x, (e, n))
      | Inr e \<Rightarrow>
          (case create (request, memory) of
             None \<Rightarrow>
               (Inl (RequestFailed RequestError
                  (if why \<noteq> [] then why else cps ''the request could not be started'') 0 (call_url settings)),
                (release_claim e, n))
           | Some c \<Rightarrow> (Inr c, register c (e, n\<lparr>nat_calls := insert c (nat_calls n)\<rparr>))))"

text \<open>\<open>Call.close\<close> and \<open>_free_call\<close>.\<close>

definition free_call :: "nat \<Rightarrow> engine \<times> library \<Rightarrow> engine \<times> library" where
  "free_call c en = (case en of (e, n) \<Rightarrow> (release_claim (discard c e), native_free c n))"

definition start_net_log :: "bool \<Rightarrow> ustr \<Rightarrow> engine \<Rightarrow> (exn + unit) \<times> engine" where
  "start_net_log started path e =
     (case claim e of
        Inl x \<Rightarrow> (Inl x, e)
      | Inr e \<Rightarrow>
          (if started then Inr ()
           else Inl (LibraryError (cps ''a NetLog could not be written to '' @ path)), release_claim e))"

definition stop_net_log :: "engine \<Rightarrow> (exn + unit) \<times> engine" where
  "stop_net_log e = (case claim e of Inl x \<Rightarrow> (Inl x, e) | Inr e \<Rightarrow> (Inr (), release_claim e))"

text \<open>\<open>close\<close> when every call has been closed: otherwise it waits, which is a step of \<open>engine_step\<close>.\<close>

definition engine_close :: "engine \<times> library \<Rightarrow> (engine \<times> library) option" where
  "engine_close en =
     (case begin_close en of
        None \<Rightarrow> Some en
      | Some (e, n) \<Rightarrow> if may_finish e then Some (e, run_finalizer n) else None)"

section \<open>Threads\<close>

text \<open>
  One run of an operation, by where it stands: inside \<open>cronet_call_start\<close>; with the refusal or the
  new call it gave back; owning a call, freeing it, having freed it; inside a net log function and
  after it; in \<open>close\<close>, waiting, and about to run the finalizer.
\<close>

datatype task =
    Outside
  | InStart | NotStarted | Created nat | Owning nat | InFree nat | Freed
  | InNetLog | AfterNetLog
  | Waiting | Finalizing
  | Done

type_synonym system = "engine \<times> library \<times> (nat \<Rightarrow> task)"

definition new_system :: system where
  "new_system = (new_engine, \<lparr>nat_calls = {}, nat_cancelled = {}, nat_destroyed = 0\<rparr>, (\<lambda>t. Outside))"

fun holds :: "task \<Rightarrow> bool" where
  "holds Outside = False"
| "holds Waiting = False"
| "holds Finalizing = False"
| "holds Done = False"
| "holds _ = True"

text \<open>Inside the library, or with a call of the library in hand.\<close>

fun inside :: "task \<Rightarrow> bool" where
  "inside InStart = True"
| "inside (Created c) = True"
| "inside (Owning c) = True"
| "inside (InFree c) = True"
| "inside InNetLog = True"
| "inside _ = False"

fun closing :: "task \<Rightarrow> bool" where
  "closing Waiting = True"
| "closing Finalizing = True"
| "closing _ = False"

inductive engine_step :: "system \<Rightarrow> system \<Rightarrow> bool" where
  start_claim: "ts t = Outside \<Longrightarrow> claim e = Inr e' \<Longrightarrow> engine_step (e, n, ts) (e', n, ts(t := InStart))"
| start_refused: "ts t = Outside \<Longrightarrow> claim e = Inl x \<Longrightarrow> engine_step (e, n, ts) (e, n, ts(t := Done))"
| start_failed: "ts t = InStart \<Longrightarrow> engine_step (e, n, ts) (e, n, ts(t := NotStarted))"
| start_made: "ts t = InStart \<Longrightarrow> c \<notin> nat_calls n \<Longrightarrow>
    engine_step (e, n, ts) (e, n\<lparr>nat_calls := insert c (nat_calls n)\<rparr>, ts(t := Created c))"
| start_over: "ts t = NotStarted \<Longrightarrow> engine_step (e, n, ts) (release_claim e, n, ts(t := Done))"
| registered: "ts t = Created c \<Longrightarrow> register c (e, n) = (e', n') \<Longrightarrow>
    engine_step (e, n, ts) (e', n', ts(t := Owning c))"
| cancelled: "ts t = Owning c \<Longrightarrow> engine_step (e, n, ts) (e, native_cancel {c} n, ts)"
| free_discard: "ts t = Owning c \<Longrightarrow> engine_step (e, n, ts) (discard c e, n, ts(t := InFree c))"
| free_native: "ts t = InFree c \<Longrightarrow> engine_step (e, n, ts) (e, native_free c n, ts(t := Freed))"
| free_over: "ts t = Freed \<Longrightarrow> engine_step (e, n, ts) (release_claim e, n, ts(t := Done))"
| net_log_claim: "ts t = Outside \<Longrightarrow> claim e = Inr e' \<Longrightarrow> engine_step (e, n, ts) (e', n, ts(t := InNetLog))"
| net_log_native: "ts t = InNetLog \<Longrightarrow> engine_step (e, n, ts) (e, n, ts(t := AfterNetLog))"
| net_log_over: "ts t = AfterNetLog \<Longrightarrow> engine_step (e, n, ts) (release_claim e, n, ts(t := Done))"
| close_begin: "ts t = Outside \<Longrightarrow> begin_close (e, n) = Some (e', n') \<Longrightarrow>
    engine_step (e, n, ts) (e', n', ts(t := Waiting))"
| close_again: "ts t = Outside \<Longrightarrow> begin_close (e, n) = None \<Longrightarrow> engine_step (e, n, ts) (e, n, ts(t := Done))"
| close_wake: "ts t = Waiting \<Longrightarrow> may_finish e \<Longrightarrow> engine_step (e, n, ts) (e, n, ts(t := Finalizing))"
| close_end: "ts t = Finalizing \<Longrightarrow> engine_step (e, n, ts) (e, run_finalizer n, ts(t := Done))"

inductive_cases engine_step_cases: "engine_step (e, n, ts) s'"

inductive engine_run :: "system \<Rightarrow> bool" where
  begin_run: "engine_run new_system"
| step_run: "engine_run s \<Longrightarrow> engine_step s s' \<Longrightarrow> engine_run s'"

section \<open>Leases\<close>

text \<open>What the bookkeeping is for: a thing that is entered and left, and destroyed when it was shut and is empty.\<close>

datatype lease_phase = Open | Shut | Gone

type_synonym lease = "nat set \<times> lease_phase"

inductive lease_step :: "lease \<Rightarrow> lease \<Rightarrow> bool" where
  enter: "t \<notin> W \<Longrightarrow> lease_step (W, Open) (insert t W, Open)"
| leave: "t \<in> W \<Longrightarrow> lease_step (W, p) (W - {t}, p)"
| shut: "lease_step (W, Open) (W, Shut)"
| destroy: "lease_step ({}, Shut) ({}, Gone)"

inductive_cases lease_step_cases: "lease_step l l'"

text \<open>A system is a lease when each of its steps is one of the lease's or does not show.\<close>

locale leased =
  fixes reached :: "'s \<Rightarrow> bool" and moves :: "'s \<Rightarrow> 's \<Rightarrow> bool" and lease_of :: "'s \<Rightarrow> lease"
  assumes reached_moves: "reached s \<Longrightarrow> moves s s' \<Longrightarrow> reached s'"
    and simulated: "reached s \<Longrightarrow> moves s s' \<Longrightarrow> lease_of s' = lease_of s \<or> lease_step (lease_of s) (lease_of s')"
begin

lemma simulated_run:
  assumes "moves\<^sup>*\<^sup>* s s'" and "reached s"
  shows "lease_step\<^sup>*\<^sup>* (lease_of s) (lease_of s') \<and> reached s'"
  using assms
proof (induction rule: rtranclp_induct)
  case (step s1 s2)
  then have r: "reached s1" and l: "lease_step\<^sup>*\<^sup>* (lease_of s) (lease_of s1)" by blast+
  from simulated [OF r step.hyps(2)] reached_moves [OF r step.hyps(2)] l show ?case
    by (metis rtranclp.rtrancl_into_rtrancl)
qed simp

lemma nobody_comes_back:
  assumes "moves\<^sup>*\<^sup>* s s'" and "reached s" and "snd (lease_of s) \<noteq> Open"
  shows "fst (lease_of s') \<subseteq> fst (lease_of s) \<and> snd (lease_of s') \<noteq> Open"
proof -
  have "fst l' \<subseteq> fst l \<and> snd l' \<noteq> Open" if "lease_step\<^sup>*\<^sup>* l l'" "snd l \<noteq> Open" for l l'
    using that by (induction rule: rtranclp_induct) (auto elim!: lease_step.cases)
  then show ?thesis using simulated_run [OF assms(1,2)] assms(3) by blast
qed

lemma gone_is_final:
  assumes "moves\<^sup>*\<^sup>* s s'" and "reached s" and "lease_of s = ({}, Gone)"
  shows "lease_of s' = ({}, Gone)"
proof -
  have "l' = ({}, Gone)" if "lease_step\<^sup>*\<^sup>* l l'" "l = ({}, Gone)" for l l'
    using that by (induction rule: rtranclp_induct) (auto elim: lease_step_cases)
  then show ?thesis using simulated_run [OF assms(1,2)] assms(3) by blast
qed

end

section \<open>The invariant of the bookkeeping\<close>

definition begun :: "(nat \<Rightarrow> task) \<Rightarrow> nat set" where
  "begun ts = {t. ts t \<noteq> Outside}"

definition places :: "(task \<Rightarrow> bool) \<Rightarrow> (nat \<Rightarrow> task) \<Rightarrow> nat set" where
  "places P ts = {t. P (ts t)}"

abbreviation holders :: "(nat \<Rightarrow> task) \<Rightarrow> nat set" where
  "holders ts \<equiv> places holds ts"

fun call_of :: "task \<Rightarrow> nat option" where
  "call_of (Created c) = Some c"
| "call_of (Owning c) = Some c"
| "call_of (InFree c) = Some c"
| "call_of _ = None"

text \<open>Claims are counted; calls have one owner each; closing is done once.\<close>

definition claims_counted :: "system \<Rightarrow> bool" where
  "claims_counted s \<longleftrightarrow> (case s of (e, n, ts) \<Rightarrow>
     finite (begun ts) \<and> eng_in_flight e = int (card (holders ts)))"

definition called :: "(nat \<Rightarrow> task) \<Rightarrow> nat set" where
  "called ts = {c. \<exists>t. call_of (ts t) = Some c}"

definition owned :: "(nat \<Rightarrow> task) \<Rightarrow> nat set" where
  "owned ts = {c. \<exists>t. ts t = Owning c}"

definition one_owner :: "(nat \<Rightarrow> task) \<Rightarrow> bool" where
  "one_owner ts \<longleftrightarrow> (\<forall>t t' c. call_of (ts t) = Some c \<longrightarrow> call_of (ts t') = Some c \<longrightarrow> t = t')"

definition calls_owned :: "system \<Rightarrow> bool" where
  "calls_owned s \<longleftrightarrow> (case s of (e, n, ts) \<Rightarrow>
     eng_live e = owned ts \<and> nat_calls n = called ts \<and> one_owner ts \<and> nat_cancelled n \<subseteq> nat_calls n \<and>
     (\<not> eng_open e \<longrightarrow> eng_live e \<subseteq> nat_cancelled n))"

definition closed_in_order :: "system \<Rightarrow> bool" where
  "closed_in_order s \<longleftrightarrow> (case s of (e, n, ts) \<Rightarrow>
     (if eng_open e then nat_destroyed n = 0 \<and> places closing ts = {}
      else if nat_destroyed n = 0 then \<exists>t. places closing ts = {t}
      else nat_destroyed n = 1 \<and> places closing ts = {} \<and> holders ts = {}) \<and>
     (if places (\<lambda>p. p = Finalizing) ts = {} then True else holders ts = {}))"

definition engine_inv :: "system \<Rightarrow> bool" where
  "engine_inv s \<longleftrightarrow> claims_counted s \<and> calls_owned s \<and> closed_in_order s"

lemma places_same: "P p = P (ts t) \<Longrightarrow> places P (ts(t := p)) = places P ts"
  by (auto simp: places_def)

lemma places_enter: "P p \<Longrightarrow> places P (ts(t := p)) = insert t (places P ts)"
  by (auto simp: places_def)

lemma places_leave: "\<not> P p \<Longrightarrow> places P (ts(t := p)) = places P ts - {t}"
  by (auto simp: places_def)

lemma places_in: "t \<in> places P ts \<longleftrightarrow> P (ts t)"
  by (simp add: places_def)

lemma begun_finite: "finite (begun ts) \<Longrightarrow> finite (begun (ts(t := p)))"
  by (rule finite_subset [of _ "insert t (begun ts)"]) (auto simp: begun_def)

lemma holders_finite: "finite (begun ts) \<Longrightarrow> finite (holders ts)"
  by (rule finite_subset [rotated]) (auto simp: places_def begun_def)

lemma card_enter:
  assumes "finite (begun ts)" and "\<not> holds (ts t)" and "holds p"
  shows "int (card (holders (ts(t := p)))) = int (card (holders ts)) + 1"
  using assms holders_finite [OF assms(1)] by (simp add: places_enter) (simp add: places_def)

lemma card_leave:
  assumes "finite (begun ts)" and "holds (ts t)" and "\<not> holds p"
  shows "int (card (holders (ts(t := p)))) = int (card (holders ts)) - 1"
proof -
  have "holders ts = insert t (holders ts - {t})" using assms(2) by (auto simp: places_def)
  then have "card (holders ts) = Suc (card (holders ts - {t}))"
    using holders_finite [OF assms(1)] by (metis Diff_iff card_insert_disjoint finite_Diff insertI1)
  then show ?thesis using assms(3) by (simp add: places_leave)
qed

lemmas section_defs = new_engine_def claim_def release_claim_def native_cancel_def native_free_def register_def
  discard_def begin_close_def may_finish_def run_finalizer_def

lemma new_system_inv: "engine_inv new_system"
  by (simp add: engine_inv_def claims_counted_def calls_owned_def closed_in_order_def new_system_def
      new_engine_def places_def begun_def owned_def called_def one_owner_def)

lemma claims_counted_step:
  assumes "engine_step s s'" and "claims_counted s"
  shows "claims_counted s'"
  using assms
  by (cases rule: engine_step.cases)
    (auto simp: claims_counted_def section_defs begun_finite places_same card_enter card_leave split: if_splits)

lemma called_upd: "c \<in> called (ts(t := p)) \<longleftrightarrow> call_of p = Some c \<or> (\<exists>t'. t' \<noteq> t \<and> call_of (ts t') = Some c)"
  unfolding called_def mem_Collect_eq by (metis fun_upd_apply)

lemma called_iff: "c \<in> called ts \<longleftrightarrow> call_of (ts t) = Some c \<or> (\<exists>t'. t' \<noteq> t \<and> call_of (ts t') = Some c)"
  unfolding called_def mem_Collect_eq by metis

lemma called_same: "call_of p = call_of (ts t) \<Longrightarrow> called (ts(t := p)) = called ts"
  using called_iff [of _ ts t] by (auto simp: called_upd)

lemma called_add: "call_of (ts t) = None \<Longrightarrow> call_of p = Some c \<Longrightarrow> called (ts(t := p)) = insert c (called ts)"
  using called_iff [of _ ts t] by (auto simp: called_upd)

lemma called_drop:
  "one_owner ts \<Longrightarrow> call_of (ts t) = Some c \<Longrightarrow> call_of p = None \<Longrightarrow> called (ts(t := p)) = called ts - {c}"
  using called_iff [of _ ts t] by (auto simp: called_upd one_owner_def)

lemma one_owner_keeps: "one_owner ts \<Longrightarrow> call_of p = None \<or> call_of p = call_of (ts t) \<Longrightarrow> one_owner (ts(t := p))"
  unfolding one_owner_def by (metis fun_upd_apply option.distinct(1))

lemma one_owner_add: "one_owner ts \<Longrightarrow> call_of p = Some c \<Longrightarrow> c \<notin> called ts \<Longrightarrow> one_owner (ts(t := p))"
  unfolding one_owner_def called_def mem_Collect_eq by (metis fun_upd_apply option.inject)

fun is_owning :: "task \<Rightarrow> bool" where
  "is_owning (Owning c) = True"
| "is_owning _ = False"

lemma owned_upd: "c \<in> owned (ts(t := p)) \<longleftrightarrow> p = Owning c \<or> (\<exists>t'. t' \<noteq> t \<and> ts t' = Owning c)"
  unfolding owned_def mem_Collect_eq by (metis fun_upd_apply)

lemma owned_iff: "c \<in> owned ts \<longleftrightarrow> ts t = Owning c \<or> (\<exists>t'. t' \<noteq> t \<and> ts t' = Owning c)"
  unfolding owned_def mem_Collect_eq by metis

lemma owned_same: "\<not> is_owning (ts t) \<Longrightarrow> \<not> is_owning p \<Longrightarrow> owned (ts(t := p)) = owned ts"
  using owned_iff [of _ ts t] by (auto simp: owned_upd)

lemma owned_add: "\<not> is_owning (ts t) \<Longrightarrow> owned (ts(t := Owning c)) = insert c (owned ts)"
  using owned_iff [of _ ts t] by (auto simp: owned_upd)

lemma owned_drop:
  assumes "one_owner ts" and "ts t = Owning c" and "\<not> is_owning p"
  shows "owned (ts(t := p)) = owned ts - {c}"
proof (rule set_eqI)
  fix d
  have mine: "call_of (ts t) = Some c" using assms(2) by simp
  have alone: "t' = t" if o: "ts t' = Owning c" for t'
  proof -
    from o have "call_of (ts t') = Some c" by simp
    with mine assms(1) show ?thesis unfolding one_owner_def by blast
  qed
  have p: "p \<noteq> Owning d" using assms(3) by auto
  show "d \<in> owned (ts(t := p)) \<longleftrightarrow> d \<in> owned ts - {c}"
  proof (cases "d = c")
    case True
    with p alone show ?thesis unfolding owned_upd by blast
  next
    case False
    with p assms(2) show ?thesis unfolding owned_upd Diff_iff owned_iff [of d ts t] by simp
  qed
qed

lemma owned_sub: "owned ts \<subseteq> called ts"
proof
  fix c assume "c \<in> owned ts"
  then obtain t where "ts t = Owning c" unfolding owned_def by blast
  then have "call_of (ts t) = Some c" by simp
  then show "c \<in> called ts" unfolding called_def by blast
qed

lemma called_in: "call_of (ts t) = Some c \<Longrightarrow> c \<in> called ts"
  unfolding called_def by blast

lemma owned_called: "ts t = Owning c \<Longrightarrow> c \<in> owned ts \<and> c \<in> called ts"
  using called_in [of ts t c] unfolding owned_def by auto

lemma freeing_not_owned:
  assumes "one_owner ts" and "ts t = InFree c"
  shows "c \<notin> owned ts"
proof
  assume "c \<in> owned ts"
  then obtain t' where t': "ts t' = Owning c" unfolding owned_def by blast
  then have "call_of (ts t') = Some c" "call_of (ts t) = Some c" using assms(2) by simp_all
  with assms(1) have "t' = t" unfolding one_owner_def by blast
  with t' assms(2) show False by simp
qed

lemmas ownership = called_same called_add called_drop one_owner_keeps one_owner_add owned_same owned_add owned_drop

lemma calls_owned_step:
  assumes "engine_step s s'" and "calls_owned s"
  shows "calls_owned s'"
  using assms
proof (cases rule: engine_step.cases)
  case (cancelled ts t c e n)
  then show ?thesis using assms(2) owned_called [of ts t c] by (auto simp: calls_owned_def section_defs)
next
  case (registered ts t c e n e' n')
  then show ?thesis using assms(2) called_in [of ts t c]
    by (auto simp: calls_owned_def section_defs ownership split: if_splits)
next
  case (free_native ts t c e n)
  then show ?thesis using assms(2) freeing_not_owned [of ts t c]
    by (auto simp: calls_owned_def section_defs ownership)
next
  case (close_begin ts t e n e' n')
  then show ?thesis using assms(2) owned_sub [of ts]
    by (auto simp: calls_owned_def section_defs ownership split: if_splits)
qed (use assms(2) in \<open>auto simp: calls_owned_def section_defs ownership split: if_splits\<close>)

lemma final_closing: "t \<in> places (\<lambda>p. p = Finalizing) ts \<Longrightarrow> t \<in> places closing ts"
  by (auto simp: places_def)

lemma holders_none: "finite (begun ts) \<Longrightarrow> card (holders ts) = 0 \<longleftrightarrow> holders ts = {}"
  using holders_finite by auto

lemma closed_in_order_step:
  assumes "engine_step s s'" and "closed_in_order s" and "claims_counted s"
  shows "closed_in_order s'"
  using assms(1)
proof (cases rule: engine_step.cases)
  case (close_wake ts t e n)
  then have "holders ts = {}"
    using assms(3) holders_none [of ts] by (simp add: claims_counted_def may_finish_def)
  with close_wake assms(2) show ?thesis
    by (auto simp: closed_in_order_def places_same split: if_splits)
next
  case (close_end ts t e n)
  then have "t \<in> places closing ts" "places (\<lambda>p. p = Finalizing) ts \<noteq> {}" by (auto simp: places_in)
  with close_end assms(2) show ?thesis
    by (auto simp: closed_in_order_def section_defs places_same places_leave split: if_splits)
qed (use assms(2) in \<open>auto simp: closed_in_order_def section_defs places_same places_enter places_leave
  dest: final_closing split: if_splits\<close>)

lemma engine_inv_step: "engine_step s s' \<Longrightarrow> engine_inv s \<Longrightarrow> engine_inv s'"
  unfolding engine_inv_def by (blast intro: claims_counted_step calls_owned_step closed_in_order_step)

lemma engine_run_inv: "engine_run s \<Longrightarrow> engine_inv s"
  by (induction rule: engine_run.induct) (auto intro: new_system_inv engine_inv_step)

section \<open>Refinement\<close>

definition engine_lease :: "system \<Rightarrow> lease" where
  "engine_lease s = (case s of (e, n, ts) \<Rightarrow>
     (holders ts, if eng_open e then Open else if nat_destroyed n = 0 then Shut else Gone))"

lemma engine_simulated:
  assumes "engine_run s" and "engine_step s s'"
  shows "engine_lease s' = engine_lease s \<or> lease_step (engine_lease s) (engine_lease s')"
  using assms(2)
proof (cases rule: engine_step.cases)
  case (close_begin ts t e n e' n')
  have "nat_destroyed n = 0"
    using close_begin engine_run_inv [OF assms(1)] by (auto simp: engine_inv_def closed_in_order_def section_defs split: if_splits)
  with close_begin show ?thesis
    by (auto simp: engine_lease_def section_defs places_same intro: lease_step.intros split: if_splits)
next
  case (close_end ts t e n)
  have "t \<in> places closing ts" "places (\<lambda>p. p = Finalizing) ts \<noteq> {}" using close_end by (auto simp: places_in)
  then have "holders ts = {}" "\<not> eng_open e" "nat_destroyed n = 0"
    using close_end engine_run_inv [OF assms(1)] by (auto simp: engine_inv_def closed_in_order_def split: if_splits)
  with close_end show ?thesis
    by (simp add: engine_lease_def section_defs places_same lease_step.destroy)
qed (auto simp: engine_lease_def section_defs places_same places_enter places_leave places_in
  intro!: lease_step.intros split: if_splits)

interpretation eng: leased engine_run engine_step engine_lease
  by unfold_locales (auto intro: engine_run.step_run dest: engine_simulated)

text \<open>C4. The bookkeeping implements a lease: in every interleaving of threads that start calls, own
  them, free them, write net logs and close the engine, each step enters the engine while it is
  open, leaves it, shuts it, destroys it once it is shut and empty, or changes none of this.\<close>

theorem engine_is_a_lease:
  assumes "engine_run s" and "engine_step s s'"
  shows "engine_lease s' = engine_lease s \<or> lease_step (engine_lease s) (engine_lease s')"
  by (rule eng.simulated [OF assms])

theorem engine_is_a_lease_witness:
  "engine_lease (new_engine\<lparr>eng_in_flight := 1\<rparr>, \<lparr>nat_calls = {}, nat_cancelled = {}, nat_destroyed = 0\<rparr>,
       (\<lambda>t. Outside)(3 := InStart)) = engine_lease new_system \<or>
   lease_step (engine_lease new_system)
     (engine_lease (new_engine\<lparr>eng_in_flight := 1\<rparr>, \<lparr>nat_calls = {}, nat_cancelled = {}, nat_destroyed = 0\<rparr>,
       (\<lambda>t. Outside)(3 := InStart)))"
proof (rule engine_is_a_lease [OF begin_run])
  show "engine_step new_system (new_engine\<lparr>eng_in_flight := 1\<rparr>,
      \<lparr>nat_calls = {}, nat_cancelled = {}, nat_destroyed = 0\<rparr>, (\<lambda>t. Outside)(3 := InStart))"
    unfolding new_system_def by (rule engine_step.start_claim) (simp_all add: claim_def new_engine_def)
qed

text \<open>C6. Nobody is in the engine when it is destroyed: then it was closed, no thread is inside the
  library or has a call of it, no call is left allocated, and it was destroyed once; whatever the
  threads do afterwards, none gets in again.\<close>

theorem destroyed_when_empty:
  assumes "engine_run (e, n, ts)" and "nat_destroyed n \<noteq> 0" and "engine_step\<^sup>*\<^sup>* (e, n, ts) (e', n', ts')"
  shows "nat_destroyed n = 1 \<and> \<not> eng_open e \<and> nat_calls n = {} \<and> (\<forall>t. \<not> inside (ts t)) \<and>
    (\<forall>t. \<not> inside (ts' t)) \<and> eng_in_flight e' = 0"
proof -
  have inv: "engine_inv (e, n, ts)" by (rule engine_run_inv [OF assms(1)])
  have gone: "\<not> eng_open e" "nat_destroyed n = 1" "holders ts = {}"
    using inv assms(2) by (auto simp: engine_inv_def closed_in_order_def split: if_splits)
  have "engine_lease (e', n', ts') = ({}, Gone)" "engine_run (e', n', ts')"
    using eng.gone_is_final [OF assms(3,1)] eng.simulated_run [OF assms(3,1)] gone by (simp_all add: engine_lease_def)
  moreover from this have "holders ts' = {}" "claims_counted (e', n', ts')"
    using engine_run_inv by (auto simp: engine_lease_def engine_inv_def)
  ultimately have "eng_in_flight e' = 0" by (simp add: claims_counted_def)
  have nobody: "\<not> inside (t t')" "call_of (t t') = None" if "holders t = {}" for t t'
    using that by (cases "t t'"; auto simp: places_def; metis holds.simps)+
  show ?thesis
    using gone nobody \<open>holders ts' = {}\<close> \<open>eng_in_flight e' = 0\<close> inv
    by (simp add: engine_inv_def calls_owned_def called_def)
qed

lemma close_alone:
  "engine_run (\<lparr>eng_open = False, eng_live = {}, eng_in_flight = 0\<rparr>,
     \<lparr>nat_calls = {}, nat_cancelled = {}, nat_destroyed = 1\<rparr>, (\<lambda>t. Outside)(7 := Done))"
proof -
  let ?e = "\<lparr>eng_open = False, eng_live = {}, eng_in_flight = 0\<rparr>"
  let ?n = "\<lparr>nat_calls = {}, nat_cancelled = {}, nat_destroyed = 0\<rparr>"
  have "engine_run (?e, ?n, (\<lambda>t. Outside)(7 := Waiting))"
    by (rule engine_run.step_run [OF begin_run]) (auto simp: new_system_def section_defs intro: engine_step.close_begin)
  then have "engine_run (?e, ?n, (\<lambda>t. Outside)(7 := Waiting, 7 := Finalizing))"
    by (rule engine_run.step_run) (rule engine_step.close_wake, simp_all add: may_finish_def)
  then have "engine_run (?e, run_finalizer ?n, (\<lambda>t. Outside)(7 := Waiting, 7 := Finalizing, 7 := Done))"
    by (rule engine_run.step_run) (rule engine_step.close_end, simp)
  then show ?thesis by (simp add: run_finalizer_def)
qed

theorem destroyed_when_empty_witness:
  "let n = \<lparr>nat_calls = {}, nat_cancelled = {}, nat_destroyed = 1\<rparr>;
       e = \<lparr>eng_open = False, eng_live = {}, eng_in_flight = 0\<rparr>; ts = (\<lambda>t. Outside)(7 :: nat := Done) in
   nat_destroyed n = 1 \<and> \<not> eng_open e \<and> nat_calls n = {} \<and> (\<forall>t. \<not> inside (ts t)) \<and>
   (\<forall>t. \<not> inside (ts t)) \<and> eng_in_flight e = 0"
  unfolding Let_def by (rule destroyed_when_empty [OF close_alone _ rtranclp.rtrancl_refl]) simp

text \<open>C25. Closing reaches every call: on a closed engine each call that somebody owns has been asked to
  stop, those included that were being started while \<open>close\<close> ran; and nobody is in the engine later
  who was not in it already.\<close>

theorem close_reaches_every_call:
  assumes "engine_run (e, n, ts)" and "\<not> eng_open e" and "engine_step\<^sup>*\<^sup>* (e, n, ts) (e', n', ts')"
  shows "\<not> eng_open e' \<and> {c. \<exists>t. ts' t = Owning c} \<subseteq> nat_cancelled n' \<and> {t. holds (ts' t)} \<subseteq> {t. holds (ts t)}"
proof -
  have shut: "snd (engine_lease (e, n, ts)) \<noteq> Open" using assms(2) by (simp add: engine_lease_def)
  from eng.nobody_comes_back [OF assms(3,1) shut] have closed: "\<not> eng_open e'" and "holders ts' \<subseteq> holders ts"
    by (auto simp: engine_lease_def split: if_splits)
  have "calls_owned (e', n', ts')"
    using eng.simulated_run [OF assms(3,1)] engine_run_inv by (simp add: engine_inv_def)
  with closed \<open>holders ts' \<subseteq> holders ts\<close> show ?thesis by (auto simp: calls_owned_def owned_def places_def)
qed

text \<open>A call being started while the engine closes: its starter cancels it.\<close>

definition closed_native :: "nat set \<Rightarrow> library" where
  "closed_native cs = \<lparr>nat_calls = {4}, nat_cancelled = cs, nat_destroyed = 0\<rparr>"

definition closing_system :: "nat set \<Rightarrow> task \<Rightarrow> system" where
  "closing_system cs p = (\<lparr>eng_open = False, eng_live = cs, eng_in_flight = 1\<rparr>, closed_native cs,
     (\<lambda>t. Outside)(1 := p, 2 := Waiting))"

lemma closing_while_starting: "engine_run (closing_system {} (Created 4))"
proof -
  let ?n = "\<lparr>nat_calls = {}, nat_cancelled = {}, nat_destroyed = 0\<rparr>"
  have "engine_run (new_engine\<lparr>eng_in_flight := 1\<rparr>, ?n, (\<lambda>t. Outside)(1 := InStart))"
    by (rule engine_run.step_run [OF begin_run])
      (auto simp: new_system_def section_defs intro: engine_step.start_claim)
  then have "engine_run (new_engine\<lparr>eng_in_flight := 1\<rparr>, closed_native {}, (\<lambda>t. Outside)(1 := InStart, 1 := Created 4))"
    by (rule engine_run.step_run)
      (use engine_step.start_made [of "(\<lambda>t. Outside)(1 := InStart)" 1 4 ?n] in \<open>simp add: closed_native_def\<close>)
  then have "engine_run (\<lparr>eng_open = False, eng_live = {}, eng_in_flight = 1\<rparr>, closed_native {},
      (\<lambda>t. Outside)(1 := InStart, 1 := Created 4, 2 := Waiting))"
    by (rule engine_run.step_run) (rule engine_step.close_begin, simp_all add: section_defs closed_native_def)
  then show ?thesis by (simp add: closing_system_def)
qed

lemma closing_then_registered: "engine_step (closing_system {} (Created 4)) (closing_system {4} (Owning 4))"
proof -
  let ?e = "\<lparr>eng_open = False, eng_live = {}, eng_in_flight = 1\<rparr>"
  have "engine_step (?e, closed_native {}, (\<lambda>t. Outside)(1 := Created 4, 2 := Waiting))
    (?e\<lparr>eng_live := {4}\<rparr>, closed_native {4}, ((\<lambda>t. Outside)(1 := Created 4, 2 := Waiting))(1 := Owning 4))"
    by (rule engine_step.registered) (simp_all add: section_defs closed_native_def)
  then show ?thesis by (simp add: closing_system_def fun_upd_twist)
qed

theorem close_reaches_every_call_witness:
  "let ts = (\<lambda>t. Outside)(1 :: nat := Created 4, 2 := Waiting); ts' = (\<lambda>t. Outside)(1 := Owning 4, 2 := Waiting) in
   \<not> eng_open \<lparr>eng_open = False, eng_live = {4}, eng_in_flight = 1\<rparr> \<and>
   {c. \<exists>t. ts' t = Owning c} \<subseteq> nat_cancelled (closed_native {4}) \<and> {t. holds (ts' t)} \<subseteq> {t. holds (ts t)}"
  unfolding Let_def
  by (rule close_reaches_every_call [OF closing_while_starting [unfolded closing_system_def] _
      r_into_rtranclp [of engine_step, OF closing_then_registered [unfolded closing_system_def]]]) simp

section \<open>Closing ends\<close>

text \<open>How many steps each thread still has to take, at most.\<close>

fun rank :: "task \<Rightarrow> nat" where
  "rank InStart = 5"
| "rank (Created c) = 4"
| "rank (Owning c) = 3"
| "rank (InFree c) = 2"
| "rank Freed = 1"
| "rank NotStarted = 1"
| "rank InNetLog = 2"
| "rank AfterNetLog = 1"
| "rank Waiting = 2"
| "rank Finalizing = 1"
| "rank Outside = 0"
| "rank Done = 0"

definition work :: "(nat \<Rightarrow> task) \<Rightarrow> nat" where
  "work ts = (\<Sum>t\<in>begun ts. rank (ts t))"

lemma work_upd:
  assumes "finite (begun ts)"
  shows "work (ts(t := p)) + rank (ts t) = work ts + rank p"
proof -
  let ?B = "insert t (begun ts)"
  have "work ts = (\<Sum>t\<in>?B. rank (ts t))"
    unfolding work_def using assms by (auto intro!: sum.mono_neutral_left simp: begun_def)
  moreover have "work (ts(t := p)) = (\<Sum>t'\<in>?B. rank ((ts(t := p)) t'))"
    unfolding work_def using assms by (auto intro!: sum.mono_neutral_left simp: begun_def)
  moreover have "(\<Sum>t'\<in>?B - {t}. rank ((ts(t := p)) t')) = (\<Sum>t'\<in>?B - {t}. rank (ts t'))"
    by (rule sum.cong) auto
  ultimately show ?thesis
    using sum.remove [of ?B t "\<lambda>t'. rank (ts t')"] sum.remove [of ?B t "\<lambda>t'. rank ((ts(t := p)) t')"] assms
    by simp
qed

lemma work_down:
  assumes "finite (begun ts)"
  shows "rank p \<le> rank (ts t) \<Longrightarrow> work (ts(t := p)) \<le> work ts"
    and "rank p < rank (ts t) \<Longrightarrow> work (ts(t := p)) < work ts"
  using work_upd [OF assms, of t p] by linarith+

lemma closed_work:
  assumes "engine_step (e, n, ts) (e', n', ts')" and "finite (begun ts)" and "\<not> eng_open e"
  shows "work ts' \<le> work ts \<and> \<not> eng_open e'"
  using assms(1)
proof (cases rule: engine_step.cases)
  case (registered t c)
  then show ?thesis using assms(3) work_down(1) [OF assms(2), of "Owning c" t] by (auto simp: register_def)
qed (use assms(3) in \<open>simp_all add: section_defs work_down(1) [OF assms(2)]\<close>)

text \<open>Whoever is in the engine can go on towards leaving it.\<close>

lemma holder_moves:
  assumes "holds (ts t)" and "finite (begun ts)"
  shows "\<exists>e' n' ts'. engine_step (e, n, ts) (e', n', ts') \<and> work ts' < work ts"
proof -
  note down = work_down(2) [OF assms(2), of _ t]
  show ?thesis
  proof (cases "ts t")
    case (Created c)
    obtain e' n' where "register c (e, n) = (e', n')" by force
    with Created down [of "Owning c"] show ?thesis by (auto dest: engine_step.registered)
  next
    case (Owning c)
    with down [of "InFree c"] show ?thesis by (auto dest: engine_step.free_discard [where e = e and n = n])
  next
    case (InFree c)
    with down [of Freed] show ?thesis by (auto dest: engine_step.free_native [where e = e and n = n])
  next
    case InStart
    with down [of NotStarted] show ?thesis by (auto dest: engine_step.start_failed [where e = e and n = n])
  next
    case NotStarted
    with down [of Done] show ?thesis by (auto dest: engine_step.start_over [where e = e and n = n])
  next
    case Freed
    with down [of Done] show ?thesis by (auto dest: engine_step.free_over [where e = e and n = n])
  next
    case InNetLog
    with down [of AfterNetLog] show ?thesis by (auto dest: engine_step.net_log_native [where e = e and n = n])
  next
    case AfterNetLog
    with down [of Done] show ?thesis by (auto dest: engine_step.net_log_over [where e = e and n = n])
  qed (use assms(1) in simp_all)
qed

lemma closer_moves:
  assumes "engine_run (e, n, ts)" and "\<not> eng_open e" and "nat_destroyed n = 0" and "holders ts = {}"
  shows "\<exists>e' n' ts'. engine_step (e, n, ts) (e', n', ts') \<and> work ts' < work ts"
proof -
  have inv: "claims_counted (e, n, ts)" "closed_in_order (e, n, ts)"
    using engine_run_inv [OF assms(1)] by (simp_all add: engine_inv_def)
  then obtain t where t: "places closing ts = {t}" using assms(2,3) by (auto simp: closed_in_order_def)
  have finite: "finite (begun ts)" and zero: "may_finish e"
    using inv assms(4) by (simp_all add: claims_counted_def may_finish_def)
  have "closing (ts t)" using t places_in [of t closing ts] by simp
  then show ?thesis
    using work_down(2) [OF finite, of Finalizing t] work_down(2) [OF finite, of Done t] zero
      engine_step.close_wake [of ts t e n] engine_step.close_end [of ts t e n]
    by (cases "ts t") auto
qed



section \<open>The operations as runs\<close>

lemma run_three: "engine_step a b \<Longrightarrow> engine_step b c \<Longrightarrow> engine_step c d \<Longrightarrow> engine_step\<^sup>*\<^sup>* a d"
  by (meson r_into_rtranclp rtranclp.rtrancl_into_rtrancl)

lemma start_run:
  assumes "engine_start create why settings (e, n) = (res, (e', n'))" and "ts t = Outside"
    and "\<And>c. create (fst (build_request settings), fst (snd (build_request settings))) = Some c \<Longrightarrow> c \<notin> nat_calls n"
  shows "engine_step\<^sup>*\<^sup>* (e, n, ts) (e', n', ts(t := (case res of Inl x \<Rightarrow> Done | Inr c \<Rightarrow> Owning c)))"
proof -
  obtain req mem keep where b: "build_request settings = (req, mem, keep)" by (metis prod_cases3)
  show ?thesis
  proof (cases "claim e")
    case (Inl x)
    with assms(1,2) b engine_step.start_refused [of ts t e x n] show ?thesis
      by (auto simp: engine_start_def)
  next
    case (Inr e1)
    from engine_step.start_claim [of ts t e e1 n] assms(2) Inr
    have claimed: "engine_step (e, n, ts) (e1, n, ts(t := InStart))" by blast
    show ?thesis
    proof (cases "create (req, mem)")
      case None
      have failed: "engine_step (e1, n, ts(t := InStart)) (e1, n, ts(t := NotStarted))"
        using engine_step.start_failed [of "ts(t := InStart)" t e1 n] by simp
      have "engine_step (e1, n, ts(t := NotStarted)) (release_claim e1, n, ts(t := Done))"
        using engine_step.start_over [of "ts(t := NotStarted)" t e1 n] by simp
      from run_three [OF claimed failed this] show ?thesis
        using assms(1) b Inr None by (auto simp: engine_start_def)
    next
      case (Some c)
      let ?n = "n\<lparr>nat_calls := insert c (nat_calls n)\<rparr>"
      have made: "engine_step (e1, n, ts(t := InStart)) (e1, ?n, ts(t := Created c))"
        using engine_step.start_made [of "ts(t := InStart)" t c n e1] assms(3) [of c] b Some by simp
      have res: "res = Inr c" "register c (e1, ?n) = (e', n')"
        using assms(1) b Inr Some by (simp_all add: engine_start_def)
      have "engine_step (e1, ?n, ts(t := Created c)) (e', n', ts(t := Owning c))"
        using engine_step.registered [of "ts(t := Created c)" t c e1 ?n, OF _ res(2)] by simp
      from run_three [OF claimed made this] show ?thesis using res by simp
    qed
  qed
qed

lemma free_run:
  assumes "ts t = Owning c"
  shows "engine_step\<^sup>*\<^sup>* (e, n, ts) (fst (free_call c (e, n)), snd (free_call c (e, n)), ts(t := Done))"
proof -
  have a: "engine_step (e, n, ts) (discard c e, n, ts(t := InFree c))"
    using assms by (rule engine_step.free_discard)
  have b: "engine_step (discard c e, n, ts(t := InFree c)) (discard c e, native_free c n, ts(t := Freed))"
    using engine_step.free_native [of "ts(t := InFree c)" t c "discard c e" n] by simp
  have "engine_step (discard c e, native_free c n, ts(t := Freed))
      (release_claim (discard c e), native_free c n, ts(t := Done))"
    using engine_step.free_over [of "ts(t := Freed)" t "discard c e" "native_free c n"] by simp
  from run_three [OF a b this] show ?thesis by (simp add: free_call_def)
qed

lemma net_log_run:
  assumes "ts t = Outside"
  shows "engine_step\<^sup>*\<^sup>* (e, n, ts) (snd (start_net_log started path e), n, ts(t := Done)) \<and>
    engine_step\<^sup>*\<^sup>* (e, n, ts) (snd (stop_net_log e), n, ts(t := Done))"
proof (cases "claim e")
  case (Inl x)
  with assms engine_step.start_refused [of ts t e x n] show ?thesis
    by (auto simp: start_net_log_def stop_net_log_def)
next
  case (Inr e1)
  from engine_step.net_log_claim [of ts t e e1 n] assms Inr
  have a: "engine_step (e, n, ts) (e1, n, ts(t := InNetLog))" by blast
  have b: "engine_step (e1, n, ts(t := InNetLog)) (e1, n, ts(t := AfterNetLog))"
    using engine_step.net_log_native [of "ts(t := InNetLog)" t e1 n] by simp
  have "engine_step (e1, n, ts(t := AfterNetLog)) (release_claim e1, n, ts(t := Done))"
    using engine_step.net_log_over [of "ts(t := AfterNetLog)" t e1 n] by simp
  from run_three [OF a b this] Inr show ?thesis by (simp add: start_net_log_def stop_net_log_def)
qed

lemma close_run:
  assumes "ts t = Outside" and "engine_close (e, n) = Some (e', n')"
  shows "engine_step\<^sup>*\<^sup>* (e, n, ts) (e', n', ts(t := Done))"
proof (cases "begin_close (e, n)")
  case None
  with assms engine_step.close_again [of ts t e n] show ?thesis by (auto simp: engine_close_def)
next
  case (Some en)
  obtain e1 n1 where en: "en = (e1, n1)" by force
  then have res: "may_finish e1" "e' = e1" "n' = run_finalizer n1"
    using assms(2) Some by (simp_all add: engine_close_def split: if_splits)
  have a: "engine_step (e, n, ts) (e1, n1, ts(t := Waiting))"
    using engine_step.close_begin [of ts t e n e1 n1] assms(1) Some en by blast
  have b: "engine_step (e1, n1, ts(t := Waiting)) (e1, n1, ts(t := Finalizing))"
    using engine_step.close_wake [of "ts(t := Waiting)" t e1 n1] res(1) by simp
  have "engine_step (e1, n1, ts(t := Finalizing)) (e1, run_finalizer n1, ts(t := Done))"
    using engine_step.close_end [of "ts(t := Finalizing)" t e1 n1] by simp
  from run_three [OF a b this] show ?thesis using res by simp
qed

text \<open>A call that is started and closed leaves no trace: \<open>start\<close> on an open engine, if the library
  gives a new call, followed by \<open>close\<close> on the call, restores the engine's bookkeeping and the
  library's calls exactly; a refused start does too, and raises what \<open>cronet_last_error\<close> says.
  Every such sequence is one of the interleavings above.\<close>

theorem start_then_free:
  assumes "engine_run (e, n, ts)" and "ts t = Outside"
    and "\<And>c. create (fst (build_request settings), fst (snd (build_request settings))) = Some c \<Longrightarrow> c \<notin> nat_calls n"
  shows "case engine_start create why settings (e, n) of
      (Inl x, (e', n')) \<Rightarrow> e' = e \<and> n' = n \<and> engine_run (e', n', ts(t := Done)) \<and>
        (x = SessionClosed \<longleftrightarrow> engine_closed e)
    | (Inr c, (e', n')) \<Rightarrow> \<not> engine_closed e \<and> engine_run (e', n', ts(t := Owning c)) \<and>
        free_call c (e', n') = (e, n)"
proof -
  obtain req mem keep where b: "build_request settings = (req, mem, keep)" by (metis prod_cases3)
  obtain res e' n' where st: "engine_start create why settings (e, n) = (res, (e', n'))" by (metis prod_cases3)
  have run: "engine_run (e', n', ts(t := (case res of Inl x \<Rightarrow> Done | Inr c \<Rightarrow> Owning c)))"
    using eng.simulated_run [OF _ assms(1)] start_run [OF st, of ts t] assms(2,3) by blast
  have inv: "eng_live e = owned ts" "nat_calls n = called ts" "nat_cancelled n \<subseteq> called ts"
    using engine_run_inv [OF assms(1)] by (auto simp: engine_inv_def calls_owned_def)
  have fresh: "c \<notin> nat_calls n \<and> c \<notin> eng_live e \<and> c \<notin> nat_cancelled n" if "create (req, mem) = Some c" for c
    using assms(3) [of c] b that inv owned_sub [of ts] by auto
  show ?thesis
    using st run b fresh
    by (auto simp: engine_start_def engine_closed_def claim_def register_def free_call_def native_free_def
        release_claim_def discard_def split: if_splits option.splits)
qed

definition plain_call :: call_settings where
  "plain_call = \<lparr>call_method = ''GET'', call_url = ''https://h/'', call_headers = [], call_body = [],
     call_priority = 4, call_max_redirects = 20, call_disable_cache = False\<rparr>"

theorem start_then_free_witness:
  "case engine_start (\<lambda>r. Some 4) [] plain_call (new_engine, \<lparr>nat_calls = {}, nat_cancelled = {}, nat_destroyed = 0\<rparr>) of
      (Inl x, (e', n')) \<Rightarrow> e' = new_engine \<and> n' = \<lparr>nat_calls = {}, nat_cancelled = {}, nat_destroyed = 0\<rparr> \<and>
        engine_run (e', n', (\<lambda>t. Outside)(1 := Done)) \<and> (x = SessionClosed \<longleftrightarrow> engine_closed new_engine)
    | (Inr c, (e', n')) \<Rightarrow> \<not> engine_closed new_engine \<and> engine_run (e', n', (\<lambda>t. Outside)(1 := Owning c)) \<and>
        free_call c (e', n') = (new_engine, \<lparr>nat_calls = {}, nat_cancelled = {}, nat_destroyed = 0\<rparr>)"
  by (rule start_then_free [OF begin_run [unfolded new_system_def]]) simp_all

end
