(* ===== verification/Socks5.thy ===== *)
theory Socks5
  imports UrlLaws
begin

text \<open>
  The SOCKS5 probe (\<open>scripts/probe_socks5_udp.py\<close>): whether a proxy relays UDP, shown by carrying one
  QUIC packet through it.

  The control connection is the record \<open>peer\<close>: what will arrive on it, as the segments the network
  delivers, with \<open>Stall\<close> where a read would wait past the timeout, and everything said to it so far.
  Connecting, resolving a name, the random connection ids and what becomes of each datagram are
  arguments. Of what it prints, \<open>report\<close> keeps the findings; the lines are in the theory ProbeOutput.
\<close>

section \<open>The connection\<close>

datatype arrival = Segment bytes | Stall

record peer =
  arrivals :: "arrival list"
  said :: bytes

datatype probe_reason =
    ConnectionClosed nat nat
  | ExpectedVersion nat
  | AnsweredVersion nat
  | NoMethodAccepted bool
  | CredentialsRejected nat
  | NoCredentials
  | AssociateRefused nat
  | BadAddressType nat
  | TooFewBytes nat
  | BadRelayAddressType nat
  | NeverAnswered string
  | TooShortForQuic nat
  | NotALongHeader
  | QuicVersion nat

datatype probe_exn = ProbeFailed probe_reason | Raised exn

type_synonym 'a talk = "peer \<Rightarrow> (probe_exn + 'a) \<times> peer"

definition bindP :: "'a talk \<Rightarrow> ('a \<Rightarrow> 'b talk) \<Rightarrow> 'b talk" where
  "bindP m f c = (case m c of (Inl e, c) \<Rightarrow> (Inl e, c) | (Inr x, c) \<Rightarrow> f x c)"

definition returnP :: "'a \<Rightarrow> 'a talk" where
  "returnP x c = (Inr x, c)"

definition failP :: "probe_exn \<Rightarrow> 'a talk" where
  "failP e c = (Inl e, c)"

definition sendall :: "bytes \<Rightarrow> unit talk" where
  "sendall b c = (Inr (), c\<lparr>said := said c @ b\<rparr>)"

text \<open>\<open>recv\<close> returns what has arrived, up to \<open>n\<close> bytes, and nothing at the end of the stream.\<close>

definition recv :: "nat \<Rightarrow> bytes talk" where
  "recv n c =
     (case dropWhile (\<lambda>a. a = Segment []) (arrivals c) of
        [] \<Rightarrow> (Inr [], c\<lparr>arrivals := []\<rparr>)
      | Stall # rest \<Rightarrow> (Inl (Raised TimeoutError), c\<lparr>arrivals := rest\<rparr>)
      | Segment b # rest \<Rightarrow> (Inr (take n b), c\<lparr>arrivals := Segment (drop n b) # rest\<rparr>))"

function receive_loop :: "nat \<Rightarrow> bytes \<Rightarrow> bytes talk" where
  "receive_loop wanted data c =
     (if length data < wanted then
        (case recv (wanted - length data) c of
           (Inl e, c) \<Rightarrow> (Inl e, c)
         | (Inr chunk, c) \<Rightarrow>
             if chunk = [] then (Inl (ProbeFailed (ConnectionClosed (length data) wanted)), c)
             else receive_loop wanted (data @ chunk) c)
      else (Inr data, c))"
  by pat_completeness auto
termination
  by (relation "measure (\<lambda>(wanted, data, c). wanted - length data)") (auto simp: length_greater_0_conv [symmetric] simp del: length_greater_0_conv)

declare receive_loop.simps [simp del]

definition receive_exactly :: "nat \<Rightarrow> bytes talk" where
  "receive_exactly wanted = receive_loop wanted []"

section \<open>The conversation\<close>

definition VERSION :: "8 word" where "VERSION = 5"
definition AUTH_NONE :: "8 word" where "AUTH_NONE = 0"
definition AUTH_USERNAME_PASSWORD :: "8 word" where "AUTH_USERNAME_PASSWORD = 2"
definition AUTH_UNACCEPTABLE :: "8 word" where "AUTH_UNACCEPTABLE = 255"
definition AUTH_SUBNEGOTIATION_VERSION :: "8 word" where "AUTH_SUBNEGOTIATION_VERSION = 1"
definition COMMAND_UDP_ASSOCIATE :: "8 word" where "COMMAND_UDP_ASSOCIATE = 3"
definition ADDRESS_IPV4 :: "8 word" where "ADDRESS_IPV4 = 1"
definition ADDRESS_DOMAIN :: "8 word" where "ADDRESS_DOMAIN = 3"
definition ADDRESS_IPV6 :: "8 word" where "ADDRESS_IPV6 = 4"
definition ATTEMPTS :: nat where "ATTEMPTS = 3"

lemmas socks_constants = VERSION_def AUTH_NONE_def AUTH_USERNAME_PASSWORD_def AUTH_UNACCEPTABLE_def
  AUTH_SUBNEGOTIATION_VERSION_def COMMAND_UDP_ASSOCIATE_def ADDRESS_IPV4_def ADDRESS_DOMAIN_def
  ADDRESS_IPV6_def ATTEMPTS_def

definition greet :: "bool \<Rightarrow> (8 word) talk" where
  "greet offer_credentials =
     (let methods = (if offer_credentials then [AUTH_NONE, AUTH_USERNAME_PASSWORD] else [AUTH_NONE]) in
      bindP (sendall ([VERSION, byte (length methods)] @ methods)) (\<lambda>_.
      bindP (receive_exactly 2) (\<lambda>answer.
      let chosen = answer ! 1 in
      if answer ! 0 \<noteq> VERSION then failP (ProbeFailed (ExpectedVersion (unat (answer ! 0))))
      else if chosen = AUTH_UNACCEPTABLE then failP (ProbeFailed (NoMethodAccepted offer_credentials))
      else returnP chosen)))"

text \<open>\<open>bytes([n])\<close> raises when \<open>n\<close> is not a byte.\<close>

definition one_byte :: "nat \<Rightarrow> exn + bytes" where
  "one_byte n = (if n < 256 then Inr [byte n] else Inl (ValueError (ByteOutOfRange (int n))))"

definition credentials_message :: "ustr \<Rightarrow> ustr \<Rightarrow> exn + bytes" where
  "credentials_message username password =
     bindE (encode_text username) (\<lambda>name.
     bindE (encode_text password) (\<lambda>secret.
     bindE (one_byte (length name)) (\<lambda>n.
     bindE (one_byte (length secret)) (\<lambda>m.
     Inr ([AUTH_SUBNEGOTIATION_VERSION] @ n @ name @ m @ secret)))))"

definition authenticate :: "ustr \<Rightarrow> ustr \<Rightarrow> unit talk" where
  "authenticate username password =
     (case credentials_message username password of
        Inl e \<Rightarrow> failP (Raised e)
      | Inr packet \<Rightarrow>
          bindP (sendall packet) (\<lambda>_.
          bindP (receive_exactly 2) (\<lambda>answer.
          if answer ! 1 \<noteq> 0 then failP (ProbeFailed (CredentialsRejected (unat (answer ! 1))))
          else returnP ())))"

text \<open>The relay's host as the proxy names it; the text of an address is the standard library's.\<close>

datatype relay_host = Host4 bytes | Host6 bytes | HostName ustr

definition associate_request :: bytes where
  "associate_request = [VERSION, COMMAND_UDP_ASSOCIATE, 0, ADDRESS_IPV4, 0, 0, 0, 0, 0, 0]"

definition read_host :: "8 word \<Rightarrow> relay_host talk" where
  "read_host address_type =
     (if address_type = ADDRESS_IPV4 then bindP (receive_exactly 4) (\<lambda>b. returnP (Host4 b))
      else if address_type = ADDRESS_IPV6 then bindP (receive_exactly 16) (\<lambda>b. returnP (Host6 b))
      else if address_type = ADDRESS_DOMAIN then
        bindP (receive_exactly 1) (\<lambda>len.
        bindP (receive_exactly (unat (len ! 0))) (\<lambda>b.
        case decode_strict b of
          None \<Rightarrow> failP (Raised UnicodeDecodeError)
        | Some name \<Rightarrow> returnP (HostName name)))
      else failP (ProbeFailed (BadAddressType (unat address_type))))"

definition big_endian :: "bytes \<Rightarrow> nat" where
  "big_endian b = foldl (\<lambda>n w. n * 256 + unat w) 0 b"

definition request_udp_associate :: "(relay_host \<times> nat) talk" where
  "request_udp_associate =
     bindP (sendall associate_request) (\<lambda>_.
     bindP (receive_exactly 4) (\<lambda>answer.
     if answer ! 0 \<noteq> VERSION then failP (ProbeFailed (AnsweredVersion (unat (answer ! 0))))
     else if answer ! 1 \<noteq> 0 then failP (ProbeFailed (AssociateRefused (unat (answer ! 1))))
     else
       bindP (read_host (answer ! 3)) (\<lambda>host.
       bindP (receive_exactly 2) (\<lambda>port. returnP (host, big_endian port)))))"

section \<open>Datagrams\<close>

datatype ip_address = IPv4 bytes | IPv6 bytes

definition port_bytes :: "nat \<Rightarrow> bytes" where
  "port_bytes n = [byte (n div 256), byte (n mod 256)]"

definition encapsulate :: "ip_address \<Rightarrow> nat \<Rightarrow> bytes \<Rightarrow> bytes" where
  "encapsulate address target_port payload =
     (case address of
        IPv4 packed \<Rightarrow> [0, 0, 0, ADDRESS_IPV4] @ packed @ port_bytes target_port @ payload
      | IPv6 packed \<Rightarrow> [0, 0, 0, ADDRESS_IPV6] @ packed @ port_bytes target_port @ payload)"

definition strip_header :: "bytes \<Rightarrow> probe_exn + bytes" where
  "strip_header datagram =
     (if length datagram < 10 then Inl (ProbeFailed (TooFewBytes (length datagram)))
      else if datagram ! 3 = ADDRESS_IPV4 then Inr (drop 10 datagram)
      else if datagram ! 3 = ADDRESS_IPV6 then Inr (drop 22 datagram)
      else if datagram ! 3 = ADDRESS_DOMAIN then Inr (drop (5 + unat (datagram ! 4) + 2) datagram)
      else Inl (ProbeFailed (BadRelayAddressType (unat (datagram ! 3)))))"

text \<open>The packet, for the two connection ids that were drawn; 0x1A2A3A4A is the unknown version.\<close>

definition quic_probe :: "bytes \<times> bytes \<Rightarrow> bytes \<times> bytes" where
  "quic_probe ids =
     (case ids of (source_id, destination_id) \<Rightarrow>
        let packet = [0xC0] @ [0x1A, 0x2A, 0x3A, 0x4A] @ [8] @ destination_id @ [byte (length source_id)] @ source_id in
        (packet @ replicate (1200 - length packet) 0, source_id))"

definition check_answer :: "bytes \<Rightarrow> probe_exn + nat" where
  "check_answer payload =
     (if length payload < 5 then Inl (ProbeFailed (TooShortForQuic (length payload)))
      else if and (payload ! 0) 0x80 = 0 then Inl (ProbeFailed NotALongHeader)
      else let version = big_endian (take 4 (drop 1 payload)) in
        if version \<noteq> 0 then Inl (ProbeFailed (QuicVersion version)) else Inr (length payload))"

text \<open>What becomes of one datagram: an answer, none in time, or an error of the socket.\<close>

datatype exchange = Answered bytes | Unanswered | SocketFailed

text \<open>The attempts from number \<open>k\<close> on; what is sent is returned with the outcome.\<close>

fun attempt_from ::
  "nat \<Rightarrow> nat \<Rightarrow> (nat \<Rightarrow> bytes \<Rightarrow> exchange) \<Rightarrow> (nat \<Rightarrow> bytes \<times> bytes) \<Rightarrow> bytes \<Rightarrow> string \<Rightarrow>
    (probe_exn + bytes) \<times> bytes list" where
  "attempt_from 0 k network ids address target = (Inl (ProbeFailed (NeverAnswered target)), [])"
| "attempt_from (Suc left) k network ids address target =
     (let datagram = encapsulate (IPv4 address) 443 (fst (quic_probe (ids k))) in
      case network k datagram of
        Answered b \<Rightarrow> (Inr b, [datagram])
      | SocketFailed \<Rightarrow> (Inl (Raised OSError), [datagram])
      | Unanswered \<Rightarrow>
          (case attempt_from left (Suc k) network ids address target of (r, sent) \<Rightarrow> (r, datagram # sent)))"

definition relay_a_datagram ::
  "(string \<Rightarrow> exn + bytes) \<Rightarrow> (nat \<Rightarrow> bytes \<Rightarrow> exchange) \<Rightarrow> (nat \<Rightarrow> bytes \<times> bytes) \<Rightarrow> string \<Rightarrow>
    (probe_exn + nat) \<times> bytes list" where
  "relay_a_datagram resolve network ids target =
     (case resolve target of
        Inl e \<Rightarrow> (Inl (Raised e), [])
      | Inr address \<Rightarrow>
          (case attempt_from ATTEMPTS 1 network ids address target of
             (Inl e, sent) \<Rightarrow> (Inl e, sent)
           | (Inr answer, sent) \<Rightarrow> (bindE (strip_header answer) check_answer, sent)))"

section \<open>The probe\<close>

datatype report = Greeting nat | Authenticated | RelayAt relay_host nat | AnswerOf nat

definition is_os_error :: "exn \<Rightarrow> bool" where
  "is_os_error e \<longleftrightarrow> e = OSError \<or> e = TimeoutError"

text \<open>The body of the \<open>with\<close> block, with the lines it has printed.\<close>

definition log_in :: "ustr \<Rightarrow> ustr \<Rightarrow> 8 word \<Rightarrow> report list talk" where
  "log_in username password chosen =
     (if chosen \<noteq> AUTH_USERNAME_PASSWORD then returnP []
      else if username = [] then failP (ProbeFailed NoCredentials)
      else bindP (authenticate username password) (\<lambda>_. returnP [Authenticated]))"

definition negotiate :: "ustr \<Rightarrow> ustr \<Rightarrow> (report list \<times> relay_host \<times> nat) talk" where
  "negotiate username password =
     bindP (greet (username \<noteq> [])) (\<lambda>chosen.
     bindP (log_in username password chosen) (\<lambda>lines.
     bindP request_udp_associate (\<lambda>(host, port).
     returnP ([Greeting (unat chosen)] @ lines @ [RelayAt host port], host, port))))"

definition exit_code :: "probe_exn + 'a \<Rightarrow> exn + int" where
  "exit_code r =
     (case r of
        Inr _ \<Rightarrow> Inr 0
      | Inl (ProbeFailed _) \<Rightarrow> Inr 1
      | Inl (Raised e) \<Rightarrow> if is_os_error e then Inr 1 else Inl e)"

text \<open>The arguments stand for the connection attempt, the resolver, the relay and the random ids.\<close>

record surroundings =
  env_connect :: "string \<Rightarrow> nat \<Rightarrow> exn + arrival list"
  env_resolve :: "string \<Rightarrow> exn + bytes"
  env_relay :: "relay_host \<times> nat \<Rightarrow> nat \<Rightarrow> bytes \<Rightarrow> exchange"
  env_ids :: "nat \<Rightarrow> bytes \<times> bytes"

definition converse :: "surroundings \<Rightarrow> ustr \<Rightarrow> ustr \<Rightarrow> string \<Rightarrow> arrival list \<Rightarrow> probe_exn + report list" where
  "converse env username password target arriving =
     (case negotiate username password \<lparr>arrivals = arriving, said = []\<rparr> of
        (Inl e, _) \<Rightarrow> Inl e
      | (Inr (lines, host, port), _) \<Rightarrow>
          bindE (fst (relay_a_datagram (env_resolve env) (env_relay env (host, port)) (env_ids env) target)) (\<lambda>n.
          Inr (lines @ [AnswerOf n])))"

definition probe :: "surroundings \<Rightarrow> string \<Rightarrow> string \<Rightarrow> exn + int" where
  "probe env url target =
     bindE (urlsplit url) (\<lambda>parts.
     if up_scheme parts \<notin> {''socks5'', ''socks5h''} then Inr 2
     else
       (case hostname parts of
          None \<Rightarrow> Inr 2
        | Some host \<Rightarrow>
            bindE (url_port parts) (\<lambda>port.
            case port of
              None \<Rightarrow> Inr 2
            | Some p \<Rightarrow>
                if p = 0 then Inr 2
                else
                  let username = unquote (case url_username parts of None \<Rightarrow> [] | Some u \<Rightarrow> u);
                      password = unquote (case url_password parts of None \<Rightarrow> [] | Some w \<Rightarrow> w) in
                  (case env_connect env host p of
                     Inl e \<Rightarrow> exit_code (Inl (Raised e) :: probe_exn + unit)
                   | Inr arriving \<Rightarrow> exit_code (converse env username password target arriving)))))"

section \<open>Bytes, not segments\<close>

text \<open>What a reader can see of a peer: the bytes before the stream stalls or ends, which of the two, and
  what it was told. Two peers that look alike are alike for the whole conversation.\<close>

fun ahead :: "arrival list \<Rightarrow> bytes" where
  "ahead [] = []"
| "ahead (Stall # rest) = []"
| "ahead (Segment b # rest) = b @ ahead rest"

fun stalls :: "arrival list \<Rightarrow> bool" where
  "stalls [] = False"
| "stalls (Stall # rest) = True"
| "stalls (Segment b # rest) = stalls rest"

definition view :: "peer \<Rightarrow> bytes \<times> bool \<times> bytes" where
  "view c = (ahead (arrivals c), stalls (arrivals c), said c)"

definition plain_peer :: "bytes \<Rightarrow> bool \<Rightarrow> bytes \<Rightarrow> peer" where
  "plain_peer A stall s = \<lparr>arrivals = Segment A # (if stall then [Stall] else []), said = s\<rparr>"

lemma view_plain [simp]: "view (plain_peer A stall s) = (A, stall, s)"
  by (simp add: view_def plain_peer_def)

definition blind :: "'a talk \<Rightarrow> bool" where
  "blind m \<longleftrightarrow> (\<forall>c d. view c = view d \<longrightarrow>
     fst (m c) = fst (m d) \<and> said (snd (m c)) = said (snd (m d)) \<and>
     (\<not> isl (fst (m c)) \<longrightarrow> view (snd (m c)) = view (snd (m d))))"

lemma blindI:
  assumes "\<And>c d. view c = view d \<Longrightarrow>
     fst (m c) = fst (m d) \<and> said (snd (m c)) = said (snd (m d)) \<and> view (snd (m c)) = view (snd (m d))"
  shows "blind m"
  using assms unfolding blind_def by blast

lemma blindD:
  assumes "blind m" and "view c = view d" and "m c = (x, c')" and "m d = (y, d')"
  shows "x = y \<and> said c' = said d' \<and> (\<not> isl y \<longrightarrow> view c' = view d')"
  using assms(1) [unfolded blind_def, rule_format, OF assms(2)] assms(3,4) by simp

lemma blind_bind [intro]:
  assumes "blind m" and "\<And>x. blind (f x)"
  shows "blind (bindP m f)"
  unfolding blind_def
proof (intro allI impI)
  fix c d assume v: "view c = view d"
  obtain x c' y d' where m: "m c = (x, c')" "m d = (y, d')" by (metis surj_pair)
  note same = blindD [OF assms(1) v m]
  show "fst (bindP m f c) = fst (bindP m f d) \<and> said (snd (bindP m f c)) = said (snd (bindP m f d)) \<and>
     (\<not> isl (fst (bindP m f c)) \<longrightarrow> view (snd (bindP m f c)) = view (snd (bindP m f d)))"
  proof (cases y)
    case (Inl e)
    then show ?thesis using m same by (simp add: bindP_def)
  next
    case (Inr z)
    obtain q c2 w d2 where f: "f z c' = (q, c2)" "f z d' = (w, d2)" by (metis surj_pair)
    have "view c' = view d'" using same Inr by simp
    from blindD [OF assms(2) this f] show ?thesis using m f same Inr by (simp add: bindP_def)
  qed
qed

lemma blind_return [intro]: "blind (returnP x)"
  by (rule blindI) (simp add: returnP_def view_def)

lemma blind_fail [intro]: "blind (failP e)"
  by (rule blindI) (simp add: failP_def view_def)

lemma blind_sendall [intro]: "blind (sendall b)"
  by (rule blindI) (simp add: sendall_def view_def)

lemma recv_cases:
  obtains
    (ended) "ahead (arrivals c) = []" "\<not> stalls (arrivals c)" "recv n c = (Inr [], c\<lparr>arrivals := []\<rparr>)"
  | (stalled) rest where "ahead (arrivals c) = []" "stalls (arrivals c)"
      "recv n c = (Inl (Raised TimeoutError), c\<lparr>arrivals := rest\<rparr>)"
  | (some) b rest where "b \<noteq> []" "ahead (arrivals c) = b @ ahead rest" "stalls (arrivals c) = stalls rest"
      "recv n c = (Inr (take n b), c\<lparr>arrivals := Segment (drop n b) # rest\<rparr>)"
proof -
  have skip: "ahead (dropWhile (\<lambda>a. a = Segment []) as) = ahead as \<and>
      stalls (dropWhile (\<lambda>a. a = Segment []) as) = stalls as" for as
    by (induction as) auto
  have hd: "dropWhile (\<lambda>a. a = Segment []) as \<noteq> Segment [] # rest" for as rest
    by (induction as) auto
  let ?as = "dropWhile (\<lambda>a. a = Segment []) (arrivals c)"
  show thesis
  proof (cases ?as)
    case Nil
    then have "recv n c = (Inr [], c\<lparr>arrivals := []\<rparr>)" by (simp only: recv_def list.case)
    moreover have "ahead (arrivals c) = []" "\<not> stalls (arrivals c)"
      using skip [of "arrivals c"] unfolding Nil by simp_all
    ultimately show thesis by (rule ended [rotated 2])
  next
    case (Cons x rest)
    show thesis
    proof (cases x)
      case (Segment b)
      then have "b \<noteq> []" using Cons hd by blast
      moreover have "recv n c = (Inr (take n b), c\<lparr>arrivals := Segment (drop n b) # rest\<rparr>)"
        by (simp only: recv_def Cons Segment list.case arrival.case)
      moreover have "ahead (arrivals c) = b @ ahead rest" "stalls (arrivals c) = stalls rest"
        using skip [of "arrivals c"] unfolding Cons Segment by simp_all
      ultimately show thesis using some by blast
    next
      case Stall
      have "recv n c = (Inl (Raised TimeoutError), c\<lparr>arrivals := rest\<rparr>)"
        by (simp only: recv_def Cons Stall list.case arrival.case)
      moreover have "ahead (arrivals c) = []" "stalls (arrivals c)"
        using skip [of "arrivals c"] unfolding Cons Stall by simp_all
      ultimately show thesis using stalled by blast
    qed
  qed
qed

definition exactly_spec :: "nat \<Rightarrow> bytes \<Rightarrow> bytes \<Rightarrow> bool \<Rightarrow> probe_exn + bytes" where
  "exactly_spec wanted data A stall =
     (if wanted \<le> length data + length A then Inr (data @ take (wanted - length data) A)
      else if stall then Inl (Raised TimeoutError)
      else Inl (ProbeFailed (ConnectionClosed (length data + length A) wanted)))"

lemma receive_loop_spec:
  assumes "length data \<le> wanted" and "receive_loop wanted data c = (r, c')"
  shows "r = exactly_spec wanted data (ahead (arrivals c)) (stalls (arrivals c)) \<and> said c' = said c \<and>
    (\<not> isl r \<longrightarrow> ahead (arrivals c') = drop (wanted - length data) (ahead (arrivals c)) \<and>
       stalls (arrivals c') = stalls (arrivals c))"
  using assms
proof (induction wanted data c rule: receive_loop.induct)
  case (1 wanted data c)
  show ?case
  proof (cases "length data < wanted")
    case False
    with "1.prems" have "r = Inr data" "c' = c" "wanted = length data"
      by (auto simp: receive_loop.simps [of wanted data c])
    then show ?thesis by (simp add: exactly_spec_def)
  next
    case True
    show ?thesis
    proof (cases rule: recv_cases [of c "wanted - length data"])
      case ended
      with "1.prems" True have "r = Inl (ProbeFailed (ConnectionClosed (length data) wanted))" "said c' = said c"
        by (auto simp: receive_loop.simps [of wanted data c])
      with ended True show ?thesis by (simp add: exactly_spec_def)
    next
      case (stalled rest)
      with "1.prems" True have "r = Inl (Raised TimeoutError)" "said c' = said c"
        by (auto simp: receive_loop.simps [of wanted data c])
      with stalled True show ?thesis by (simp add: exactly_spec_def)
    next
      case (some b rest)
      let ?n = "wanted - length data" and ?c = "c\<lparr>arrivals := Segment (drop (wanted - length data) b) # rest\<rparr>"
      have ne: "take ?n b \<noteq> []" using some(1) True by simp
      have "receive_loop wanted (data @ take ?n b) ?c = (r, c')"
        using "1.prems"(2) True some(4) ne by (simp add: receive_loop.simps [of wanted data c])
      moreover have "length (data @ take ?n b) \<le> wanted" using True by simp
      ultimately have ih: "r = exactly_spec wanted (data @ take ?n b) (ahead (arrivals ?c)) (stalls (arrivals ?c)) \<and>
          said c' = said ?c \<and> (\<not> isl r \<longrightarrow>
          ahead (arrivals c') = drop (wanted - length (data @ take ?n b)) (ahead (arrivals ?c)) \<and>
          stalls (arrivals c') = stalls (arrivals ?c))"
        using "1.IH" [OF True some(4) [symmetric] refl ne] by blast
      have "exactly_spec wanted (data @ take ?n b) (ahead (arrivals ?c)) (stalls (arrivals ?c)) =
          exactly_spec wanted data (ahead (arrivals c)) (stalls (arrivals c))"
        using some True by (cases "length b \<le> ?n") (auto simp: exactly_spec_def)
      moreover have "drop (wanted - length (data @ take ?n b)) (ahead (arrivals ?c)) = drop ?n (ahead (arrivals c))"
        using some(2) by (cases "length b \<le> ?n") simp_all
      ultimately show ?thesis using ih some(3) by simp
    qed
  qed
qed

text \<open>Reading does not depend on how the network cuts the stream up: \<open>receive_exactly\<close> returns the
  next bytes and leaves the rest, or reports how many there were before the end of the stream, or
  times out, the same for every segmentation.\<close>

theorem reading_ignores_segments:
  "case receive_exactly n c of (r, c') \<Rightarrow>
     r = (if n \<le> length (ahead (arrivals c)) then Inr (take n (ahead (arrivals c)))
          else if stalls (arrivals c) then Inl (Raised TimeoutError)
          else Inl (ProbeFailed (ConnectionClosed (length (ahead (arrivals c))) n))) \<and>
     said c' = said c \<and>
     (if n \<le> length (ahead (arrivals c)) then ahead (arrivals c') = drop n (ahead (arrivals c)) else True)"
proof -
  obtain r c' where r: "receive_exactly n c = (r, c')" by force
  from receive_loop_spec [OF _ r [unfolded receive_exactly_def]] r show ?thesis
    by (auto simp: exactly_spec_def)
qed

lemma blind_exactly [intro]: "blind (receive_exactly n)"
  unfolding blind_def
proof (intro allI impI)
  fix c d assume v: "view c = view d"
  obtain r c' q d' where rq: "receive_exactly n c = (r, c')" "receive_exactly n d = (q, d')" by (metis surj_pair)
  from receive_loop_spec [OF _ rq(1) [unfolded receive_exactly_def]]
    receive_loop_spec [OF _ rq(2) [unfolded receive_exactly_def]] v rq
  show "fst (receive_exactly n c) = fst (receive_exactly n d) \<and> said (snd (receive_exactly n c)) = said (snd (receive_exactly n d)) \<and>
     (\<not> isl (fst (receive_exactly n c)) \<longrightarrow> view (snd (receive_exactly n c)) = view (snd (receive_exactly n d)))"
    by (simp add: view_def)
qed

lemma blind_if [intro]: "blind m \<Longrightarrow> blind m' \<Longrightarrow> blind (if p then m else m')"
  by simp

lemma blind_greet: "blind (greet offer)"
  unfolding greet_def Let_def by blast

lemma blind_authenticate: "blind (authenticate username password)"
  unfolding authenticate_def by (cases "credentials_message username password") auto

lemma blind_read_host: "blind (read_host ty)"
proof -
  have "blind (case decode_strict b of None \<Rightarrow> failP e | Some name \<Rightarrow> returnP (HostName name))" for b e
    by (cases "decode_strict b") auto
  then show ?thesis unfolding read_host_def by blast
qed

lemma blind_associate: "blind request_udp_associate"
  unfolding request_udp_associate_def using blind_read_host by blast

lemma blind_log_in: "blind (log_in username password chosen)"
  unfolding log_in_def using blind_authenticate by blast

lemma blind_negotiate: "blind (negotiate username password)"
proof -
  have "blind (case relay of (host, port) \<Rightarrow> returnP (lines host port, host, port))" for relay lines
    by (cases relay) auto
  then show ?thesis
    unfolding negotiate_def by (intro blind_bind blind_greet blind_log_in blind_associate)
qed

text \<open>C17. The verdict of the probe depends on the bytes the proxy sends, and on whether it then falls
  silent or hangs up, and not on how they were cut into segments.\<close>

theorem verdict_ignores_segments:
  assumes "ahead as = ahead bs" and "stalls as = stalls bs"
  shows "converse env username password host as = converse env username password host bs"
proof -
  have "view \<lparr>arrivals = as, said = []\<rparr> = view \<lparr>arrivals = bs, said = []\<rparr>"
    using assms by (simp add: view_def)
  with blind_negotiate have "fst (negotiate username password \<lparr>arrivals = as, said = []\<rparr>) =
      fst (negotiate username password \<lparr>arrivals = bs, said = []\<rparr>)"
    unfolding blind_def by blast
  then show ?thesis
    unfolding converse_def
    by (cases "negotiate username password \<lparr>arrivals = as, said = []\<rparr>";
        cases "negotiate username password \<lparr>arrivals = bs, said = []\<rparr>") (auto split: sum.splits)
qed

section \<open>What the proxy must have said\<close>

text \<open>
  \<open>reads m R\<close>: the conversation \<open>m\<close> returns \<open>x\<close> exactly when the bytes ahead are related to \<open>x\<close> and
  the bytes left over by \<open>R\<close>, a grammar of the proxy's side.
\<close>

definition reads :: "'a talk \<Rightarrow> ('a \<Rightarrow> bytes \<Rightarrow> bytes \<Rightarrow> bool) \<Rightarrow> bool" where
  "reads m R \<longleftrightarrow> (\<forall>c A stall s. view c = (A, stall, s) \<longrightarrow>
     (\<forall>x c'. m c = (Inr x, c') \<longrightarrow> (\<exists>A' s'. R x A A' \<and> view c' = (A', stall, s'))) \<and>
     (\<forall>x A'. R x A A' \<longrightarrow> (\<exists>c' s'. m c = (Inr x, c') \<and> view c' = (A', stall, s'))))"

lemma readsI:
  assumes "\<And>c A stall s x c'. view c = (A, stall, s) \<Longrightarrow> m c = (Inr x, c') \<Longrightarrow>
      \<exists>A' s'. R x A A' \<and> view c' = (A', stall, s')"
    and "\<And>c A stall s x A'. view c = (A, stall, s) \<Longrightarrow> R x A A' \<Longrightarrow>
      \<exists>c' s'. m c = (Inr x, c') \<and> view c' = (A', stall, s')"
  shows "reads m R"
  using assms unfolding reads_def by blast

lemma reads_sound:
  "reads m R \<Longrightarrow> view c = (A, stall, s) \<Longrightarrow> m c = (Inr x, c') \<Longrightarrow> \<exists>A' s'. R x A A' \<and> view c' = (A', stall, s')"
  unfolding reads_def by blast

lemma reads_complete:
  "reads m R \<Longrightarrow> view c = (A, stall, s) \<Longrightarrow> R x A A' \<Longrightarrow> \<exists>c' s'. m c = (Inr x, c') \<and> view c' = (A', stall, s')"
  unfolding reads_def by blast

lemma reads_cong:
  assumes "reads m R" and "\<And>x A A'. R x A A' = S x A A'"
  shows "reads m S"
proof -
  have "R = S" by (intro ext) (rule assms(2))
  with assms(1) show ?thesis by simp
qed

lemma bindP_Inr: "bindP m f c = (Inr y, c') \<longleftrightarrow> (\<exists>x c1. m c = (Inr x, c1) \<and> f x c1 = (Inr y, c'))"
  by (auto simp: bindP_def split: prod.splits sum.splits)

lemma reads_bind:
  assumes m: "reads m R" and f: "\<And>x. reads (f x) (S x)"
  shows "reads (bindP m f) (\<lambda>y A A''. \<exists>x A'. R x A A' \<and> S x y A' A'')"
proof (rule readsI)
  fix c A stall s y c' assume v: "view c = (A, stall, s)" and "bindP m f c = (Inr y, c')"
  then obtain x c1 where x: "m c = (Inr x, c1)" and y: "f x c1 = (Inr y, c')" by (auto simp: bindP_Inr)
  from reads_sound [OF m v x] obtain A1 s1 where A1: "R x A A1" "view c1 = (A1, stall, s1)" by blast
  from reads_sound [OF f A1(2) y] A1(1)
  show "\<exists>A' s'. (\<exists>x A1. R x A A1 \<and> S x y A1 A') \<and> view c' = (A', stall, s')" by blast
next
  fix c A stall s y A' assume v: "view c = (A, stall, s)" and "\<exists>x A1. R x A A1 \<and> S x y A1 A'"
  then obtain x A1 where x: "R x A A1" and y: "S x y A1 A'" by blast
  from reads_complete [OF m v x] obtain c1 s1 where c1: "m c = (Inr x, c1)" "view c1 = (A1, stall, s1)" by blast
  from reads_complete [OF f c1(2) y] c1(1)
  show "\<exists>c' s'. bindP m f c = (Inr y, c') \<and> view c' = (A', stall, s')" by (auto simp: bindP_Inr)
qed

lemma reads_exactly: "reads (receive_exactly n) (\<lambda>x A A'. A = x @ A' \<and> length x = n)"
proof (rule readsI)
  fix c A stall s x c' assume "view c = (A, stall, s)" and "receive_exactly n c = (Inr x, c')"
  with receive_loop_spec [of "[]" n c "Inr x" c']
  have "x = take n A \<and> n \<le> length A \<and> view c' = (drop n A, stall, s)"
    by (auto simp: receive_exactly_def exactly_spec_def view_def split: if_splits)
  then show "\<exists>A' s'. (A = x @ A' \<and> length x = n) \<and> view c' = (A', stall, s')" by auto
next
  fix c A stall s x A' assume "view c = (A, stall, s)" and "A = x @ A' \<and> length x = n"
  moreover obtain r c' where r: "receive_exactly n c = (r, c')" by force
  ultimately have "r = Inr x \<and> view c' = (A', stall, s)"
    using receive_loop_spec [OF _ r [unfolded receive_exactly_def]] by (auto simp: exactly_spec_def view_def)
  with r show "\<exists>c' s'. receive_exactly n c = (Inr x, c') \<and> view c' = (A', stall, s')" by blast
qed

lemma reads_sendall: "reads (sendall b) (\<lambda>u A A'. A' = A)"
  by (rule readsI) (auto simp: sendall_def view_def)

lemma reads_return: "reads (returnP x) (\<lambda>y A A'. y = x \<and> A' = A)"
  by (rule readsI) (auto simp: returnP_def)

lemma reads_fail: "reads (failP e) (\<lambda>y A A'. False)"
  by (rule readsI) (auto simp: failP_def)

lemma reads_if: "reads m R \<Longrightarrow> reads m' R' \<Longrightarrow> reads (if p then m else m') (\<lambda>x A A'. if p then R x A A' else R' x A A')"
  by simp

lemmas reads_intros = reads_bind reads_exactly reads_sendall reads_return reads_fail reads_if

text \<open>A read of known length hands its bytes on one by one.\<close>

lemma length_one: "length x = 1 \<longleftrightarrow> (\<exists>a. x = [a])"
  by (auto simp: length_Suc_conv)

lemma length_two: "length x = 2 \<longleftrightarrow> (\<exists>a b. x = [a, b])"
  by (auto simp: length_Suc_conv numeral_2_eq_2)

lemma length_four: "length x = 4 \<longleftrightarrow> (\<exists>a b c d. x = [a, b, c, d])"
  by (auto simp: length_Suc_conv eval_nat_numeral)

lemma reads_list:
  assumes "\<And>x. length x = n \<Longrightarrow> reads (f x) (S x)"
  shows "reads (bindP (receive_exactly n) f) (\<lambda>y A A''. \<exists>x A'. A = x @ A' \<and> length x = n \<and> S x y A' A'')"
proof (rule readsI)
  fix c A stall s y c' assume v: "view c = (A, stall, s)" and "bindP (receive_exactly n) f c = (Inr y, c')"
  then obtain x c1 where x: "receive_exactly n c = (Inr x, c1)" and y: "f x c1 = (Inr y, c')" by (auto simp: bindP_Inr)
  from reads_sound [OF reads_exactly v x] obtain A1 s1 where A1: "A = x @ A1 \<and> length x = n" "view c1 = (A1, stall, s1)"
    by blast
  from reads_sound [OF assms A1(2) y] A1(1)
  show "\<exists>A' s'. (\<exists>x A1. A = x @ A1 \<and> length x = n \<and> S x y A1 A') \<and> view c' = (A', stall, s')" by blast
next
  fix c A stall s y A' assume v: "view c = (A, stall, s)" and "\<exists>x A1. A = x @ A1 \<and> length x = n \<and> S x y A1 A'"
  then obtain x A1 where x: "A = x @ A1 \<and> length x = n" and y: "S x y A1 A'" by blast
  from reads_complete [OF reads_exactly v x] obtain c1 s1
    where c1: "receive_exactly n c = (Inr x, c1)" "view c1 = (A1, stall, s1)" by blast
  from reads_complete [OF assms c1(2) y] x c1(1)
  show "\<exists>c' s'. bindP (receive_exactly n) f c = (Inr y, c') \<and> view c' = (A', stall, s')" by (auto simp: bindP_Inr)
qed

lemma reads_send_then: "reads m R \<Longrightarrow> reads (bindP (sendall b) (\<lambda>u. m)) R"
  by (rule reads_cong [OF reads_bind [OF reads_sendall, of "\<lambda>u. m" "\<lambda>u. R"]]) auto

lemma greet_reads: "reads (greet offer) (\<lambda>m A A'. A = [VERSION, m] @ A' \<and> m \<noteq> AUTH_UNACCEPTABLE)"
proof -
  have "reads (if x ! 0 \<noteq> VERSION then failP e else if x ! 1 = AUTH_UNACCEPTABLE then failP e' else returnP (x ! 1))
      (\<lambda>m A A'. x ! 0 = VERSION \<and> x ! 1 \<noteq> AUTH_UNACCEPTABLE \<and> m = x ! 1 \<and> A' = A)" for x e e'
    by (simp add: reads_fail reads_return)
  from reads_send_then [OF reads_list [OF this]] show ?thesis
    unfolding greet_def Let_def
    by (rule reads_cong) (auto simp: length_two)
qed

lemma authenticate_reads:
  "reads (authenticate username password)
     (\<lambda>u A A'. \<exists>v. A = [v, 0] @ A' \<and> \<not> isl (credentials_message username password))"
proof (cases "credentials_message username password")
  case (Inl e)
  then show ?thesis by (simp add: authenticate_def reads_fail)
next
  case (Inr packet)
  have "reads (if x ! 1 \<noteq> 0 then failP e else returnP ()) (\<lambda>u A A'. x ! 1 = 0 \<and> A' = A)" for x e
    by (simp add: reads_fail reads_return [THEN reads_cong])
  note r = reads_send_then [OF reads_list [OF this]]
  have "authenticate username password = bindP (sendall packet) (\<lambda>_. bindP (receive_exactly 2) (\<lambda>answer.
      if answer ! 1 \<noteq> 0 then failP (ProbeFailed (CredentialsRejected (unat (answer ! 1)))) else returnP ()))"
    using Inr by (simp add: authenticate_def)
  then show ?thesis
    by (simp only:) (rule reads_cong [OF r], use Inr in \<open>auto simp: length_two\<close>)
qed

text \<open>How a host is spelled after its address type.\<close>

fun spells_host :: "bytes \<Rightarrow> relay_host \<Rightarrow> bool" where
  "spells_host w (Host4 b) = (w = ADDRESS_IPV4 # b \<and> length b = 4)"
| "spells_host w (Host6 b) = (w = ADDRESS_IPV6 # b \<and> length b = 16)"
| "spells_host w (HostName name) =
     (\<exists>raw. w = ADDRESS_DOMAIN # byte (length raw) # raw \<and> length raw < 256 \<and> decode_strict raw = Some name)"

lemma domain_form:
  "(\<exists>x A1. A = x @ A1 \<and> length x = 1 \<and> (\<exists>y A2. A1 = y @ A2 \<and> length y = unat (x ! 0) \<and>
      (\<exists>name. decode_strict y = Some name \<and> h = HostName name \<and> A' = A2))) \<longleftrightarrow>
   (\<exists>w. ADDRESS_DOMAIN # A = w @ A' \<and> spells_host w h)" (is "?L = ?R")
proof
  assume ?L
  then obtain n y name where A: "A = n # y @ A'" and y: "length y = unat n" "decode_strict y = Some name" "h = HostName name"
    unfolding length_one by auto
  have "byte (length y) = n" using y(1) by (simp add: byte_def)
  moreover have "length y < 256" by (simp add: y(1))
  ultimately have "ADDRESS_DOMAIN # A = (ADDRESS_DOMAIN # byte (length y) # y) @ A' \<and>
      spells_host (ADDRESS_DOMAIN # byte (length y) # y) h"
    using A y(2,3) by (auto intro!: exI [of _ y])
  then show ?R by blast
next
  assume ?R
  then obtain w where w: "ADDRESS_DOMAIN # A = w @ A'" "spells_host w h" by blast
  show ?L
  proof (cases h)
    case (HostName name)
    with w obtain raw where raw: "A = [byte (length raw)] @ (raw @ A')" "length raw < 256" "decode_strict raw = Some name"
      by auto
    moreover have "length raw = unat ([byte (length raw)] ! 0)" using raw(2) by (simp add: unat_byte)
    ultimately show ?thesis
      using HostName by (intro exI [of _ "[byte (length raw)]"] exI [of _ "raw @ A'"]) auto
  qed (use w in \<open>auto simp: socks_constants\<close>)
qed

lemma host_reads: "reads (read_host ty) (\<lambda>h A A'. \<exists>w. ty # A = w @ A' \<and> spells_host w h)"
proof -
  have name: "reads (case decode_strict b of None \<Rightarrow> failP e | Some name \<Rightarrow> returnP (HostName name))
      (\<lambda>h A A'. \<exists>name. decode_strict b = Some name \<and> h = HostName name \<and> A' = A)" for b e
    by (cases "decode_strict b") (auto intro: reads_fail reads_return)
  consider "ty = ADDRESS_IPV4" | "ty = ADDRESS_IPV6" | "ty = ADDRESS_DOMAIN"
    | "ty \<notin> {ADDRESS_IPV4, ADDRESS_IPV6, ADDRESS_DOMAIN}" by auto
  then show ?thesis
  proof cases
    case 1
    then have "read_host ty = bindP (receive_exactly 4) (\<lambda>b. returnP (Host4 b))" by (simp add: read_host_def)
    then show ?thesis
      by (simp only:) (rule reads_cong [OF reads_list [OF reads_return]];
        rename_tac h A A'; case_tac h; use 1 in \<open>auto simp: socks_constants\<close>)
  next
    case 2
    then have "read_host ty = bindP (receive_exactly 16) (\<lambda>b. returnP (Host6 b))"
      by (simp add: read_host_def socks_constants)
    then show ?thesis
      by (simp only:) (rule reads_cong [OF reads_list [OF reads_return]];
        rename_tac h A A'; case_tac h; use 2 in \<open>auto simp: socks_constants\<close>)
  next
    case 3
    then have "read_host ty = bindP (receive_exactly 1) (\<lambda>len.
        bindP (receive_exactly (unat (len ! 0))) (\<lambda>b.
        case decode_strict b of None \<Rightarrow> failP (Raised UnicodeDecodeError) | Some name \<Rightarrow> returnP (HostName name)))"
      by (simp add: read_host_def socks_constants)
    then show ?thesis
      unfolding 3 by (simp only:) (rule reads_cong [OF reads_list [OF reads_list [OF name]] domain_form])
  next
    case 4
    then have "read_host ty = failP (ProbeFailed (BadAddressType (unat ty)))" by (simp add: read_host_def)
    then show ?thesis
      by (simp only:) (rule reads_cong [OF reads_fail];
        rename_tac h A A'; case_tac h; use 4 in \<open>auto simp: Cons_eq_append_conv\<close>)
  qed
qed

definition grants :: "relay_host \<Rightarrow> nat \<Rightarrow> bytes \<Rightarrow> bytes \<Rightarrow> bool" where
  "grants host port A A' \<longleftrightarrow> (\<exists>reserved w hi lo. A = [VERSION, 0, reserved] @ w @ [hi, lo] @ A' \<and>
     spells_host w host \<and> port = unat hi * 256 + unat lo)"

lemma grants_form:
  "(\<exists>x B. A = x @ B \<and> length x = 4 \<and> x ! 0 = VERSION \<and> x ! 1 = 0 \<and>
      (\<exists>host A1. (\<exists>w. x ! 3 # B = w @ A1 \<and> spells_host w host) \<and>
        (\<exists>p A2. A1 = p @ A2 \<and> length p = 2 \<and> y = (host, big_endian p) \<and> A' = A2))) \<longleftrightarrow>
   grants (fst y) (snd y) A A'" (is "?L = ?R")
proof
  assume ?L
  then obtain r ty B host A1 w p where *: "A = [VERSION, 0, r, ty] @ B" "ty # B = w @ A1" "spells_host w host"
      "A1 = p @ A'" "length p = 2" "y = (host, big_endian p)"
    unfolding length_four by auto
  then obtain hi lo where p: "p = [hi, lo]" unfolding length_two by blast
  have "A = [VERSION, 0, r] @ w @ [hi, lo] @ A'" using * p by simp
  then show ?R unfolding grants_def using * p by (auto simp: big_endian_def)
next
  assume ?R
  then obtain r w hi lo where *: "A = [VERSION, 0, r] @ w @ [hi, lo] @ A'" "spells_host w (fst y)"
      "snd y = unat hi * 256 + unat lo"
    unfolding grants_def by blast
  obtain ty w' where w: "w = ty # w'" using *(2) by (cases "fst y") auto
  have "A = [VERSION, 0, r, ty] @ (w' @ [hi, lo] @ A')" using * w by simp
  moreover have "[VERSION, 0, r, ty] ! 3 # (w' @ [hi, lo] @ A') = w @ ([hi, lo] @ A')" using w by simp
  moreover have "y = (fst y, big_endian [hi, lo])" using *(3) by (simp add: big_endian_def prod_eq_iff)
  ultimately show ?L
    using *(2) by (intro exI [of _ "[VERSION, 0, r, ty]"] exI [of _ "w' @ [hi, lo] @ A'"])
      (simp, intro exI [of _ "fst y"] exI [of _ "[hi, lo] @ A'"] conjI exI [of _ w] exI [of _ "[hi, lo]"], simp_all)
qed

lemma associate_reads: "reads request_udp_associate (\<lambda>y A A'. grants (fst y) (snd y) A A')"
proof -
  have port: "reads (bindP (receive_exactly 2) (\<lambda>p. returnP (host, big_endian p)))
      (\<lambda>y A A'. \<exists>p A1. A = p @ A1 \<and> length p = 2 \<and> y = (host, big_endian p) \<and> A' = A1)" for host
    by (rule reads_list [OF reads_return])
  have rest: "reads (bindP (read_host ty) (\<lambda>host. bindP (receive_exactly 2) (\<lambda>p. returnP (host, big_endian p))))
      (\<lambda>y A A'. \<exists>host A1. (\<exists>w. ty # A = w @ A1 \<and> spells_host w host) \<and>
        (\<exists>p A2. A1 = p @ A2 \<and> length p = 2 \<and> y = (host, big_endian p) \<and> A' = A2))" for ty
    by (rule reads_bind [OF host_reads port])
  have "reads (if x ! 0 \<noteq> VERSION then failP e else if x ! 1 \<noteq> 0 then failP e'
        else bindP (read_host (x ! 3)) (\<lambda>host. bindP (receive_exactly 2) (\<lambda>p. returnP (host, big_endian p))))
      (\<lambda>y A A'. x ! 0 = VERSION \<and> x ! 1 = 0 \<and> (\<exists>host A1. (\<exists>w. x ! 3 # A = w @ A1 \<and> spells_host w host) \<and>
        (\<exists>p A2. A1 = p @ A2 \<and> length p = 2 \<and> y = (host, big_endian p) \<and> A' = A2)))" for x e e'
  proof (cases "x ! 0 = VERSION \<and> x ! 1 = 0")
    case True
    then show ?thesis using rest [of "x ! 3"] by simp
  next
    case False
    then show ?thesis by (auto intro: reads_fail)
  qed
  note r = reads_send_then [OF reads_list [OF this]]
  show ?thesis
    unfolding request_udp_associate_def by (rule reads_cong [OF r grants_form])
qed

lemma log_in_reads:
  "reads (log_in username password m) (\<lambda>lines A A'.
     if m = AUTH_USERNAME_PASSWORD then username \<noteq> [] \<and> \<not> isl (credentials_message username password) \<and>
       lines = [Authenticated] \<and> (\<exists>v. A = [v, 0] @ A')
     else lines = [] \<and> A' = A)"
proof -
  have auth: "reads (bindP (authenticate username password) (\<lambda>u. returnP [Authenticated]))
      (\<lambda>lines A A'. \<not> isl (credentials_message username password) \<and> lines = [Authenticated] \<and> (\<exists>v. A = [v, 0] @ A'))"
    by (rule reads_cong [OF reads_bind [OF authenticate_reads reads_return]]) auto
  show ?thesis
    unfolding log_in_def using auth by (auto intro: reads_fail reads_return)
qed

text \<open>A proxy that plays its part: it picks method \<open>m\<close>, accepts the credentials if it asked for them,
  and grants the association.\<close>

definition plays_along :: "ustr \<Rightarrow> ustr \<Rightarrow> 8 word \<Rightarrow> relay_host \<Rightarrow> nat \<Rightarrow> bytes \<Rightarrow> bool" where
  "plays_along username password m host port A \<longleftrightarrow> (\<exists>login B A'. A = [VERSION, m] @ login @ B \<and>
     m \<noteq> AUTH_UNACCEPTABLE \<and>
     (if m = AUTH_USERNAME_PASSWORD
      then username \<noteq> [] \<and> \<not> isl (credentials_message username password) \<and> (\<exists>v. login = [v, 0])
      else login = []) \<and>
     grants host port B A')"

definition printed :: "8 word \<Rightarrow> relay_host \<Rightarrow> nat \<Rightarrow> report list" where
  "printed m host port = [Greeting (unat m)] @ (if m = AUTH_USERNAME_PASSWORD then [Authenticated] else []) @ [RelayAt host port]"

definition logged_in :: "ustr \<Rightarrow> ustr \<Rightarrow> 8 word \<Rightarrow> report list \<Rightarrow> bytes \<Rightarrow> bytes \<Rightarrow> bool" where
  "logged_in username password m lines A A' \<longleftrightarrow>
     (if m = AUTH_USERNAME_PASSWORD then username \<noteq> [] \<and> \<not> isl (credentials_message username password) \<and>
       lines = [Authenticated] \<and> (\<exists>v. A = [v, 0] @ A')
     else lines = [] \<and> A' = A)"

definition negotiated :: "ustr \<Rightarrow> ustr \<Rightarrow> report list \<times> relay_host \<times> nat \<Rightarrow> bytes \<Rightarrow> bytes \<Rightarrow> bool" where
  "negotiated username password y A A'' \<longleftrightarrow>
     (\<exists>m A1. (A = [VERSION, m] @ A1 \<and> m \<noteq> AUTH_UNACCEPTABLE) \<and>
       (\<exists>lines A2. logged_in username password m lines A1 A2 \<and> (\<exists>x A3. grants (fst x) (snd x) A2 A3 \<and>
         (y = ([Greeting (unat m)] @ lines @ [RelayAt (fst x) (snd x)], fst x, snd x) \<and> A'' = A3))))"

lemma negotiate_reads: "reads (negotiate username password) (negotiated username password)"
proof -
  have tail: "reads (case y of (host, port) \<Rightarrow> returnP (lines @ [RelayAt host port], host, port))
      (\<lambda>z A A'. z = (lines @ [RelayAt (fst y) (snd y)], fst y, snd y) \<and> A' = A)" for y lines
    by (cases y) (simp add: reads_return)
  have rest: "reads (bindP request_udp_associate
      (\<lambda>(host, port). returnP (lines @ [RelayAt host port], host, port)))
      (\<lambda>z A A''. \<exists>x A3. grants (fst x) (snd x) A A3 \<and>
        (z = (lines @ [RelayAt (fst x) (snd x)], fst x, snd x) \<and> A'' = A3))" for lines
    by (rule reads_bind [OF associate_reads tail])
  have login: "reads (log_in username password m) (logged_in username password m)" for m
    by (rule reads_cong [OF log_in_reads]) (simp add: logged_in_def)
  have "reads (negotiate username password) (\<lambda>y A A''. \<exists>m A1. (A = [VERSION, m] @ A1 \<and> m \<noteq> AUTH_UNACCEPTABLE) \<and>
       (\<exists>lines A2. logged_in username password m lines A1 A2 \<and> (\<exists>x A3. grants (fst x) (snd x) A2 A3 \<and>
         (y = (([Greeting (unat m)] @ lines) @ [RelayAt (fst x) (snd x)], fst x, snd x) \<and> A'' = A3))))"
    unfolding negotiate_def append_assoc [symmetric]
    by (intro reads_bind [OF greet_reads] reads_bind [OF login] rest)
  then show ?thesis by (rule reads_cong) (simp only: negotiated_def append_assoc)
qed

lemma login_form:
  "logged_in username password m lines A A' \<longleftrightarrow> (\<exists>login. A = login @ A' \<and>
     lines = (if m = AUTH_USERNAME_PASSWORD then [Authenticated] else []) \<and>
     (if m = AUTH_USERNAME_PASSWORD
      then username \<noteq> [] \<and> \<not> isl (credentials_message username password) \<and> (\<exists>v. login = [v, 0])
      else login = []))"
  by (cases "m = AUTH_USERNAME_PASSWORD") (auto simp: logged_in_def)

lemma parts_in_order:
  "(\<exists>A' m A1. (A = V m @ A1 \<and> N m) \<and> (\<exists>ls A2. (\<exists>l. A1 = l @ A2 \<and> ls = L m \<and> P m l) \<and>
      (\<exists>x A3. G (fst x) (snd x) A2 A3 \<and> (lines, host, port) = (K m @ ls @ F (fst x) (snd x), fst x, snd x) \<and> A' = A3))) \<longleftrightarrow>
   (\<exists>m. (\<exists>l B A'. A = V m @ l @ B \<and> N m \<and> P m l \<and> G host port B A') \<and> lines = K m @ L m @ F host port)"
  by (simp, blast)

lemma negotiated_form:
  "(\<exists>A'. negotiated username password (lines, host, port) A A') \<longleftrightarrow>
     (\<exists>m. plays_along username password m host port A \<and> lines = printed m host port)"
  unfolding negotiated_def plays_along_def printed_def login_form by (rule parts_in_order)

lemma negotiation_form:
  "(\<exists>c'. negotiate username password \<lparr>arrivals = as, said = []\<rparr> = (Inr (lines, host, port), c')) \<longleftrightarrow>
   (\<exists>m. plays_along username password m host port (ahead as) \<and> lines = printed m host port)"
proof -
  have v: "view \<lparr>arrivals = as, said = []\<rparr> = (ahead as, stalls as, [])" by (simp add: view_def)
  have "(\<exists>c'. negotiate username password \<lparr>arrivals = as, said = []\<rparr> = (Inr (lines, host, port), c')) \<longleftrightarrow>
      (\<exists>A'. negotiated username password (lines, host, port) (ahead as) A')"
    using reads_sound [OF negotiate_reads v] reads_complete [OF negotiate_reads v] by blast
  then show ?thesis by (simp only: negotiated_form)
qed

section \<open>What the relay must have done\<close>

definition probe_datagram :: "(nat \<Rightarrow> bytes \<times> bytes) \<Rightarrow> bytes \<Rightarrow> nat \<Rightarrow> bytes" where
  "probe_datagram ids address k = encapsulate (IPv4 address) 443 (fst (quic_probe (ids k)))"

definition version_negotiation :: "bytes \<Rightarrow> bool" where
  "version_negotiation payload \<longleftrightarrow> 5 \<le> length payload \<and> and (payload ! 0) 0x80 \<noteq> 0 \<and> take 4 (drop 1 payload) = [0, 0, 0, 0]"

lemma big_endian_four: "length b = 4 \<Longrightarrow> big_endian b = 0 \<longleftrightarrow> b = [0, 0, 0, 0]"
  by (auto simp: length_four big_endian_def unat_eq_0)

lemma check_answer_Inr: "check_answer payload = Inr n \<longleftrightarrow> version_negotiation payload \<and> n = length payload"
  using big_endian_four [of "take 4 (drop 1 payload)"]
  by (auto simp: check_answer_def version_negotiation_def Let_def)

lemma attempt_from_Inr:
  "fst (attempt_from n k network ids address target) = Inr b \<longleftrightarrow>
   (\<exists>j<n. (\<forall>i<j. network (k + i) (probe_datagram ids address (k + i)) = Unanswered) \<and>
      network (k + j) (probe_datagram ids address (k + j)) = Answered b)"
proof (induction n arbitrary: k)
  case (Suc n)
  let ?d = "probe_datagram ids address"
  have shift: "(\<exists>j<Suc n. (\<forall>i<j. network (k + i) (?d (k + i)) = Unanswered) \<and> network (k + j) (?d (k + j)) = Answered b) \<longleftrightarrow>
      network k (?d k) = Answered b \<or> network k (?d k) = Unanswered \<and>
      (\<exists>j<n. (\<forall>i<j. network (Suc k + i) (?d (Suc k + i)) = Unanswered) \<and> network (Suc k + j) (?d (Suc k + j)) = Answered b)"
    unfolding Ex_less_Suc2 All_less_Suc2 by auto
  show ?case
    unfolding shift Suc.IH [of "Suc k", symmetric]
    by (cases "network k (?d k)") (auto simp: probe_datagram_def Let_def split: prod.splits)
qed simp

lemma relay_Inr:
  "fst (relay_a_datagram resolve network ids target) = Inr n \<longleftrightarrow>
   (\<exists>address k answer payload. resolve target = Inr address \<and> 1 \<le> k \<and> k \<le> ATTEMPTS \<and>
      (\<forall>i\<in>{1..<k}. network i (probe_datagram ids address i) = Unanswered) \<and>
      network k (probe_datagram ids address k) = Answered answer \<and>
      strip_header answer = Inr payload \<and> version_negotiation payload \<and> n = length payload)"
proof (cases "resolve target")
  case (Inr address)
  let ?d = "probe_datagram ids address"
  have attempts: "fst (attempt_from ATTEMPTS 1 network ids address target) = Inr b \<longleftrightarrow>
      (\<exists>k. 1 \<le> k \<and> k \<le> ATTEMPTS \<and> (\<forall>i\<in>{1..<k}. network i (?d i) = Unanswered) \<and> network k (?d k) = Answered b)"
    (is "_ \<longleftrightarrow> ?K") for b
  proof -
    have "(\<exists>j<ATTEMPTS. (\<forall>i<j. network (1 + i) (?d (1 + i)) = Unanswered) \<and> network (1 + j) (?d (1 + j)) = Answered b) \<longleftrightarrow> ?K"
      (is "?J \<longleftrightarrow> _")
    proof
      assume ?J
      then obtain j where j: "j < ATTEMPTS" "\<forall>i<j. network (1 + i) (?d (1 + i)) = Unanswered"
          "network (1 + j) (?d (1 + j)) = Answered b" by blast
      have "network i (?d i) = Unanswered" if "i \<in> {1..<1 + j}" for i
        using j(2) that by (auto dest!: spec [of _ "i - 1"])
      with j(1,3) show ?K by (intro exI [of _ "1 + j"]) auto
    next
      assume ?K
      then obtain k where k: "1 \<le> k" "k \<le> ATTEMPTS" "\<forall>i\<in>{1..<k}. network i (?d i) = Unanswered"
          "network k (?d k) = Answered b" by blast
      then show ?J by (intro exI [of _ "k - 1"]) auto
    qed
    then show ?thesis using attempt_from_Inr [of ATTEMPTS 1 network ids address target b] by simp
  qed
  obtain r sent where r: "attempt_from ATTEMPTS 1 network ids address target = (r, sent)" by force
  have "fst (relay_a_datagram resolve network ids target) = Inr n \<longleftrightarrow>
      (\<exists>answer payload. r = Inr answer \<and> strip_header answer = Inr payload \<and> version_negotiation payload \<and> n = length payload)"
    using r Inr by (cases r) (auto simp: relay_a_datagram_def bindE_eq_Inr check_answer_Inr)
  then show ?thesis using attempts r Inr by auto
qed (simp add: relay_a_datagram_def)

text \<open>C16. The probe reports success exactly when it has proof: the proxy played along, and one of the three
  datagrams, the earlier ones having got no answer, was answered through the relay the proxy named
  with a QUIC Version Negotiation packet.\<close>

theorem success_is_proof:
  "converse env username password host as = Inr lines \<longleftrightarrow>
   (\<exists>m rhost rport address k answer payload. plays_along username password m rhost rport (ahead as) \<and>
      env_resolve env host = Inr address \<and> 1 \<le> k \<and> k \<le> ATTEMPTS \<and>
      list_all (\<lambda>i. env_relay env (rhost, rport) i (probe_datagram (env_ids env) address i) = Unanswered) [1..<k] \<and>
      env_relay env (rhost, rport) k (probe_datagram (env_ids env) address k) = Answered answer \<and>
      strip_header answer = Inr payload \<and> version_negotiation payload \<and>
      lines = printed m rhost rport @ [AnswerOf (length payload)])"
proof -
  have "converse env username password host as = Inr lines \<longleftrightarrow>
      (\<exists>ls rhost rport n. (\<exists>c'. negotiate username password \<lparr>arrivals = as, said = []\<rparr> = (Inr (ls, rhost, rport), c')) \<and>
        fst (relay_a_datagram (env_resolve env) (env_relay env (rhost, rport)) (env_ids env) host) = Inr n \<and>
        lines = ls @ [AnswerOf n])"
    by (auto simp: converse_def bindE_eq_Inr split: prod.splits sum.splits)
  also have "\<dots> \<longleftrightarrow> (\<exists>m rhost rport n. plays_along username password m rhost rport (ahead as) \<and>
        fst (relay_a_datagram (env_resolve env) (env_relay env (rhost, rport)) (env_ids env) host) = Inr n \<and>
        lines = printed m rhost rport @ [AnswerOf n])"
    unfolding negotiation_form by blast
  finally show ?thesis unfolding relay_Inr list_all_iff set_upt by blast
qed

text \<open>A datagram is wrapped and unwrapped faithfully: the payload comes back out of its SOCKS5 header,
  for IPv4 and IPv6; and what is sent is a QUIC packet of 1200 bytes, the least a server answers.\<close>

theorem datagram_roundtrip:
  assumes "length four = 4" and "length sixteen = 16" and "length (fst ids) = 8" and "length (snd ids) = 8"
  shows "strip_header (encapsulate (IPv4 four) target_port payload) = Inr payload \<and>
    strip_header (encapsulate (IPv6 sixteen) target_port payload) = Inr payload \<and>
    length (fst (quic_probe ids)) = 1200 \<and> snd (quic_probe ids) = fst ids \<and>
    strip_header (probe_datagram (\<lambda>k. ids) four k) = Inr (fst (quic_probe ids))"
proof -
  have wrapped: "strip_header (encapsulate (IPv4 four) q b) = Inr b" for q b
    using assms(1) by (auto simp: strip_header_def encapsulate_def port_bytes_def length_four socks_constants)
  have "strip_header (encapsulate (IPv6 sixteen) target_port payload) = Inr payload"
    using assms(2) by (simp add: strip_header_def encapsulate_def port_bytes_def socks_constants)
  moreover have "length (fst (quic_probe ids)) = 1200 \<and> snd (quic_probe ids) = fst ids"
    using assms(3,4) by (cases ids) (simp add: quic_probe_def Let_def)
  ultimately show ?thesis using wrapped by (simp add: probe_datagram_def)
qed

theorem datagram_roundtrip_witness:
  "let ids = ([1, 2, 3, 4, 5, 6, 7, 8], [9, 10, 11, 12, 13, 14, 15, 16]) in
   strip_header (encapsulate (IPv4 [1, 1, 1, 1]) 443 [7]) = Inr [7] \<and>
   strip_header (encapsulate (IPv6 (replicate 16 1)) 443 [7]) = Inr [7] \<and>
   length (fst (quic_probe ids)) = 1200 \<and> snd (quic_probe ids) = fst ids \<and>
   strip_header (probe_datagram (\<lambda>k. ids) [1, 1, 1, 1] 2) = Inr (fst (quic_probe ids))"
  unfolding Let_def by (rule datagram_roundtrip) simp_all

section \<open>Credentials that are too long\<close>

text \<open>A user name of more than 255 bytes ends the probe with an uncaught \<open>ValueError\<close> as soon as the
  proxy asks for credentials, where every other obstacle is reported and gives exit code 1.\<close>

theorem long_credentials_crash:
  assumes "encode_text username = Inr name" and "encode_text password = Inr secret" and "255 < length name"
    and "ahead as = [VERSION, AUTH_USERNAME_PASSWORD] @ rest"
  shows "exit_code (converse env username password host as) = Inl (ValueError (ByteOutOfRange (int (length name))))"
proof -
  let ?c = "\<lparr>arrivals = as, said = []\<rparr>" and ?e = "Raised (ValueError (ByteOutOfRange (int (length name))))"
  have some: "username \<noteq> []"
    using assms(1,3) by (auto simp: encode_text_def)
  have v: "view ?c = (ahead as, stalls as, [])" by (simp add: view_def)
  obtain c' where g: "greet (username \<noteq> []) ?c = (Inr AUTH_USERNAME_PASSWORD, c')"
    using reads_complete [OF greet_reads v, of AUTH_USERNAME_PASSWORD rest] assms(4)
    by (auto simp: socks_constants)
  have "credentials_message username password = Inl (ValueError (ByteOutOfRange (int (length name))))"
    using assms(1-3) by (simp add: credentials_message_def one_byte_def)
  then have "log_in username password AUTH_USERNAME_PASSWORD c' = (Inl ?e, c')"
    using some by (simp add: log_in_def authenticate_def bindP_def failP_def)
  then have "negotiate username password ?c = (Inl ?e, c')"
    using g by (simp add: negotiate_def bindP_def)
  then show ?thesis by (simp add: converse_def exit_code_def is_os_error_def)
qed

text \<open>A world in which every datagram is lost.\<close>

definition silent_world :: surroundings where
  "silent_world = \<lparr>env_connect = (\<lambda>h p. Inr []), env_resolve = (\<lambda>h. Inr [1, 1, 1, 1]), env_relay = (\<lambda>r k d. Unanswered),
     env_ids = (\<lambda>k. (replicate 8 1, replicate 8 2))\<rparr>"

theorem long_credentials_crash_witness:
  "exit_code (converse silent_world (replicate 256 97) [] ''h'' [Segment [5], Segment [2]]) =
     Inl (ValueError (ByteOutOfRange (int (length (replicate 256 (97 :: 8 word))))))"
proof (rule long_credentials_crash)
  have "utf8 (replicate 256 97) = Some (map byte (replicate 256 97))"
    by (rule utf8_ascii) (simp add: list_all_iff)
  then show "encode_text (replicate 256 97) = Inr (replicate 256 97)"
    by (simp add: encode_text_def byte_def map_replicate)
qed (simp_all add: encode_text_def socks_constants)

theorem verdict_ignores_segments_witness:
  "converse silent_world [] [] ''h'' [Segment [5, 0, 5], Stall] =
   converse silent_world [] [] ''h'' [Segment [5], Segment [], Segment [0, 5], Stall]"
  by (rule verdict_ignores_segments) simp_all

end
