(* ===== verification/ProbeOutput.thy ===== *)
theory ProbeOutput
  imports Socks5
begin

text \<open>
  What the SOCKS5 probe prints (\<open>probe\<close> of \<open>scripts/probe_socks5_udp.py\<close>). A printed line is the datatype
  \<open>line\<close>, and \<open>line_text\<close> its wording. \<open>probe_run\<close> is the whole command with its output, lines
  printed before a failure included; without the output it is \<open>probe\<close> of the theory Socks5.

  The wording of operating system errors, \<open>repr\<close>, the text of an IPv6 address and of a number of
  seconds are arguments.
\<close>

section \<open>Lines\<close>

datatype line =
    NotSocks string | NeedsHostAndPort string
  | ProxyLine string nat | CredentialsLine ustr | Blank
  | GreetingLine "8 word" | AuthenticatedLine | RelayLine relay_host nat | AnswerLine nat string
  | FailedLine probe_reason | UnreachableLine exn
  | CannotCarry | CouldCarry1 | CouldCarry2

record wording =
  wd_os_error :: "exn \<Rightarrow> ustr"
  wd_repr :: "string \<Rightarrow> ustr"
  wd_ntop6 :: "bytes \<Rightarrow> string"
  wd_seconds :: ustr

definition dash :: ustr where
  "dash = [8212]"

definition nat_text :: "nat \<Rightarrow> ustr" where
  "nat_text n = cps (show_nat n)"

definition AUTH_NAMES :: "(8 word \<times> string) list" where
  "AUTH_NAMES = [(AUTH_NONE, ''none''), (AUTH_USERNAME_PASSWORD, ''username/password (RFC 1929)''),
     (AUTH_UNACCEPTABLE, ''no acceptable method'')]"

definition REPLY_NAMES :: "(nat \<times> string) list" where
  "REPLY_NAMES = [(0, ''succeeded''), (1, ''general failure''), (2, ''connection not allowed by ruleset''),
     (3, ''network unreachable''), (4, ''host unreachable''), (5, ''connection refused''), (6, ''TTL expired''),
     (7, ''command not supported''), (8, ''address type not supported'')]"

text \<open>\<open>d.get(k, k)\<close> in an f-string.\<close>

definition method_name :: "8 word \<Rightarrow> ustr" where
  "method_name m = (case map_of AUTH_NAMES m of None \<Rightarrow> nat_text (unat m) | Some name \<Rightarrow> cps name)"

definition reply_name :: "nat \<Rightarrow> ustr" where
  "reply_name n = (case map_of REPLY_NAMES n of None \<Rightarrow> nat_text n | Some name \<Rightarrow> cps name)"

definition dotted :: "bytes \<Rightarrow> string" where
  "dotted b = join ''.'' (map (\<lambda>w. show_nat (unat w)) b)"

definition host_text :: "wording \<Rightarrow> relay_host \<Rightarrow> ustr" where
  "host_text wd h =
     (case h of Host4 b \<Rightarrow> cps (dotted b) | Host6 b \<Rightarrow> cps (wd_ntop6 wd b) | HostName name \<Rightarrow> name)"

text \<open>\<open>{n:08x}\<close>, for a number of four bytes.\<close>

fun hex_digits :: "nat \<Rightarrow> nat \<Rightarrow> string" where
  "hex_digits 0 n = []"
| "hex_digits (Suc k) n = hex_digits k (n div 16) @ [lower_char (hex_char (n mod 16))]"

text \<open>\<open>str(failure)\<close> of a \<open>ProbeFailed\<close>; \<open>address\<close> is where the target's name led.\<close>

definition failure_text :: "wording \<Rightarrow> ustr \<Rightarrow> probe_reason \<Rightarrow> ustr" where
  "failure_text wd address r =
     (case r of
        ConnectionClosed got wanted \<Rightarrow>
          cps ''the proxy closed the connection after '' @ nat_text got @ cps '' of '' @ nat_text wanted @
          cps '' expected bytes''
      | ExpectedVersion v \<Rightarrow> cps ''expected SOCKS5, the proxy answered version '' @ nat_text v
      | AnsweredVersion v \<Rightarrow> cps ''the proxy answered version '' @ nat_text v @ cps '', not SOCKS5''
      | NoMethodAccepted offered \<Rightarrow>
          cps ''the proxy accepted none of the methods offered'' @
          (if offered then [] else cps '' '' @ dash @ cps '' try passing credentials'')
      | CredentialsRejected st \<Rightarrow> cps ''the proxy rejected the credentials (status '' @ nat_text st @ cps '')''
      | NoCredentials \<Rightarrow> cps ''the proxy demands credentials and none were given''
      | AssociateRefused reply \<Rightarrow>
          cps ''the proxy refused UDP ASSOCIATE: '' @ reply_name reply @
          (if reply = 7
           then cps '' '' @ dash @ cps '' this proxy does not relay UDP, so it cannot carry HTTP/3'' else [])
      | BadAddressType t \<Rightarrow> cps ''the proxy named an address type this cannot read: '' @ nat_text t
      | TooFewBytes n \<Rightarrow> cps ''the relay returned '' @ nat_text n @ cps '' bytes, too few to be wrapped''
      | BadRelayAddressType t \<Rightarrow> cps ''the relay used an unreadable address type: '' @ nat_text t
      | NeverAnswered target \<Rightarrow>
          cps ''the relay accepted the datagram but no QUIC answer came back from '' @ cps target @ cps '' ('' @
          address @ cps '') in '' @ nat_text ATTEMPTS @ cps '' attempts over '' @ wd_seconds wd @ cps ''s '' @
          dash @ cps '' the association was granted and then not honoured''
      | TooShortForQuic n \<Rightarrow> cps ''the relayed answer was '' @ nat_text n @ cps '' bytes, too short to be QUIC''
      | NotALongHeader \<Rightarrow> cps ''the relayed answer was not a QUIC long header''
      | QuicVersion v \<Rightarrow>
          cps ''expected a Version Negotiation packet, got QUIC version 0x'' @ cps (hex_digits 8 v))"

definition line_text :: "wording \<Rightarrow> ustr \<Rightarrow> line \<Rightarrow> ustr" where
  "line_text wd address l =
     (case l of
        NotSocks url \<Rightarrow> cps ''  '' @ wd_repr wd url @ cps '' is not a socks5:// URL''
      | NeedsHostAndPort url \<Rightarrow> cps ''  '' @ wd_repr wd url @ cps '' needs a host and a port''
      | ProxyLine host port \<Rightarrow> cps ''proxy    : '' @ cps host @ cps '':'' @ nat_text port
      | CredentialsLine username \<Rightarrow>
          cps ''credentials: '' @ (if username \<noteq> [] then cps ''yes, as '' @ username else cps ''none'')
      | Blank \<Rightarrow> []
      | GreetingLine chosen \<Rightarrow> cps ''  [1/3] greeting  : accepted, method = '' @ method_name chosen
      | AuthenticatedLine \<Rightarrow> cps ''        authentication: accepted''
      | RelayLine host port \<Rightarrow>
          cps ''  [2/3] UDP ASSOCIATE: accepted, relay at '' @ host_text wd host @ cps '':'' @ nat_text port
      | AnswerLine n target \<Rightarrow>
          cps ''  [3/3] a QUIC Version Negotiation answer came back from '' @ cps target @ cps '', '' @
          nat_text n @ cps '' bytes '' @ dash @ cps '' datagrams travel both ways''
      | FailedLine r \<Rightarrow> cps ''  FAILED: '' @ failure_text wd address r
      | UnreachableLine e \<Rightarrow> cps ''  FAILED: could not reach the proxy: '' @ wd_os_error wd e
      | CannotCarry \<Rightarrow> cps ''This proxy cannot carry HTTP/3.''
      | CouldCarry1 \<Rightarrow> cps ''This proxy relays UDP, so it could carry HTTP/3 once Chromium is''
      | CouldCarry2 \<Rightarrow> cps ''taught to ask '' @ dash @ cps '' see patches/README.md.'')"

section \<open>The command with its output\<close>

text \<open>A conversation that prints: the lines, and the outcome with the peer that is left.\<close>

type_synonym 'a spoken = "peer \<Rightarrow> line list \<times> (probe_exn + 'a) \<times> peer"

definition silently :: "'a talk \<Rightarrow> 'a spoken" where
  "silently m c = ([], m c)"

definition print_line :: "line \<Rightarrow> unit spoken" where
  "print_line l c = ([l], (Inr (), c))"

definition bindS :: "'a spoken \<Rightarrow> ('a \<Rightarrow> 'b spoken) \<Rightarrow> 'b spoken" where
  "bindS m f c =
     (case m c of
        (ls, (Inl e, c)) \<Rightarrow> (ls, (Inl e, c))
      | (ls, (Inr x, c)) \<Rightarrow> (case f x c of (ms, r) \<Rightarrow> (ls @ ms, r)))"

definition log_in_aloud :: "ustr \<Rightarrow> ustr \<Rightarrow> 8 word \<Rightarrow> unit spoken" where
  "log_in_aloud username password chosen =
     (if chosen \<noteq> AUTH_USERNAME_PASSWORD then silently (returnP ())
      else if username = [] then silently (failP (ProbeFailed NoCredentials))
      else bindS (silently (authenticate username password)) (\<lambda>_. print_line AuthenticatedLine))"

definition negotiate_aloud :: "ustr \<Rightarrow> ustr \<Rightarrow> (relay_host \<times> nat) spoken" where
  "negotiate_aloud username password =
     bindS (silently (greet (username \<noteq> []))) (\<lambda>chosen.
     bindS (print_line (GreetingLine chosen)) (\<lambda>_.
     bindS (log_in_aloud username password chosen) (\<lambda>_.
     bindS (silently request_udp_associate) (\<lambda>(host, port).
     bindS (print_line (RelayLine host port)) (\<lambda>_.
     silently (returnP (host, port)))))))"

text \<open>The body of the \<open>with\<close> block on a connection that was made.\<close>

definition converse_aloud ::
  "surroundings \<Rightarrow> ustr \<Rightarrow> ustr \<Rightarrow> string \<Rightarrow> arrival list \<Rightarrow> line list \<times> (probe_exn + unit)" where
  "converse_aloud env username password target arriving =
     (case negotiate_aloud username password \<lparr>arrivals = arriving, said = []\<rparr> of
        (ls, (Inl e, _)) \<Rightarrow> (ls, Inl e)
      | (ls, (Inr relay, _)) \<Rightarrow>
          (case fst (relay_a_datagram (env_resolve env) (env_relay env relay) (env_ids env) target) of
             Inl e \<Rightarrow> (ls, Inl e)
           | Inr n \<Rightarrow> (ls @ [AnswerLine n target], Inr ())))"

text \<open>The handlers of \<open>probe\<close> and what follows them.\<close>

definition verdict :: "line list \<times> (probe_exn + unit) \<Rightarrow> line list \<times> (exn + int)" where
  "verdict lr =
     (case lr of
        (ls, Inr _) \<Rightarrow> (ls @ [Blank, CouldCarry1, CouldCarry2], Inr 0)
      | (ls, Inl (ProbeFailed r)) \<Rightarrow> (ls @ [FailedLine r, Blank, CannotCarry], Inr 1)
      | (ls, Inl (Raised e)) \<Rightarrow>
          if is_os_error e then (ls @ [UnreachableLine e], Inr 1) else (ls, Inl e))"

text \<open>Standard output, standard error and the exit code.\<close>

definition probe_run :: "surroundings \<Rightarrow> string \<Rightarrow> string \<Rightarrow> line list \<times> line list \<times> (exn + int)" where
  "probe_run env url target =
     (case urlsplit url of
        Inl e \<Rightarrow> ([], [], Inl e)
      | Inr parts \<Rightarrow>
          if up_scheme parts \<notin> {''socks5'', ''socks5h''} then ([], [NotSocks url], Inr 2)
          else
            (case hostname parts of
               None \<Rightarrow> ([], [NeedsHostAndPort url], Inr 2)
             | Some host \<Rightarrow>
                 (case url_port parts of
                    Inl e \<Rightarrow> ([], [], Inl e)
                  | Inr None \<Rightarrow> ([], [NeedsHostAndPort url], Inr 2)
                  | Inr (Some p) \<Rightarrow>
                      if p = 0 then ([], [NeedsHostAndPort url], Inr 2)
                      else
                        let username = unquote (case url_username parts of None \<Rightarrow> [] | Some u \<Rightarrow> u);
                            password = unquote (case url_password parts of None \<Rightarrow> [] | Some w \<Rightarrow> w);
                            outcome = (case env_connect env host p of
                                Inl e \<Rightarrow> ([], Inl (Raised e))
                              | Inr arriving \<Rightarrow> converse_aloud env username password target arriving) in
                        (case verdict outcome of (ls, code) \<Rightarrow>
                           ([ProxyLine host p, CredentialsLine username, Blank] @ ls, [], code)))))"

section \<open>Without its output it is the probe\<close>

definition unsaid :: "'a spoken \<Rightarrow> 'a talk" where
  "unsaid m c = snd (m c)"

lemma unsaid_simps [simp]:
  "unsaid (silently m) = m" "unsaid (print_line l) = returnP ()"
  "unsaid (bindS p f) = bindP (unsaid p) (\<lambda>x. unsaid (f x))"
  by (auto simp: fun_eq_iff unsaid_def silently_def print_line_def returnP_def bindS_def bindP_def
      split: prod.splits sum.splits)

lemma returnP_bind [simp]: "bindP (returnP x) f = f x"
  by (simp add: fun_eq_iff bindP_def returnP_def)

lemma log_in_lines:
  "bindP (unsaid (log_in_aloud username password chosen)) (\<lambda>_. k) =
     bindP (log_in username password chosen) (\<lambda>_. k)"
  by (auto simp: log_in_aloud_def log_in_def fun_eq_iff bindP_def returnP_def failP_def split: prod.splits sum.splits)

lemma negotiate_unsaid:
  "unsaid (negotiate_aloud username password) =
     bindP (negotiate username password) (\<lambda>(ls, host, port). returnP (host, port))"
  by (simp add: negotiate_aloud_def log_in_lines)
    (auto simp: negotiate_def fun_eq_iff bindP_def returnP_def split: prod.splits sum.splits)

lemma converse_unsaid:
  "snd (converse_aloud env username password target arriving) =
     map_sum id (\<lambda>_. ()) (converse env username password target arriving)"
proof -
  let ?c = "\<lparr>arrivals = arriving, said = []\<rparr>"
  have n: "snd (negotiate_aloud username password ?c) =
      bindP (negotiate username password) (\<lambda>(ls, host, port). returnP (host, port)) ?c"
    using negotiate_unsaid [of username password] by (simp add: fun_eq_iff unsaid_def)
  obtain r c' where nr: "negotiate username password ?c = (r, c')" by (cases "negotiate username password ?c")
  obtain ls o' where na: "negotiate_aloud username password ?c = (ls, o')"
    by (cases "negotiate_aloud username password ?c")
  show ?thesis
  proof (cases r)
    case (Inl e)
    then have "o' = (Inl e, c')" using n nr na by (simp add: bindP_def)
    then show ?thesis by (simp add: converse_aloud_def converse_def na nr Inl)
  next
    case (Inr x)
    obtain lines host port where x: "x = (lines, host, port)" by (metis prod_cases3)
    then have "o' = (Inr (host, port), c')" using n nr na Inr by (simp add: bindP_def returnP_def)
    then show ?thesis
      by (cases "fst (relay_a_datagram (env_resolve env) (env_relay env (host, port)) (env_ids env) target)")
        (simp_all add: converse_aloud_def converse_def na nr Inr x)
  qed
qed

lemma verdict_code: "snd (verdict lr) = exit_code (snd lr)"
  by (cases lr) (auto simp: verdict_def exit_code_def split: sum.splits probe_exn.splits)

lemma exit_code_map: "exit_code (map_sum id f r) = exit_code r"
  by (simp add: exit_code_def split: sum.splits)

lemma probe_run_code: "snd (snd (probe_run env url target)) = probe env url target"
proof (cases "urlsplit url")
  case (Inr parts)
  show ?thesis
    by (auto simp: probe_run_def probe_def Inr Let_def bindE_def verdict_code converse_unsaid exit_code_map
        split: prod.splits option.splits sum.splits)
       (metis exit_code_map converse_unsaid verdict_code snd_conv)+
qed (simp add: probe_run_def probe_def)

section \<open>The output tells the verdict\<close>

definition only_prints :: "(line \<Rightarrow> bool) \<Rightarrow> 'a spoken \<Rightarrow> bool" where
  "only_prints P m \<longleftrightarrow> (\<forall>c. list_all P (fst (m c)))"

lemma only_prints_intros:
  "only_prints P (silently m)" "P l \<Longrightarrow> only_prints P (print_line l)"
  "only_prints P p \<Longrightarrow> (\<And>x. only_prints P (f x)) \<Longrightarrow> only_prints P (bindS p f)"
  by (auto simp: only_prints_def silently_def print_line_def bindS_def split: prod.splits sum.splits)
    (metis fst_conv list_all_append)+

fun is_progress :: "line \<Rightarrow> bool" where
  "is_progress (GreetingLine c) = True"
| "is_progress AuthenticatedLine = True"
| "is_progress (RelayLine h p) = True"
| "is_progress _ = False"

fun is_failure :: "line \<Rightarrow> bool" where
  "is_failure (FailedLine r) = True"
| "is_failure (UnreachableLine e) = True"
| "is_failure _ = False"

lemma negotiate_prints: "only_prints is_progress (negotiate_aloud username password)"
  by (auto simp: negotiate_aloud_def log_in_aloud_def intro!: only_prints_intros split: prod.split)

lemma converse_prints:
  obtains ls n where "list_all is_progress ls"
    and "fst (converse_aloud env username password target arriving) =
      ls @ (if isl (snd (converse_aloud env username password target arriving)) then [] else [AnswerLine n target])"
proof -
  obtain ls o' where na: "negotiate_aloud username password \<lparr>arrivals = arriving, said = []\<rparr> = (ls, o')"
    by (cases "negotiate_aloud username password \<lparr>arrivals = arriving, said = []\<rparr>")
  have "list_all is_progress ls"
    using negotiate_prints [of username password] na unfolding only_prints_def by (metis fst_conv)
  moreover have "\<exists>n. fst (converse_aloud env username password target arriving) =
      ls @ (if isl (snd (converse_aloud env username password target arriving)) then [] else [AnswerLine n target])"
    by (auto simp: converse_aloud_def na split: sum.split prod.split)
  ultimately show thesis using that by blast
qed

lemma progress_is_no_verdict:
  assumes "list_all is_progress ls"
  shows "CouldCarry1 \<notin> set ls" and "AnswerLine n t \<notin> set ls" and "\<not> list_ex is_failure ls"
proof -
  have "l \<in> set ls \<Longrightarrow> is_progress l" for l using assms by (simp add: list_all_iff)
  moreover have "is_progress l \<Longrightarrow> \<not> is_failure l" for l by (cases l) simp_all
  ultimately show "CouldCarry1 \<notin> set ls" "AnswerLine n t \<notin> set ls" "\<not> list_ex is_failure ls"
    by (force simp: list_ex_iff)+
qed

lemma verdict_lines:
  assumes "list_all is_progress ls"
    and "fst lr = ls @ (if isl (snd lr) then [] else [AnswerLine n target])" and "verdict lr = (out, code)"
  shows "(code = Inr 0 \<longleftrightarrow> CouldCarry1 \<in> set out) \<and> (code = Inr 0 \<longleftrightarrow> (\<exists>k. AnswerLine k target \<in> set out)) \<and>
    (code = Inr 1 \<longleftrightarrow> list_ex is_failure out) \<and> code \<noteq> Inr 2"
  using assms(2,3) progress_is_no_verdict [OF assms(1)]
  by (cases lr; cases "snd lr") (auto simp: verdict_def split: probe_exn.splits if_splits)

text \<open>C18. The output is the verdict. Whatever the proxy and the relay do, what is printed agrees with the exit
  code, which is that of the probe without its output: the last lines say that the proxy could
  carry HTTP/3, and a line reports the answer that came through the relay, exactly when it is 0; a
  line says that something failed exactly when it is 1; and a wrong URL is reported, on standard
  error and nowhere else, exactly when it is 2.\<close>

theorem output_tells_the_verdict:
  "case probe_run env url target of
     (out, err, code) \<Rightarrow>
       code = probe env url target \<and>
       (code = Inr 0 \<longleftrightarrow> CouldCarry1 \<in> set out) \<and> (code = Inr 0 \<longleftrightarrow> (\<exists>n. AnswerLine n target \<in> set out)) \<and>
       (code = Inr 1 \<longleftrightarrow> list_ex is_failure out) \<and> (code = Inr 2 \<longleftrightarrow> err \<noteq> []) \<and> (out = [] \<or> err = [])"
proof -
  obtain out err code where run: "probe_run env url target = (out, err, code)" by (metis prod_cases3)
  then have code: "code = probe env url target" using probe_run_code [of env url target] by simp
  have step: "(c = Inr 0 \<longleftrightarrow> CouldCarry1 \<in> set ls) \<and> (c = Inr 0 \<longleftrightarrow> (\<exists>n. AnswerLine n target \<in> set ls)) \<and>
      (c = Inr 1 \<longleftrightarrow> list_ex is_failure ls) \<and> c \<noteq> Inr 2"
    if v: "verdict (case connected of Inl e \<Rightarrow> ([], Inl (Raised e))
        | Inr arriving \<Rightarrow> converse_aloud env username password target arriving) = (ls, c)"
    for connected username password ls c
  proof (cases connected)
    case (Inl e)
    with v show ?thesis by (intro verdict_lines [of "[]"]) auto
  next
    case (Inr arriving)
    obtain ks n where "list_all is_progress ks"
      "fst (converse_aloud env username password target arriving) =
        ks @ (if isl (snd (converse_aloud env username password target arriving)) then [] else [AnswerLine n target])"
      by (rule converse_prints)
    moreover have "verdict (converse_aloud env username password target arriving) = (ls, c)" using v Inr by simp
    ultimately show ?thesis by (rule verdict_lines)
  qed
  define told where "told out err code \<longleftrightarrow>
      (code = Inr 0 \<longleftrightarrow> CouldCarry1 \<in> set out) \<and> (code = Inr 0 \<longleftrightarrow> (\<exists>n. AnswerLine n target \<in> set out)) \<and>
      (code = Inr 1 \<longleftrightarrow> list_ex is_failure out) \<and> (code = Inr 2 \<longleftrightarrow> err \<noteq> []) \<and> (out = [] \<or> err = [])"
    for out err :: "line list" and code :: "exn + int"
  have refused: "told [] err (Inr 2)" if "err \<noteq> []" for err using that by (simp add: told_def)
  have raised: "told [] [] (Inl e)" for e by (simp add: told_def)
  have verdict: "told out err code"
  proof (cases "urlsplit url")
    case (Inl e)
    then show ?thesis using run raised [of e] by (auto simp: probe_run_def)
  next
    case (Inr parts)
    consider "up_scheme parts \<notin> {''socks5'', ''socks5h''} \<or> hostname parts = None"
      | e where "url_port parts = Inl e" | "url_port parts = Inr None" | "url_port parts = Inr (Some 0)"
      | host p where "up_scheme parts \<in> {''socks5'', ''socks5h''}" "hostname parts = Some host"
        "url_port parts = Inr (Some p)" "p \<noteq> 0"
      by (metis not_None_eq obj_sumE)
    then show ?thesis
    proof cases
      case 5
      define username password where "username = unquote (case url_username parts of None \<Rightarrow> [] | Some u \<Rightarrow> u)"
        and "password = unquote (case url_password parts of None \<Rightarrow> [] | Some w \<Rightarrow> w)"
      obtain ls c where
        v: "verdict (case env_connect env host p of Inl e \<Rightarrow> ([], Inl (Raised e))
          | Inr arriving \<Rightarrow> converse_aloud env username password target arriving) = (ls, c)"
        by (metis surj_pair)
      then have "probe_run env url target = ([ProxyLine host p, CredentialsLine username, Blank] @ ls, [], c)"
        using 5 unfolding username_def password_def by (simp add: probe_run_def Inr Let_def)
      then have o: "out = [ProxyLine host p, CredentialsLine username, Blank] @ ls" "err = []" "c = code"
        using run by simp_all
      from step [OF v] show ?thesis by (auto simp: told_def o)
    qed (use run Inr refused raised in \<open>auto simp: probe_run_def split: option.splits if_splits\<close>)
  qed
  show ?thesis unfolding run prod.case by (rule conjI [OF code verdict [unfolded told_def]])
qed

text \<open>The answer is taken for what it looks like: the connection ids of the packet that was sent, which a
  Version Negotiation packet has to echo, are not compared with it.\<close>

lemma answer_ids_unchecked:
  "and b 0x80 \<noteq> 0 \<Longrightarrow> check_answer ([b, 0, 0, 0, 0] @ rest) = Inr (length rest + 5)"
  by (simp add: check_answer_def big_endian_def eval_nat_numeral)

end
