(* ===== verification/Regex.thy ===== *)
theory Regex
  imports Url
begin

text \<open>
  As much of Python's \<open>re\<close> as the binding generator uses: sequences of literals, repeated character
  classes, optional characters, groups with back references, word and line boundaries, matched
  with backtracking in the order Python tries; \<open>findall\<close>, \<open>sub\<close> and \<open>fullmatch\<close>. Also \<open>str.split\<close>
  and \<open>str.strip\<close>. Text is a \<open>string\<close>, code points below 256.
\<close>

section \<open>Characters\<close>

definition re_space :: "char \<Rightarrow> bool" where
  "re_space c \<longleftrightarrow> (let n = (of_char c :: nat) in 9 \<le> n \<and> n \<le> 13 \<or> 28 \<le> n \<and> n \<le> 32 \<or> n = 133 \<or> n = 160)"

definition re_word :: "char \<Rightarrow> bool" where
  "re_word c \<longleftrightarrow> is_alnum c \<or> c = CHR ''_'' \<or>
     (let n = (of_char c :: nat) in n \<in> {170, 178, 179, 181, 185, 186, 188, 189, 190} \<or>
        192 \<le> n \<and> n \<noteq> 215 \<and> n \<noteq> 247)"

definition newline :: char where
  "newline = char_of (10 :: nat)"

definition any_char :: "char \<Rightarrow> bool" where
  "any_char c = True"

definition same_line :: "char \<Rightarrow> bool" where
  "same_line c \<longleftrightarrow> c \<noteq> newline"

section \<open>Matching\<close>

text \<open>
  \<open>Rep n P\<close> is greedy and \<open>LazyRep n P\<close> is not; \<open>Mark k\<close> and \<open>Unmark k\<close> stand for the parentheses
  of group \<open>k\<close>. A position is the character before it and the text after it; what is captured is
  the text from the mark on, cut when the group is closed.
\<close>

datatype atom =
    Lit string
  | Rep nat "char \<Rightarrow> bool"
  | LazyRep nat "char \<Rightarrow> bool"
  | Opt char
  | Mark nat
  | Unmark nat
  | Back nat
  | WordBoundary
  | LineStart
  | LineEnd
  | TextEnd

type_synonym captures = "(nat \<times> string) list"

type_synonym place = "char option \<times> string"

definition advance :: "nat \<Rightarrow> place \<Rightarrow> place" where
  "advance n pl = (case pl of (p, s) \<Rightarrow> (if n = 0 then p else Some (s ! (n - 1)), drop n s))"

fun first_some :: "('a \<Rightarrow> 'b option) \<Rightarrow> 'a list \<Rightarrow> 'b option" where
  "first_some f [] = None"
| "first_some f (x # xs) = (case f x of None \<Rightarrow> first_some f xs | Some y \<Rightarrow> Some y)"

definition is_word_at :: "char option \<Rightarrow> bool" where
  "is_word_at p = (case p of None \<Rightarrow> False | Some c \<Rightarrow> re_word c)"

definition head_of :: "string \<Rightarrow> char option" where
  "head_of s = (case s of [] \<Rightarrow> None | c # _ \<Rightarrow> Some c)"

definition captured :: "captures \<Rightarrow> nat \<Rightarrow> string" where
  "captured caps k = (case map_of caps k of None \<Rightarrow> [] | Some s \<Rightarrow> s)"

primrec match_here :: "atom list \<Rightarrow> place \<Rightarrow> captures \<Rightarrow> (place \<times> captures) option" where
  "match_here [] pl caps = Some (pl, caps)"
| "match_here (a # as) pl caps =
     (case a of
        Lit w \<Rightarrow> if starts_with w (snd pl) then match_here as (advance (length w) pl) caps else None
      | Rep n P \<Rightarrow>
          let k = length (takeWhile P (snd pl)) in
          if k < n then None else first_some (\<lambda>i. match_here as (advance i pl) caps) (rev [n..<Suc k])
      | LazyRep n P \<Rightarrow>
          let k = length (takeWhile P (snd pl)) in
          if k < n then None else first_some (\<lambda>i. match_here as (advance i pl) caps) [n..<Suc k]
      | Opt c \<Rightarrow>
          (case (if head_of (snd pl) = Some c then match_here as (advance 1 pl) caps else None) of
             None \<Rightarrow> match_here as pl caps
           | Some r \<Rightarrow> Some r)
      | Mark k \<Rightarrow> match_here as pl ((k, snd pl) # caps)
      | Unmark k \<Rightarrow>
          let start = captured caps k in
          match_here as pl ((k, take (length start - length (snd pl)) start) # caps)
      | Back k \<Rightarrow>
          let w = captured caps k in
          if starts_with w (snd pl) then match_here as (advance (length w) pl) caps else None
      | WordBoundary \<Rightarrow>
          if is_word_at (fst pl) \<noteq> is_word_at (head_of (snd pl)) then match_here as pl caps else None
      | LineStart \<Rightarrow> if fst pl = None \<or> fst pl = Some newline then match_here as pl caps else None
      | LineEnd \<Rightarrow> if snd pl = [] \<or> head_of (snd pl) = Some newline then match_here as pl caps else None
      | TextEnd \<Rightarrow> if snd pl = [] then match_here as pl caps else None)"

section \<open>Searching\<close>

text \<open>The next match at or after a position, with the text skipped. Every pattern here matches at least
  one character, and a match that is empty is passed over.\<close>

fun search_from :: "atom list \<Rightarrow> char option \<Rightarrow> string \<Rightarrow> string \<Rightarrow> (string \<times> place \<times> captures) option" where
  "search_from re p skipped s =
     (case match_here re (p, s) [] of
        Some ((p', s'), caps) \<Rightarrow>
          if length s' < length s then Some (rev skipped, (p', s'), caps)
          else (case s of [] \<Rightarrow> None | c # cs \<Rightarrow> search_from re (Some c) (c # skipped) cs)
      | None \<Rightarrow> (case s of [] \<Rightarrow> None | c # cs \<Rightarrow> search_from re (Some c) (c # skipped) cs))"

declare search_from.simps [simp del]

lemma search_from_shorter:
  "search_from re p skipped s = Some (pre, (p', s'), caps) \<Longrightarrow> length s' < length s"
proof (induction s arbitrary: p skipped)
  case Nil
  then show ?case
    by (simp add: search_from.simps [of re p skipped "[]"] split: option.splits prod.splits)
next
  case (Cons c cs)
  then show ?case
    by (fastforce simp: search_from.simps [of re p skipped "c # cs"] split: option.splits prod.splits if_splits)
qed

function findall_from :: "atom list \<Rightarrow> place \<Rightarrow> captures list" where
  "findall_from re pl =
     (case search_from re (fst pl) [] (snd pl) of
        None \<Rightarrow> []
      | Some (_, rest, caps) \<Rightarrow> caps # findall_from re rest)"
  by pat_completeness auto
termination
  by (relation "measure (\<lambda>(re, pl). length (snd pl))") (auto dest: search_from_shorter)

function sub_from :: "atom list \<Rightarrow> string \<Rightarrow> place \<Rightarrow> string" where
  "sub_from re new pl =
     (case search_from re (fst pl) [] (snd pl) of
        None \<Rightarrow> snd pl
      | Some (pre, rest, _) \<Rightarrow> pre @ new @ sub_from re new rest)"
  by pat_completeness auto
termination
  by (relation "measure (\<lambda>(re, new, pl). length (snd pl))") (auto dest: search_from_shorter)

declare findall_from.simps [simp del] sub_from.simps [simp del]

definition findall :: "atom list \<Rightarrow> string \<Rightarrow> captures list" where
  "findall re s = findall_from re (None, s)"

definition re_sub :: "atom list \<Rightarrow> string \<Rightarrow> string \<Rightarrow> string" where
  "re_sub re new s = sub_from re new (None, s)"

definition fullmatch :: "atom list \<Rightarrow> string \<Rightarrow> captures option" where
  "fullmatch re s = map_option snd (match_here (re @ [TextEnd]) (None, s) [])"

section \<open>Strings\<close>

text \<open>\<open>s.split()\<close> and \<open>s.strip()\<close>: at runs of white space, and at both ends.\<close>

fun words_from :: "string \<Rightarrow> string \<Rightarrow> string list" where
  "words_from w [] = (if w = [] then [] else [w])"
| "words_from w (c # s) =
     (if re_space c then (if w = [] then words_from [] s else w # words_from [] s)
      else words_from (w @ [c]) s)"

definition words :: "string \<Rightarrow> string list" where
  "words s = words_from [] s"

definition strip :: "string \<Rightarrow> string" where
  "strip s = rev (dropWhile re_space (rev (dropWhile re_space s)))"

definition strip_chars :: "string \<Rightarrow> string \<Rightarrow> string" where
  "strip_chars cs s = rev (dropWhile (\<lambda>c. c \<in> set cs) (rev (dropWhile (\<lambda>c. c \<in> set cs) s)))"

definition removeprefix :: "string \<Rightarrow> string \<Rightarrow> string" where
  "removeprefix p s = (if starts_with p s then drop (length p) s else s)"

end
