(* ===== verification/Generator.thy ===== *)
theory Generator
  imports Regex
begin

text \<open>
  The binding generator (\<open>scripts/generate_binding.py\<close>): reading the ABI out of the text of
  \<open>native/cronet.h\<close> and rendering it as the source of \<open>src/cronet/_abi.py\<close>. What \<open>parse\<close> finds is the
  record \<open>abi\<close>. Formatting the result and reading and writing the files are in the theory BuildTools.
  Identifiers of the header are ASCII, as C's are.
\<close>

section \<open>Types\<close>

definition PRIMITIVES :: "(string \<times> string) list" where
  "PRIMITIVES =
     [(''void'', ''None''), (''int'', ''ctypes.c_int''), (''int32_t'', ''ctypes.c_int32''),
      (''int64_t'', ''ctypes.c_int64''), (''size_t'', ''ctypes.c_size_t''), (''char *'', ''ctypes.c_char_p''),
      (''uint8_t *'', ''ctypes.POINTER(ctypes.c_ubyte)'')]"

definition SKIPPED_DEFINES :: "string list" where
  "SKIPPED_DEFINES = [''CRONET_H_'', ''CRONET_EXPORT'']"

datatype header_error = NoName string | NoMapping string | Unreadable string | NoFunctions

definition spaced_stars :: "string \<Rightarrow> string" where
  "spaced_stars s = concat (map (\<lambda>c. if c = CHR ''*'' then '' * '' else [c]) s)"

definition normalize_type :: "string \<Rightarrow> string" where
  "normalize_type spelling =
     (let kept = filter (\<lambda>w. w \<noteq> ''const'') (words (spaced_stars spelling)) in
      strip (re_sub [Rep 1 re_space] '' '' (join '' '' kept)))"

definition split_declarator :: "string \<Rightarrow> header_error + (string \<times> string)" where
  "split_declarator declaration =
     (let ws = words (normalize_type declaration) in
      if length ws < 2 then Inl (NoName declaration) else Inr (join '' '' (butlast ws), last ws))"

text \<open>\<open>str.title\<close> on ASCII text: a letter is a capital exactly when no letter stands before it.\<close>

fun title_from :: "bool \<Rightarrow> string \<Rightarrow> string" where
  "title_from cased [] = []"
| "title_from cased (c # s) = (if cased then [lower_char c] else upper_char c) @ title_from (is_alpha c) s"

definition pascal_case :: "string \<Rightarrow> string" where
  "pascal_case c_name = concat (map (title_from False) (split_on (CHR ''_'') c_name))"

section \<open>What the header declares\<close>

record abi =
  abi_constants :: "(string \<times> int) list"
  abi_enum_members :: "(string \<times> int) list"
  abi_opaque :: "string list"
  abi_structs :: "(string \<times> (string \<times> string) list) list"
  abi_functions :: "(string \<times> string \<times> string list) list"

definition struct_names :: "abi \<Rightarrow> string list" where
  "struct_names abi = map fst (abi_structs abi)"

definition ends_with :: "string \<Rightarrow> string \<Rightarrow> bool" where
  "ends_with w s \<longleftrightarrow> starts_with (rev w) (rev s)"

definition removesuffix :: "string \<Rightarrow> string \<Rightarrow> string" where
  "removesuffix w s = (if ends_with w s then take (length s - length w) s else s)"

definition ctypes_for :: "abi \<Rightarrow> string \<Rightarrow> header_error + string" where
  "ctypes_for abi c_type =
     (case map_of PRIMITIVES c_type of
        Some spelled \<Rightarrow> Inr spelled
      | None \<Rightarrow>
          let pointee = strip (removesuffix '' *'' c_type) in
          if ends_with ''*'' c_type then
            (if pointee \<in> set (abi_opaque abi) then Inr ''ctypes.c_void_p''
             else if pointee \<in> set (struct_names abi) then Inr (''ctypes.POINTER('' @ pascal_case pointee @ '')'')
             else Inl (NoMapping c_type))
          else if c_type \<in> set (struct_names abi) then Inr (pascal_case c_type)
          else Inl (NoMapping c_type))"

section \<open>Parsing\<close>

definition strip_comments :: "string \<Rightarrow> string" where
  "strip_comments src =
     re_sub [Lit ''//'', Rep 0 same_line] []
       (re_sub [Lit ''/*'', LazyRep 0 any_char, Lit ''*/''] '' '' src)"

text \<open>\<open>int(s)\<close> for a decimal number with an optional sign.\<close>

definition read_int :: "string \<Rightarrow> int" where
  "read_int s = (if starts_with ''-'' s then - int (read_nat (drop 1 s)) else int (read_nat s))"

definition define_re :: "atom list" where
  "define_re = [Lit ''#define'', Rep 1 re_space, Mark 1, Lit ''CRONET_'', Rep 1 re_word, Unmark 1, Rep 1 re_space,
     Mark 2, Opt (CHR ''(''), Opt (CHR ''-''), Rep 1 is_digit, Opt (CHR '')''), Unmark 2]"

definition directive_re :: "atom list" where
  "directive_re = [LineStart, Rep 0 (\<lambda>c. c = CHR '' '' \<or> c = char_of (9 :: nat)), Lit ''#'', Rep 0 same_line, LineEnd]"

definition opaque_re :: "atom list" where
  "opaque_re = [Lit ''typedef'', Rep 1 re_space, Lit ''struct'', Rep 1 re_space, Mark 1, Lit ''cronet_'',
     Rep 1 re_word, Unmark 1, Rep 1 re_space, Back 1, Rep 0 re_space, Lit '';'']"

definition body_re :: "string \<Rightarrow> atom list" where
  "body_re keyword = [Lit ''typedef'', Rep 1 re_space, Lit keyword, Rep 0 re_space, Lit ''{'', Mark 1,
     LazyRep 0 any_char, Unmark 1, Lit ''}'', Rep 0 re_space, Mark 2, Lit ''cronet_'', Rep 1 re_word, Unmark 2,
     Rep 0 re_space, Lit '';'']"

definition member_re :: "atom list" where
  "member_re = [Mark 1, Lit ''CRONET_'', Rep 1 re_word, Unmark 1, Rep 0 re_space, Lit ''='', Rep 0 re_space,
     Mark 2, Opt (CHR ''-''), Rep 1 is_digit, Unmark 2]"

definition exported_re :: "atom list" where
  "exported_re = [Lit ''CRONET_EXPORT'', Rep 1 re_space, Mark 1, LazyRep 0 any_char, Unmark 1, Rep 0 re_space, Lit '';'']"

definition function_re :: "atom list" where
  "function_re = [Mark 1, LazyRep 1 any_char, Unmark 1, Rep 0 re_space, WordBoundary, Mark 2, Lit ''cronet_'',
     Rep 1 re_word, Unmark 2, Rep 0 re_space, Lit ''('', Mark 3, Rep 0 any_char, Unmark 3, Lit '')'']"

definition constants_in :: "string \<Rightarrow> (string \<times> int) list" where
  "constants_in directives =
     map (\<lambda>g. (removeprefix ''CRONET_'' (captured g 1), read_int (strip_chars ''()'' (captured g 2))))
       (filter (\<lambda>g. captured g 1 \<notin> set SKIPPED_DEFINES) (findall define_re directives))"

definition opaque_in :: "string \<Rightarrow> string list" where
  "opaque_in txt = map (\<lambda>g. captured g 1) (findall opaque_re txt)"

definition enum_members_in :: "string \<Rightarrow> (string \<times> int) list" where
  "enum_members_in txt =
     concat (map (\<lambda>g. map (\<lambda>m. (removeprefix ''CRONET_'' (captured m 1), read_int (captured m 2)))
       (findall member_re (captured g 1))) (findall (body_re ''enum'') txt))"

definition parse_fields :: "string \<Rightarrow> header_error + (string \<times> string) list" where
  "parse_fields body =
     mapE (\<lambda>field. bindE (split_declarator field) (\<lambda>(t, n). Inr (n, t)))
       (filter (\<lambda>field. field \<noteq> []) (map strip (split_on (CHR '';'') body)))"

definition structs_in :: "string \<Rightarrow> header_error + (string \<times> (string \<times> string) list) list" where
  "structs_in txt =
     mapE (\<lambda>g. bindE (parse_fields (captured g 1)) (\<lambda>fs. Inr (captured g 2, fs))) (findall (body_re ''struct'') txt)"

definition parse_arguments :: "string \<Rightarrow> header_error + string list" where
  "parse_arguments raw =
     (if normalize_type raw = ''void'' then Inr []
      else mapE (\<lambda>arg. bindE (split_declarator arg) (\<lambda>(t, n). Inr t)) (split_on (CHR '','') raw))"

definition parse_function :: "string \<Rightarrow> header_error + (string \<times> string \<times> string list)" where
  "parse_function declaration =
     (case fullmatch function_re declaration of
        None \<Rightarrow> Inl (Unreadable declaration)
      | Some g \<Rightarrow>
          bindE (parse_arguments (strip (captured g 3))) (\<lambda>arguments.
          Inr (captured g 2, normalize_type (captured g 1), arguments)))"

definition functions_in :: "string \<Rightarrow> header_error + (string \<times> string \<times> string list) list" where
  "functions_in txt = mapE parse_function (map (\<lambda>g. captured g 1) (findall exported_re txt))"

definition parse :: "string \<Rightarrow> header_error + abi" where
  "parse src =
     (let directives = strip_comments src;
          txt = re_sub directive_re [] directives in
      bindE (structs_in txt) (\<lambda>structs.
      bindE (functions_in txt) (\<lambda>functions.
      if functions = [] then Inl NoFunctions
      else Inr \<lparr>abi_constants = constants_in directives, abi_enum_members = enum_members_in txt,
        abi_opaque = opaque_in txt, abi_structs = structs, abi_functions = functions\<rparr>)))"

section \<open>Rendering\<close>

definition quoted_name :: "string \<Rightarrow> string" where
  "quoted_name s = [CHR 0x22] @ s @ [CHR 0x22]"

definition assignments :: "(string \<times> int) list \<Rightarrow> string list" where
  "assignments cs = map (\<lambda>(n, v). n @ '' = '' @ show_int v) cs"

definition render_struct :: "abi \<Rightarrow> string \<times> (string \<times> string) list \<Rightarrow> header_error + string list" where
  "render_struct abi st =
     (case st of (name, fs) \<Rightarrow>
      bindE (mapE (\<lambda>(n, t). bindE (ctypes_for abi t) (\<lambda>spelled.
          Inr (''        ('' @ quoted_name n @ '', '' @ spelled @ ''),''))) fs) (\<lambda>lines.
      Inr ([[], ''class '' @ pascal_case name @ ''(ctypes.Structure):'',
            ''    '' @ quoted_name (quoted_name (quoted_name (''Mirrors `'' @ name @ ''`.''))), [],
            ''    _fields_ = [''] @ lines @ [''    ]'', []])))"

definition render_function :: "abi \<Rightarrow> string \<times> string \<times> string list \<Rightarrow> header_error + string list" where
  "render_function abi f =
     (case f of (name, returns, arguments) \<Rightarrow>
      bindE (mapE (ctypes_for abi) arguments) (\<lambda>mapped.
      bindE (ctypes_for abi returns) (\<lambda>r.
      Inr [''    library.'' @ name @ ''.restype = '' @ r,
           ''    library.'' @ name @ ''.argtypes = ['' @ join '', '' mapped @ '']''])))"

definition docstring :: string where
  "docstring = [CHR 0x22, CHR 0x22, CHR 0x22]"

definition module_opening :: "string list" where
  "module_opening = [docstring @ ''The C ABI of libcronet.so, as ctypes declarations.'', [],
     ''Generated from native/cronet.h by scripts/generate_binding.py.'',
     ''Do not edit: change the header and regenerate, or the two descriptions'',
     ''of one ABI drift apart and every read lands at the wrong offset.'', docstring, [], ''import ctypes'', []]"

definition bind_opening :: "nat \<Rightarrow> string list" where
  "bind_opening n = [[], ''def bind(library: ctypes.CDLL) -> None:'',
     ''    '' @ docstring @ ''Apply every signature in this ABI to `library`.'', [],
     ''    ctypes defaults to guessing an int return and unchecked arguments,'',
     ''    which on a 64-bit pointer truncates silently. Declaring all '' @ show_nat n,
     ''    is what makes a wrong call fail loudly at the boundary.'', ''    '' @ docstring]"

definition functions_tuple :: "(string \<times> string \<times> string list) list \<Rightarrow> string list" where
  "functions_tuple fs = [[], [], ''#: Every function this ABI declares, for checking the library has them.'',
     ''FUNCTIONS = (''] @ map (\<lambda>f. ''    '' @ quoted_name (fst f) @ '','') fs @ ['')'']"

definition render :: "abi \<Rightarrow> header_error + string list" where
  "render abi =
     bindE (mapE (render_struct abi) (abi_structs abi)) (\<lambda>structs.
     bindE (mapE (render_function abi) (abi_functions abi)) (\<lambda>functions.
     Inr (module_opening @ assignments (abi_constants abi) @ [[]] @ assignments (abi_enum_members abi) @ [[]] @
       concat structs @ bind_opening (length (abi_functions abi)) @ concat functions @
       functions_tuple (abi_functions abi))))"

definition generate :: "string \<Rightarrow> header_error + string list" where
  "generate header = bindE (parse header) render"

end
