(* ===== verification/Abi.thy ===== *)
theory Abi
  imports Generator
begin

text \<open>
  The ABI itself. First what \<open>native/cronet.h\<close> declares, as data; then the committed binding
  (\<open>src/cronet/_abi.py\<close>): its classes with their \<open>_fields_\<close>, the signatures \<open>bind\<close> applies and
  \<open>FUNCTIONS\<close>. The generator turns the first into the second. Then the layout of structures, by the
  rule that C on x86-64 and \<open>ctypes\<close> share: each field at the next multiple of its alignment.
\<close>

section \<open>The header\<close>

definition header_constants :: "(string \<times> int) list" where
  "header_constants =
     [(''ABI_VERSION'', 3), (''NO_TIME'', -1), (''ERROR_ABORTED'', -3), (''ERROR_TIMED_OUT'', -7),
      (''ERROR_TOO_MANY_REDIRECTS'', -31), (''EOF'', -1)]"

definition header_enums :: "(string \<times> int) list" where
  "header_enums =
     [(''CACHE_DISABLED'', 0), (''CACHE_IN_MEMORY'', 1), (''CACHE_ON_DISK'', 2), (''PRIORITY_THROTTLED'', 0),
      (''PRIORITY_IDLE'', 1), (''PRIORITY_LOWEST'', 2), (''PRIORITY_LOW'', 3), (''PRIORITY_MEDIUM'', 4),
      (''PRIORITY_HIGHEST'', 5), (''CALL_STARTED'', 0), (''CALL_HEADERS'', 1), (''CALL_DONE'', 2)]"

definition header_opaque :: "string list" where
  "header_opaque = [''cronet_engine'', ''cronet_call'']"

definition decl_header :: "(string \<times> string) list" where
  "decl_header =
     [(''name'', ''char *''), (''value'', ''char *'')]"

definition decl_quic_hint :: "(string \<times> string) list" where
  "decl_quic_hint =
     [(''host'', ''char *''), (''port'', ''int32_t''), (''alternate_port'', ''int32_t'')]"

definition decl_engine_config :: "(string \<times> string) list" where
  "decl_engine_config =
     [(''user_agent'', ''char *''), (''accept_language'', ''char *''),
      (''experimental_options'', ''char *''), (''storage_path'', ''char *''), (''proxy_rules'', ''char *''),
      (''proxy_bypass_rules'', ''char *''), (''proxy_username'', ''char *''),
      (''proxy_password'', ''char *''), (''quic_hints'', ''cronet_quic_hint *''),
      (''quic_hint_count'', ''size_t''), (''enable_quic'', ''int32_t''), (''enable_http2'', ''int32_t''),
      (''enable_brotli'', ''int32_t''), (''cache_mode'', ''int32_t''), (''cache_max_bytes'', ''int64_t'')]"

definition decl_request :: "(string \<times> string) list" where
  "decl_request =
     [(''method'', ''char *''), (''url'', ''char *''), (''headers'', ''cronet_header *''),
      (''header_count'', ''size_t''), (''body'', ''uint8_t *''), (''body_size'', ''size_t''),
      (''priority'', ''int32_t''), (''max_redirects'', ''int32_t''), (''disable_cache'', ''int32_t'')]"

definition decl_metrics :: "(string \<times> string) list" where
  "decl_metrics =
     [(''request_start_us'', ''int64_t''), (''dns_start_us'', ''int64_t''), (''dns_end_us'', ''int64_t''),
      (''connect_start_us'', ''int64_t''), (''connect_end_us'', ''int64_t''),
      (''ssl_start_us'', ''int64_t''), (''ssl_end_us'', ''int64_t''), (''send_start_us'', ''int64_t''),
      (''send_end_us'', ''int64_t''), (''response_start_us'', ''int64_t''),
      (''request_end_us'', ''int64_t''), (''sent_bytes'', ''int64_t''), (''received_bytes'', ''int64_t''),
      (''socket_reused'', ''int32_t'')]"

definition decl_response :: "(string \<times> string) list" where
  "decl_response =
     [(''status_code'', ''int32_t''), (''status_text'', ''char *''), (''headers'', ''cronet_header *''),
      (''header_count'', ''size_t''), (''negotiated_protocol'', ''char *''), (''proxy_server'', ''char *''),
      (''final_url'', ''char *''), (''redirect_count'', ''int32_t''), (''was_cached'', ''int32_t''),
      (''error_code'', ''int32_t''), (''error_message'', ''char *''), (''metrics'', ''cronet_metrics'')]"

definition header_structs :: "(string \<times> (string \<times> string) list) list" where
  "header_structs =
     [(''cronet_header'', decl_header), (''cronet_quic_hint'', decl_quic_hint),
      (''cronet_engine_config'', decl_engine_config), (''cronet_request'', decl_request),
      (''cronet_metrics'', decl_metrics), (''cronet_response'', decl_response)]"

definition header_functions :: "(string \<times> string \<times> string list) list" where
  "header_functions =
     [(''cronet_abi_version'', ''int32_t'', []), (''cronet_version'', ''char *'', []),
      (''cronet_engine_config_init'', ''void'', [''cronet_engine_config *'']),
      (''cronet_engine_create'', ''cronet_engine *'', [''cronet_engine_config *'']),
      (''cronet_last_error'', ''char *'', []), (''cronet_engine_destroy'', ''void'', [''cronet_engine *'']),
      (''cronet_engine_start_net_log'', ''int32_t'', [''cronet_engine *'', ''char *'', ''int32_t'']),
      (''cronet_engine_stop_net_log'', ''void'', [''cronet_engine *'']),
      (''cronet_request_init'', ''void'', [''cronet_request *'']),
      (''cronet_call_start'', ''cronet_call *'', [''cronet_engine *'', ''cronet_request *'']),
      (''cronet_call_state_of'', ''int32_t'', [''cronet_call *'']),
      (''cronet_call_fd'', ''int'', [''cronet_call *'']),
      (''cronet_call_wait'', ''int32_t'', [''cronet_call *'', ''int32_t'']),
      (''cronet_call_response'', ''cronet_response *'', [''cronet_call *'']),
      (''cronet_call_read'', ''int64_t'', [''cronet_call *'', ''uint8_t *'', ''size_t'']),
      (''cronet_call_cancel'', ''void'', [''cronet_call *'']),
      (''cronet_call_free'', ''void'', [''cronet_call *''])]"

definition header_abi :: abi where
  "header_abi = \<lparr>abi_constants = header_constants, abi_enum_members = header_enums, abi_opaque = header_opaque,
     abi_structs = header_structs, abi_functions = header_functions\<rparr>"

section \<open>The committed binding\<close>

definition committed_constants :: "(string \<times> int) list" where
  "committed_constants =
     [(''ABI_VERSION'', 3), (''NO_TIME'', -1), (''ERROR_ABORTED'', -3), (''ERROR_TIMED_OUT'', -7),
      (''ERROR_TOO_MANY_REDIRECTS'', -31), (''EOF'', -1), (''CACHE_DISABLED'', 0), (''CACHE_IN_MEMORY'', 1),
      (''CACHE_ON_DISK'', 2), (''PRIORITY_THROTTLED'', 0), (''PRIORITY_IDLE'', 1), (''PRIORITY_LOWEST'', 2),
      (''PRIORITY_LOW'', 3), (''PRIORITY_MEDIUM'', 4), (''PRIORITY_HIGHEST'', 5), (''CALL_STARTED'', 0),
      (''CALL_HEADERS'', 1), (''CALL_DONE'', 2)]"

definition CronetHeader :: "(string \<times> string) list" where
  "CronetHeader =
     [(''name'', ''ctypes.c_char_p''), (''value'', ''ctypes.c_char_p'')]"

definition CronetQuicHint :: "(string \<times> string) list" where
  "CronetQuicHint =
     [(''host'', ''ctypes.c_char_p''), (''port'', ''ctypes.c_int32''),
      (''alternate_port'', ''ctypes.c_int32'')]"

definition CronetEngineConfig :: "(string \<times> string) list" where
  "CronetEngineConfig =
     [(''user_agent'', ''ctypes.c_char_p''), (''accept_language'', ''ctypes.c_char_p''),
      (''experimental_options'', ''ctypes.c_char_p''), (''storage_path'', ''ctypes.c_char_p''),
      (''proxy_rules'', ''ctypes.c_char_p''), (''proxy_bypass_rules'', ''ctypes.c_char_p''),
      (''proxy_username'', ''ctypes.c_char_p''), (''proxy_password'', ''ctypes.c_char_p''),
      (''quic_hints'', ''ctypes.POINTER(CronetQuicHint)''), (''quic_hint_count'', ''ctypes.c_size_t''),
      (''enable_quic'', ''ctypes.c_int32''), (''enable_http2'', ''ctypes.c_int32''),
      (''enable_brotli'', ''ctypes.c_int32''), (''cache_mode'', ''ctypes.c_int32''),
      (''cache_max_bytes'', ''ctypes.c_int64'')]"

definition CronetRequest :: "(string \<times> string) list" where
  "CronetRequest =
     [(''method'', ''ctypes.c_char_p''), (''url'', ''ctypes.c_char_p''),
      (''headers'', ''ctypes.POINTER(CronetHeader)''), (''header_count'', ''ctypes.c_size_t''),
      (''body'', ''ctypes.POINTER(ctypes.c_ubyte)''), (''body_size'', ''ctypes.c_size_t''),
      (''priority'', ''ctypes.c_int32''), (''max_redirects'', ''ctypes.c_int32''),
      (''disable_cache'', ''ctypes.c_int32'')]"

definition CronetMetrics :: "(string \<times> string) list" where
  "CronetMetrics =
     [(''request_start_us'', ''ctypes.c_int64''), (''dns_start_us'', ''ctypes.c_int64''),
      (''dns_end_us'', ''ctypes.c_int64''), (''connect_start_us'', ''ctypes.c_int64''),
      (''connect_end_us'', ''ctypes.c_int64''), (''ssl_start_us'', ''ctypes.c_int64''),
      (''ssl_end_us'', ''ctypes.c_int64''), (''send_start_us'', ''ctypes.c_int64''),
      (''send_end_us'', ''ctypes.c_int64''), (''response_start_us'', ''ctypes.c_int64''),
      (''request_end_us'', ''ctypes.c_int64''), (''sent_bytes'', ''ctypes.c_int64''),
      (''received_bytes'', ''ctypes.c_int64''), (''socket_reused'', ''ctypes.c_int32'')]"

definition CronetResponse :: "(string \<times> string) list" where
  "CronetResponse =
     [(''status_code'', ''ctypes.c_int32''), (''status_text'', ''ctypes.c_char_p''),
      (''headers'', ''ctypes.POINTER(CronetHeader)''), (''header_count'', ''ctypes.c_size_t''),
      (''negotiated_protocol'', ''ctypes.c_char_p''), (''proxy_server'', ''ctypes.c_char_p''),
      (''final_url'', ''ctypes.c_char_p''), (''redirect_count'', ''ctypes.c_int32''),
      (''was_cached'', ''ctypes.c_int32''), (''error_code'', ''ctypes.c_int32''),
      (''error_message'', ''ctypes.c_char_p''), (''metrics'', ''CronetMetrics'')]"

definition committed_classes :: "(string \<times> (string \<times> string) list) list" where
  "committed_classes =
     [(''CronetHeader'', CronetHeader), (''CronetQuicHint'', CronetQuicHint),
      (''CronetEngineConfig'', CronetEngineConfig), (''CronetRequest'', CronetRequest),
      (''CronetMetrics'', CronetMetrics), (''CronetResponse'', CronetResponse)]"

definition bind_signatures :: "(string \<times> string \<times> string list) list" where
  "bind_signatures =
     [(''cronet_abi_version'', ''ctypes.c_int32'', []), (''cronet_version'', ''ctypes.c_char_p'', []),
      (''cronet_engine_config_init'', ''None'', [''ctypes.POINTER(CronetEngineConfig)'']),
      (''cronet_engine_create'', ''ctypes.c_void_p'', [''ctypes.POINTER(CronetEngineConfig)'']),
      (''cronet_last_error'', ''ctypes.c_char_p'', []),
      (''cronet_engine_destroy'', ''None'', [''ctypes.c_void_p'']),
      (''cronet_engine_start_net_log'', ''ctypes.c_int32'', [''ctypes.c_void_p'', ''ctypes.c_char_p'', ''ctypes.c_int32'']),
      (''cronet_engine_stop_net_log'', ''None'', [''ctypes.c_void_p'']),
      (''cronet_request_init'', ''None'', [''ctypes.POINTER(CronetRequest)'']),
      (''cronet_call_start'', ''ctypes.c_void_p'', [''ctypes.c_void_p'', ''ctypes.POINTER(CronetRequest)'']),
      (''cronet_call_state_of'', ''ctypes.c_int32'', [''ctypes.c_void_p'']),
      (''cronet_call_fd'', ''ctypes.c_int'', [''ctypes.c_void_p'']),
      (''cronet_call_wait'', ''ctypes.c_int32'', [''ctypes.c_void_p'', ''ctypes.c_int32'']),
      (''cronet_call_response'', ''ctypes.POINTER(CronetResponse)'', [''ctypes.c_void_p'']),
      (''cronet_call_read'', ''ctypes.c_int64'', [''ctypes.c_void_p'', ''ctypes.POINTER(ctypes.c_ubyte)'', ''ctypes.c_size_t'']),
      (''cronet_call_cancel'', ''None'', [''ctypes.c_void_p'']),
      (''cronet_call_free'', ''None'', [''ctypes.c_void_p''])]"

definition FUNCTIONS :: "string list" where
  "FUNCTIONS =
     [''cronet_abi_version'', ''cronet_version'', ''cronet_engine_config_init'', ''cronet_engine_create'',
      ''cronet_last_error'', ''cronet_engine_destroy'', ''cronet_engine_start_net_log'',
      ''cronet_engine_stop_net_log'', ''cronet_request_init'', ''cronet_call_start'',
      ''cronet_call_state_of'', ''cronet_call_fd'', ''cronet_call_wait'', ''cronet_call_response'',
      ''cronet_call_read'', ''cronet_call_cancel'', ''cronet_call_free'']"

section \<open>The classes a binding declares\<close>

definition class_of :: "abi \<Rightarrow> string \<times> (string \<times> string) list \<Rightarrow> header_error + (string \<times> (string \<times> string) list)" where
  "class_of abi st =
     (case st of (name, fs) \<Rightarrow>
      bindE (mapE (\<lambda>(n, t). bindE (ctypes_for abi t) (\<lambda>spelled. Inr (n, spelled))) fs) (\<lambda>fs.
      Inr (pascal_case name, fs)))"

definition signature_of :: "abi \<Rightarrow> string \<times> string \<times> string list \<Rightarrow> header_error + (string \<times> string \<times> string list)" where
  "signature_of abi f =
     (case f of (name, returns, arguments) \<Rightarrow>
      bindE (mapE (ctypes_for abi) arguments) (\<lambda>mapped.
      bindE (ctypes_for abi returns) (\<lambda>r. Inr (name, r, mapped))))"

text \<open>What is rendered is these, line by line.\<close>

definition class_lines :: "string \<Rightarrow> string \<times> (string \<times> string) list \<Rightarrow> string list" where
  "class_lines c_name cl =
     [[], ''class '' @ fst cl @ ''(ctypes.Structure):'',
      ''    '' @ quoted_name (quoted_name (quoted_name (''Mirrors `'' @ c_name @ ''`.''))), [],
      ''    _fields_ = [''] @
     map (\<lambda>(n, spelled). ''        ('' @ quoted_name n @ '', '' @ spelled @ ''),'') (snd cl) @ [''    ]'', []]"

lemma mapE_fields:
  "mapE (\<lambda>(n, t). bindE (h t) (\<lambda>s. Inr (g n s))) fs =
     bindE (mapE (\<lambda>(n, t). bindE (h t) (\<lambda>s. Inr (n, s))) fs) (\<lambda>ys. Inr (map (\<lambda>(n, s). g n s) ys))"
proof (induction fs)
  case (Cons x xs)
  obtain n t where "x = (n, t)" by force
  with Cons show ?case
    by (cases "h t"; cases "mapE (\<lambda>(n, t). bindE (h t) (\<lambda>s. Inr (n, s))) xs") simp_all
qed simp

lemma render_struct_class:
  "render_struct abi st = bindE (class_of abi st) (\<lambda>cl. Inr (class_lines (fst st) cl))"
proof -
  obtain name fs where st: "st = (name, fs)" by force
  have eq: "mapE (\<lambda>(n, t). bindE (ctypes_for abi t) (\<lambda>spelled.
      Inr (''        ('' @ quoted_name n @ '', '' @ spelled @ ''),''))) fs =
    bindE (mapE (\<lambda>(n, t). bindE (ctypes_for abi t) (\<lambda>s. Inr (n, s))) fs)
      (\<lambda>ys. Inr (map (\<lambda>(n, s). ''        ('' @ quoted_name n @ '', '' @ s @ ''),'') ys))"
    by (rule mapE_fields)
  show ?thesis
    unfolding st render_struct_def class_of_def prod.case eq
    by (simp add: bindE_assoc class_lines_def)
qed

section \<open>The binding is the header's\<close>

lemmas header_defs = header_abi_def header_constants_def header_enums_def header_opaque_def header_structs_def
  header_functions_def decl_header_def decl_quic_hint_def decl_engine_config_def decl_request_def
  decl_metrics_def decl_response_def

lemma header_classes: "mapE (class_of header_abi) (abi_structs header_abi) = Inr committed_classes"
  by code_simp

lemma header_names_apart: "distinct (map pascal_case (struct_names header_abi))"
  by code_simp


section \<open>Layout\<close>

text \<open>A size and an alignment; where a field goes, and what a whole structure takes.\<close>

type_synonym extent = "nat \<times> nat"

definition round_up :: "nat \<Rightarrow> nat \<Rightarrow> nat" where
  "round_up align n = (n + align - 1) div align * align"

fun place_fields :: "(string \<Rightarrow> extent option) \<Rightarrow> nat \<Rightarrow> nat \<Rightarrow> (string \<times> string) list \<Rightarrow>
    ((string \<times> nat) list \<times> extent) option" where
  "place_fields extent_of off align [] = Some ([], (round_up align off, align))"
| "place_fields extent_of off align ((n, t) # fs) =
     (case extent_of t of
        None \<Rightarrow> None
      | Some (sz, al) \<Rightarrow>
          let spot = round_up al off in
          (case place_fields extent_of (spot + sz) (max align al) fs of
             None \<Rightarrow> None
           | Some (places, whole) \<Rightarrow> Some ((n, spot) # places, whole)))"

text \<open>Structures are laid out in order; a later one may contain an earlier one by value.\<close>

fun layouts :: "((string \<times> extent) list \<Rightarrow> string \<Rightarrow> extent option) \<Rightarrow> (string \<times> extent) list \<Rightarrow>
    (string \<times> (string \<times> string) list) list \<Rightarrow> ((string \<times> nat) list \<times> extent) list option" where
  "layouts extent_in env [] = Some []"
| "layouts extent_in env ((name, fs) # sts) =
     (case place_fields (extent_in env) 0 1 fs of
        None \<Rightarrow> None
      | Some (places, whole) \<Rightarrow>
          map_option (\<lambda>ls. (places, whole) # ls) (layouts extent_in ((name, whole) # env) sts))"

definition c_extent :: "(string \<times> extent) list \<Rightarrow> string \<Rightarrow> extent option" where
  "c_extent env t =
     (if ends_with ''*'' t then Some (8, 8)
      else if t = ''int'' \<or> t = ''int32_t'' then Some (4, 4)
      else if t = ''int64_t'' \<or> t = ''size_t'' then Some (8, 8)
      else if t = ''void'' then None
      else map_of env t)"

definition py_extent :: "(string \<times> extent) list \<Rightarrow> string \<Rightarrow> extent option" where
  "py_extent env t =
     (if starts_with ''ctypes.POINTER('' t \<or> t = ''ctypes.c_char_p'' \<or> t = ''ctypes.c_void_p'' then Some (8, 8)
      else if t = ''ctypes.c_int'' \<or> t = ''ctypes.c_int32'' then Some (4, 4)
      else if t = ''ctypes.c_int64'' \<or> t = ''ctypes.c_size_t'' then Some (8, 8)
      else if t = ''None'' then None
      else map_of env t)"

text \<open>The names of the header's structures start with \<open>cronet_\<close>, so those of the classes with \<open>Cronet\<close>,
  and a class is never mistaken for a type of \<open>ctypes\<close>.\<close>

definition cronet_name :: "string \<Rightarrow> bool" where
  "cronet_name n \<longleftrightarrow> starts_with ''cronet_'' n"

lemma cronet_nameE:
  assumes "cronet_name n"
  obtains m where "n = ''cronet_'' @ m"
proof
  show "n = ''cronet_'' @ drop (length ''cronet_'') n"
    using assms append_take_drop_id [of "length ''cronet_''" n]
    unfolding cronet_name_def starts_with_def by (simp only:)
qed

lemma pascal_cronet:
  assumes "cronet_name n"
  obtains m where "pascal_case n = CHR ''C'' # CHR ''r'' # m"
proof -
  obtain m where n: "n = ''cronet_'' @ m" using assms by (rule cronet_nameE)
  have "split_on (CHR ''_'') n = ''cronet'' # split_on (CHR ''_'') m"
    unfolding n by (cases "split_on (CHR ''_'') m") simp_all
  moreover have "title_from False ''cronet'' = ''Cronet''" by code_simp
  ultimately have "pascal_case n = ''Cronet'' @ concat (map (title_from False) (split_on (CHR ''_'') m))"
    by (simp add: pascal_case_def)
  then show ?thesis using that by simp
qed

lemma py_extent_class: "py_extent env (CHR ''C'' # CHR ''r'' # m) = map_of env (CHR ''C'' # CHR ''r'' # m)"
  by (simp add: py_extent_def starts_with_def)

lemma map_of_renamed:
  assumes "inj_on f (insert x (fst ` set env))"
  shows "map_of (map (apfst f) env) (f x) = map_of env x"
  using assms
proof (induction env)
  case (Cons kv env)
  have "inj_on f (insert x (fst ` set env))" using Cons.prems by (rule inj_on_subset) auto
  moreover have "f (fst kv) = f x \<longleftrightarrow> fst kv = x" by (rule inj_on_eq_iff [OF Cons.prems]) auto
  ultimately show ?case using Cons.IH by (cases kv) auto
qed simp

text \<open>What \<open>ctypes_for\<close> maps a type to has its extent.\<close>

lemma primitive_extents:
  "py_extent env' ''None'' = None" "c_extent env ''void'' = None"
  "py_extent env' ''ctypes.c_int'' = Some (4, 4)" "c_extent env ''int'' = Some (4, 4)"
  "py_extent env' ''ctypes.c_int32'' = Some (4, 4)" "c_extent env ''int32_t'' = Some (4, 4)"
  "py_extent env' ''ctypes.c_int64'' = Some (8, 8)" "c_extent env ''int64_t'' = Some (8, 8)"
  "py_extent env' ''ctypes.c_size_t'' = Some (8, 8)" "c_extent env ''size_t'' = Some (8, 8)"
  "py_extent env' ''ctypes.c_char_p'' = Some (8, 8)" "c_extent env ''char *'' = Some (8, 8)"
  "py_extent env' ''ctypes.POINTER(ctypes.c_ubyte)'' = Some (8, 8)" "c_extent env ''uint8_t *'' = Some (8, 8)"
  by (simp_all add: py_extent_def c_extent_def starts_with_def ends_with_def)

lemma primitive_cases: "map_of PRIMITIVES t = Some s \<Longrightarrow> py_extent env' s = c_extent env t"
proof -
  have "list_all (\<lambda>(t, s). py_extent env' s = c_extent env t) PRIMITIVES"
    unfolding PRIMITIVES_def by (simp only: list.pred_inject prod.case primitive_extents simp_thms)
  moreover assume "map_of PRIMITIVES t = Some s"
  then have "(t, s) \<in> set PRIMITIVES" by (rule map_of_SomeD)
  ultimately show ?thesis unfolding list_all_iff by blast
qed

lemma primitives_mapped:
  "map_of PRIMITIVES ''int'' \<noteq> None" "map_of PRIMITIVES ''int32_t'' \<noteq> None"
  "map_of PRIMITIVES ''int64_t'' \<noteq> None" "map_of PRIMITIVES ''size_t'' \<noteq> None" "map_of PRIMITIVES ''void'' \<noteq> None"
  by code_simp+

lemma not_primitive:
  assumes "map_of PRIMITIVES t = None"
  shows "t \<noteq> ''int''" "t \<noteq> ''int32_t''" "t \<noteq> ''int64_t''" "t \<noteq> ''size_t''" "t \<noteq> ''void''"
  using assms primitives_mapped by metis+

lemma c_extent_pointer: "ends_with ''*'' t \<Longrightarrow> c_extent env t = Some (8, 8)"
  by (simp only: c_extent_def if_True)

lemma c_extent_struct: "\<not> ends_with ''*'' t \<Longrightarrow> map_of PRIMITIVES t = None \<Longrightarrow> c_extent env t = map_of env t"
  using not_primitive [of t] by (simp only: c_extent_def if_False simp_thms)

lemma py_extent_pointer:
  "py_extent env ''ctypes.c_void_p'' = Some (8, 8)"
  "starts_with ''ctypes.POINTER('' s \<Longrightarrow> py_extent env s = Some (8, 8)"
  by (simp add: py_extent_def) (simp only: py_extent_def if_True simp_thms)

lemma starts_with_self: "starts_with p (p @ s)"
  by (simp add: starts_with_def)

lemma ctypes_for_extent:
  assumes "ctypes_for abi t = Inr s" and "list_all cronet_name (struct_names abi)"
    and "fst ` set env \<subseteq> set (struct_names abi)" and "inj_on pascal_case (set (struct_names abi))"
  shows "py_extent (map (apfst pascal_case) env) s = c_extent env t"
proof (cases "map_of PRIMITIVES t")
  case (Some spelled)
  then have "s = spelled" using assms(1) by (simp add: ctypes_for_def)
  with Some show ?thesis using primitive_cases by blast
next
  case None
  show ?thesis
  proof (cases "ends_with ''*'' t")
    case True
    define p where "p = ''ctypes.POINTER(''"
    have "s = ''ctypes.c_void_p'' \<or> (\<exists>q. s = p @ q)"
      using assms(1) unfolding ctypes_for_def Let_def p_def None option.case if_P [OF True]
      by (auto simp only: sum.inject sum.distinct split: if_splits)
    then have "py_extent (map (apfst pascal_case) env) s = Some (8, 8)"
    proof (elim disjE exE)
      fix q assume "s = p @ q"
      then have "starts_with p s" using starts_with_self by simp
      then show ?thesis unfolding p_def by (rule py_extent_pointer)
    qed (simp only: py_extent_pointer)
    then show ?thesis by (simp only: c_extent_pointer [OF True])
  next
    case False
    then have t: "t \<in> set (struct_names abi)" "s = pascal_case t"
      using assms(1) None by (auto simp: ctypes_for_def Let_def split: if_splits)
    obtain m where m: "pascal_case t = CHR ''C'' # CHR ''r'' # m"
      using t(1) assms(2) pascal_cronet by (auto simp: list_all_iff)
    have "map_of (map (apfst pascal_case) env) (pascal_case t) = map_of env t"
      by (rule map_of_renamed) (rule inj_on_subset [OF assms(4)], use t(1) assms(3) in auto)
    then show ?thesis
      by (simp only: t(2) m py_extent_class c_extent_struct [OF False None])
  qed
qed

lemma place_fields_same:
  assumes "list_all2 (\<lambda>(n, t) (n', s). n' = n \<and> ext' s = ext t) fs gs"
  shows "place_fields ext' off align gs = place_fields ext off align fs"
  using assms
proof (induction fs gs arbitrary: off align rule: list_all2_induct)
  case (Cons x fs y gs)
  then show ?case by (cases x; cases y) (simp add: Let_def split: option.splits prod.splits)
qed simp

lemma mapE_class_fields:
  "mapE (\<lambda>(n, t). bindE (ctypes_for abi t) (\<lambda>s. Inr (n, s))) fs = Inr gs \<longleftrightarrow>
     list_all2 (\<lambda>(n, t) (n', s). n' = n \<and> ctypes_for abi t = Inr s) fs gs"
  unfolding mapE_Inr_iff
  by (intro arg_cong [where f = "\<lambda>P. list_all2 P fs gs"] ext) (auto simp: bindE_eq_Inr split: prod.splits)


lemma header_names: "list_all cronet_name (struct_names header_abi)"
  by code_simp


text \<open>The sizes of the six structures.\<close>

lemma pointer_extents:
  "c_extent env ''cronet_header *'' = Some (8, 8)" "c_extent env ''cronet_quic_hint *'' = Some (8, 8)"
  "c_extent ((''cronet_metrics'', e) # env) ''cronet_metrics'' = Some e"
  by (simp_all add: c_extent_def ends_with_def starts_with_def)

lemma struct_sizes:
  "map_option (map snd) (layouts c_extent [] header_structs) =
     Some [(16, 8), (16, 8), (104, 8), (64, 8), (112, 8), (192, 8)]"
  unfolding header_defs layouts.simps place_fields.simps primitive_extents pointer_extents option.case prod.case Let_def
  by (simp add: round_up_def)

end
