(* ===== verification/Binding.thy ===== *)
theory Binding
  imports Abi Errors
begin

text \<open>
  Loading the library (\<open>src/cronet/_binding.py\<close>): where it is, the diagnosis when it will not load, and
  the checks an import makes before anything is read through it. The record \<open>machine\<close> is what the
  import finds: the environment variable, the files, the platform and what the dynamic loader
  answers. \<open>ImportError\<close> is the datatype \<open>import_error\<close>, one constructor for each place that raises
  it. \<open>import_events\<close> records what is done to the library, in order.
\<close>

section \<open>What an import finds\<close>

record shared_library =
  exported :: "string \<Rightarrow> bool"
  built_abi :: int
  chromium_version :: bytes

record machine =
  CRONET_LIBRARY :: "string option"
  package_directory :: string
  file_exists :: "string \<Rightarrow> bool"
  sys_platform :: string
  uname_machine :: string
  dlopen :: "string \<Rightarrow> string + shared_library"

datatype import_error =
    LibraryNotFound string
  | WrongPlatform string string
  | WouldNotLoad string string string
  | MissingExports string "string list"
  | WrongAbi string int int

datatype import_event = Opened string | Looked string | Bound | Called string

section \<open>Loading\<close>

definition ABI_VERSION :: int where
  "ABI_VERSION = 3"

definition library_path :: "machine \<Rightarrow> string" where
  "library_path m =
     (case CRONET_LIBRARY m of
        None \<Rightarrow> package_directory m @ ''/libcronet.so''
      | Some override \<Rightarrow> if override \<noteq> [] then override else package_directory m @ ''/libcronet.so'')"

definition why_it_would_not_load :: "machine \<Rightarrow> string \<Rightarrow> string \<Rightarrow> import_error" where
  "why_it_would_not_load m path failure =
     (let platform = sys_platform m @ '', '' @ uname_machine m in
      if sys_platform m \<noteq> ''linux'' \<or> uname_machine m \<noteq> ''x86_64'' then WrongPlatform path platform
      else WouldNotLoad path platform failure)"

definition missing_exports :: "shared_library \<Rightarrow> string list" where
  "missing_exports library = filter (\<lambda>name. \<not> exported library name) FUNCTIONS"

definition load :: "machine \<Rightarrow> import_error + (string \<times> shared_library)" where
  "load m =
     (let path = library_path m in
      bindE (guardE (file_exists m path) (LibraryNotFound path)) (\<lambda>_.
      case dlopen m path of
        Inl failure \<Rightarrow> Inl (why_it_would_not_load m path failure)
      | Inr library \<Rightarrow>
          bindE (guardE (missing_exports library = []) (MissingExports path (missing_exports library))) (\<lambda>_.
          Inr (path, library))))"

text \<open>The module body: \<open>lib = _load()\<close> and the comparison of the versions.\<close>

definition import_binding :: "machine \<Rightarrow> import_error + shared_library" where
  "import_binding m =
     bindE (load m) (\<lambda>(path, library).
     bindE (guardE (built_abi library = ABI_VERSION) (WrongAbi path (built_abi library) ABI_VERSION)) (\<lambda>_.
     Inr library))"

definition import_events :: "machine \<Rightarrow> import_event list" where
  "import_events m =
     (let path = library_path m in
      if \<not> file_exists m path then []
      else
        (case dlopen m path of
           Inl failure \<Rightarrow> [Opened path]
         | Inr library \<Rightarrow>
             [Opened path] @ map Looked FUNCTIONS @
             (if missing_exports library \<noteq> [] then [] else [Bound, Called ''cronet_abi_version''])))"

section \<open>What the library says of itself\<close>

definition version :: "shared_library \<Rightarrow> exn + ustr" where
  "version library =
     (case decode_strict (chromium_version library) of None \<Rightarrow> Inl UnicodeDecodeError | Some t \<Rightarrow> Inr t)"

definition last_error :: "bytes \<Rightarrow> ustr" where
  "last_error raw = decode_replace raw"

section \<open>Laws\<close>

lemma load_Inr:
  "load m = Inr (path, library) \<longleftrightarrow> path = library_path m \<and> file_exists m path \<and> dlopen m path = Inr library \<and>
     missing_exports library = []"
  by (auto simp: load_def Let_def bindE_eq_Inr guardE_def split: sum.splits if_splits)

text \<open>An import succeeds exactly with the right library: the file is there, it loads, it exports every
  function of the ABI and it was built for this version of it; and on no path is anything called
  but \<open>cronet_abi_version\<close>, and that only when every export has been looked up and found.\<close>

theorem import_exact:
  "(import_binding m = Inr library \<longleftrightarrow>
      file_exists m (library_path m) \<and> dlopen m (library_path m) = Inr library \<and>
      list_all (exported library) FUNCTIONS \<and> built_abi library = ABI_VERSION) \<and>
   (Called f \<in> set (import_events m) \<longleftrightarrow> f = ''cronet_abi_version'' \<and>
      (\<exists>library. load m = Inr (library_path m, library) \<and> list_all (exported library) FUNCTIONS)) \<and>
   (Called f \<in> set (import_events m) \<longleftrightarrow> f = ''cronet_abi_version'' \<and>
      import_events m = [Opened (library_path m)] @ map Looked FUNCTIONS @ [Bound, Called f])"
proof -
  have missing: "missing_exports l = [] \<longleftrightarrow> list_all (exported l) FUNCTIONS" for l
    by (auto simp: missing_exports_def filter_empty_conv list_all_iff)
  have body: "import_binding m = Inr library \<longleftrightarrow>
      (\<exists>path. load m = Inr (path, library)) \<and> built_abi library = ABI_VERSION"
    by (auto simp: import_binding_def bindE_eq_Inr)
  have called: "Called f \<in> set (import_events m) \<longleftrightarrow> f = ''cronet_abi_version'' \<and>
      file_exists m (library_path m) \<and>
      (\<exists>l. dlopen m (library_path m) = Inr l \<and> missing_exports l = [])"
    by (auto simp: import_events_def Let_def split: sum.splits if_splits)
  moreover have "Called f \<in> set (import_events m) \<longleftrightarrow> f = ''cronet_abi_version'' \<and>
      import_events m = [Opened (library_path m)] @ map Looked FUNCTIONS @ [Bound, Called f]"
    by (auto simp: import_events_def Let_def split: sum.splits if_splits)
  ultimately show ?thesis
    by (simp add: body load_Inr missing)
qed

text \<open>What is raised otherwise.\<close>

lemma import_fails:
  "import_binding m = Inl e \<longleftrightarrow> (let path = library_path m in
     \<not> file_exists m path \<and> e = LibraryNotFound path \<or>
     file_exists m path \<and> (\<exists>failure. dlopen m path = Inl failure \<and> e = why_it_would_not_load m path failure) \<or>
     file_exists m path \<and> (\<exists>l. dlopen m path = Inr l \<and>
       (missing_exports l \<noteq> [] \<and> e = MissingExports path (missing_exports l) \<or>
        missing_exports l = [] \<and> built_abi l \<noteq> ABI_VERSION \<and> e = WrongAbi path (built_abi l) ABI_VERSION)))"
  by (auto simp: import_binding_def load_def Let_def bindE_eq_Inl bindE_eq_Inr guardE_def split: sum.splits if_splits)

end
