(* ===== verification/EventLoop.thy ===== *)
theory EventLoop
  imports Main
begin

text \<open>
  Waiting in an event loop (\<open>AsyncSession._progress\<close> in \<open>src/cronet/session.py\<close>): each waiting task has
  a future and a reader registered for the descriptor of its call. The record \<open>event_loop\<close> holds
  the loop's readers, the futures and where each task stands; the callback and the coroutine up to
  and from its \<open>await\<close> are definitions, and \<open>loop_step\<close> interleaves them with the loop calling a
  reader and with a task being cancelled, by \<open>asyncio.timeout\<close> or by its owner. A future that is
  resolved twice raises \<open>InvalidStateError\<close>, recorded in \<open>el_broken\<close>.
\<close>

section \<open>The loop and the coroutine\<close>

datatype future = Unresolved | Resolved | Revoked

text \<open>A task outside \<open>_progress\<close>, at its \<open>await\<close>, woken by the descriptor, or left with a \<open>CancelledError\<close>.\<close>

datatype waiter = Elsewhere | Awaiting | Woken | Interrupted

record event_loop =
  el_readers :: "nat \<Rightarrow> nat option"
  el_futures :: "nat \<Rightarrow> future"
  el_tasks :: "nat \<Rightarrow> waiter"
  el_must_cancel :: "nat set"
  el_broken :: bool

definition idle_loop :: event_loop where
  "idle_loop = \<lparr>el_readers = (\<lambda>d. None), el_futures = (\<lambda>t. Revoked), el_tasks = (\<lambda>t. Elsewhere),
     el_must_cancel = {}, el_broken = False\<rparr>"

text \<open>\<open>loop.add_reader\<close> replaces the reader a descriptor has.\<close>

definition add_reader :: "nat \<Rightarrow> nat \<Rightarrow> event_loop \<Rightarrow> event_loop" where
  "add_reader d t L = L\<lparr>el_readers := (el_readers L)(d := Some t)\<rparr>"

definition remove_reader :: "nat \<Rightarrow> event_loop \<Rightarrow> event_loop" where
  "remove_reader d L = L\<lparr>el_readers := (el_readers L)(d := None)\<rparr>"

definition set_result :: "nat \<Rightarrow> event_loop \<Rightarrow> event_loop" where
  "set_result t L =
     (if el_futures L t = Unresolved then L\<lparr>el_futures := (el_futures L)(t := Resolved)\<rparr>
      else L\<lparr>el_broken := True\<rparr>)"

text \<open>\<open>future.cancel\<close>, which a task's cancellation falls back from when the future is done.\<close>

definition cancel_task :: "nat \<Rightarrow> event_loop \<Rightarrow> event_loop" where
  "cancel_task t L =
     (if el_futures L t = Unresolved then L\<lparr>el_futures := (el_futures L)(t := Revoked)\<rparr>
      else L\<lparr>el_must_cancel := insert t (el_must_cancel L)\<rparr>)"

definition on_readable :: "nat \<Rightarrow> nat \<Rightarrow> event_loop \<Rightarrow> event_loop" where
  "on_readable d t L =
     (let L = remove_reader d L in if el_futures L t = Unresolved then set_result t L else L)"

text \<open>\<open>_progress\<close> up to its \<open>await\<close>, and from there to its end.\<close>

definition enter_progress :: "nat \<Rightarrow> nat \<Rightarrow> event_loop \<Rightarrow> event_loop" where
  "enter_progress d t L =
     add_reader d t (L\<lparr>el_futures := (el_futures L)(t := Unresolved),
                       el_tasks := (el_tasks L)(t := Awaiting)\<rparr>)"

definition leave_progress :: "nat \<Rightarrow> nat \<Rightarrow> event_loop \<Rightarrow> event_loop" where
  "leave_progress d t L =
     (let outcome = (if el_futures L t = Resolved \<and> t \<notin> el_must_cancel L then Woken else Interrupted) in
      remove_reader d (L\<lparr>el_tasks := (el_tasks L)(t := outcome), el_must_cancel := el_must_cancel L - {t}\<rparr>))"

section \<open>Any number of tasks\<close>

inductive loop_step :: "(nat \<Rightarrow> nat) \<Rightarrow> event_loop \<Rightarrow> event_loop \<Rightarrow> bool" for fd where
  enters: "el_tasks L t \<noteq> Awaiting \<Longrightarrow> loop_step fd L (enter_progress (fd t) t L)"
| fires: "el_readers L d = Some t \<Longrightarrow> loop_step fd L (on_readable d t L)"
| is_cancelled: "el_tasks L t = Awaiting \<Longrightarrow> loop_step fd L (cancel_task t L)"
| leaves: "el_tasks L t = Awaiting \<Longrightarrow> el_futures L t \<noteq> Unresolved \<Longrightarrow>
    loop_step fd L (leave_progress (fd t) t L)"

inductive_cases loop_step_cases: "loop_step fd L L'"

inductive loop_run :: "(nat \<Rightarrow> nat) \<Rightarrow> event_loop \<Rightarrow> bool" for fd where
  from_idle: "loop_run fd idle_loop"
| one_more: "loop_run fd L \<Longrightarrow> loop_step fd L L' \<Longrightarrow> loop_run fd L'"

section \<open>No wakeup is lost\<close>

lemmas loop_defs = enter_progress_def leave_progress_def on_readable_def set_result_def cancel_task_def
  add_reader_def remove_reader_def Let_def

definition loop_inv :: "(nat \<Rightarrow> nat) \<Rightarrow> event_loop \<Rightarrow> bool" where
  "loop_inv fd L \<longleftrightarrow>
     (\<forall>d t. el_readers L d = Some t \<longrightarrow> d = fd t \<and> el_tasks L t = Awaiting) \<and>
     (\<forall>t. el_tasks L t = Awaiting \<and> el_futures L t = Unresolved \<longrightarrow> el_readers L (fd t) = Some t) \<and>
     (\<forall>t\<in>el_must_cancel L. el_tasks L t = Awaiting \<and> el_futures L t \<noteq> Unresolved) \<and> \<not> el_broken L"

lemma idle_inv: "loop_inv fd idle_loop"
  by (simp add: loop_inv_def idle_loop_def)

lemma enter_inv: "inj fd \<Longrightarrow> loop_inv fd L \<Longrightarrow> el_tasks L t \<noteq> Awaiting \<Longrightarrow> loop_inv fd (enter_progress (fd t) t L)"
  by (auto simp: loop_inv_def loop_defs inj_eq split: if_splits)

lemma fire_inv: "inj fd \<Longrightarrow> loop_inv fd L \<Longrightarrow> el_readers L d = Some t \<Longrightarrow> loop_inv fd (on_readable d t L)"
  by (auto simp: loop_inv_def loop_defs inj_eq split: if_splits)

lemma cancel_inv: "loop_inv fd L \<Longrightarrow> el_tasks L t = Awaiting \<Longrightarrow> loop_inv fd (cancel_task t L)"
  by (auto simp: loop_inv_def loop_defs split: if_splits)

lemma leave_inv:
  "inj fd \<Longrightarrow> loop_inv fd L \<Longrightarrow> el_tasks L t = Awaiting \<Longrightarrow> el_futures L t \<noteq> Unresolved \<Longrightarrow>
     loop_inv fd (leave_progress (fd t) t L)"
  by (auto simp: loop_inv_def loop_defs inj_eq split: if_splits)

lemma loop_run_inv: "loop_run fd L \<Longrightarrow> inj fd \<Longrightarrow> loop_inv fd L"
proof (induction rule: loop_run.induct)
  case from_idle
  show ?case by (rule idle_inv)
next
  case (one_more L L')
  then have "loop_inv fd L" by simp
  with one_more.hyps(2) one_more.prems show ?case
    by (cases rule: loop_step_cases) (auto intro: enter_inv fire_inv cancel_inv leave_inv)
qed

lemma wakes:
  assumes "el_tasks L t = Awaiting" and "el_futures L t = Unresolved" and "el_readers L (fd t) = Some t"
    and "t \<notin> el_must_cancel L"
  shows "\<exists>L'. (loop_step fd)\<^sup>*\<^sup>* L L' \<and> el_tasks L' t = Woken"
proof -
  let ?M = "on_readable (fd t) t L"
  have m: "el_tasks ?M t = Awaiting" "el_futures ?M t = Resolved" "t \<notin> el_must_cancel ?M"
    using assms by (simp_all add: loop_defs)
  have "loop_step fd L ?M" by (rule loop_step.fires) (rule assms(3))
  moreover have "loop_step fd ?M (leave_progress (fd t) t ?M)"
    by (rule loop_step.leaves) (simp_all add: m)
  moreover have "el_tasks (leave_progress (fd t) t ?M) t = Woken"
    using m by (simp add: leave_progress_def remove_reader_def)
  ultimately show ?thesis by (meson rtranclp.rtrancl_into_rtrancl rtranclp.rtrancl_refl)
qed

text \<open>C27. No wakeup is lost and none is delivered twice. Tasks that wait for different descriptors never
  disturb each other: a task that is still to be woken has the one reader of its descriptor, every
  reader belongs to a task that is at its \<open>await\<close>, whose descriptor it is, a task that left has
  none, no future is ever resolved a second time, and a waiting task can still be woken or has
  been cancelled.\<close>

theorem progress_wakes:
  assumes "loop_run fd L" and "inj fd"
  shows "\<not> el_broken L \<and>
    (el_readers L d = Some t \<longleftrightarrow> d = fd t \<and> el_tasks L t = Awaiting \<and> el_readers L d \<noteq> None) \<and>
    (if el_tasks L t = Awaiting
     then (if el_futures L t = Unresolved
           then el_readers L (fd t) = Some t \<and> (\<exists>L'. (loop_step fd)\<^sup>*\<^sup>* L L' \<and> el_tasks L' t = Woken)
           else loop_step fd L (leave_progress (fd t) t L))
     else el_readers L (fd t) = None)"
proof -
  note inv = loop_run_inv [OF assms, unfolded loop_inv_def]
  have own: "el_readers L (fd t) = Some s \<Longrightarrow> s = t" for s
    using inv assms(2) by (metis inj_eq)
  have "el_readers L d = Some t \<longleftrightarrow> d = fd t \<and> el_tasks L t = Awaiting \<and> el_readers L d \<noteq> None"
    using inv own by auto
  moreover have "el_tasks L t \<noteq> Awaiting \<Longrightarrow> el_readers L (fd t) = None"
    using inv own by (metis not_None_eq)
  moreover have "el_tasks L t = Awaiting \<Longrightarrow> el_futures L t = Unresolved \<Longrightarrow>
      \<exists>L'. (loop_step fd)\<^sup>*\<^sup>* L L' \<and> el_tasks L' t = Woken"
    using inv by (intro wakes) auto
  ultimately show ?thesis
    using inv by (simp add: loop_step.leaves)
qed

definition two_waiting :: event_loop where
  "two_waiting = cancel_task 1 (enter_progress 8 1 (enter_progress 7 0 idle_loop))"

lemma two_waiting_run: "loop_run (\<lambda>t. t + 7) two_waiting"
proof -
  let ?A = "enter_progress 7 0 idle_loop" and ?B = "enter_progress 8 1 (enter_progress 7 0 idle_loop)"
  have "loop_step (\<lambda>t. t + 7) idle_loop ?A"
    using loop_step.enters [of idle_loop 0 "\<lambda>t. t + 7"] by (simp add: idle_loop_def)
  moreover have "loop_step (\<lambda>t. t + 7) ?A ?B"
    using loop_step.enters [of ?A 1 "\<lambda>t. t + 7"] by (simp add: idle_loop_def loop_defs)
  moreover have "loop_step (\<lambda>t. t + 7) ?B two_waiting"
    unfolding two_waiting_def by (rule loop_step.is_cancelled) (simp add: loop_defs)
  ultimately show ?thesis by (meson loop_run.intros)
qed

lemma two_waiting_states:
  "el_tasks two_waiting 0 = Awaiting" "el_futures two_waiting 0 = Unresolved"
  by (simp_all add: two_waiting_def loop_defs)

theorem progress_wakes_witness:
  "el_readers two_waiting 7 = Some 0 \<and>
   (\<exists>L'. (loop_step (\<lambda>t. t + 7))\<^sup>*\<^sup>* two_waiting L' \<and> el_tasks L' 0 = Woken)"
  using progress_wakes [OF two_waiting_run, of 7 0] by (simp add: two_waiting_states)

text \<open>
  The descriptors have to differ: of two tasks that wait for one call, the second takes the first
  one's reader away.
\<close>

lemma shared_descriptor_loses:
  "\<exists>L. loop_run (\<lambda>t. 7) L \<and> el_tasks L 0 = Awaiting \<and> el_futures L 0 = Unresolved \<and> el_readers L 7 = Some 1"
proof (intro exI conjI)
  let ?A = "enter_progress 7 0 idle_loop" and ?B = "enter_progress 7 1 (enter_progress 7 0 idle_loop)"
  have "loop_step (\<lambda>t. 7) idle_loop ?A"
    using loop_step.enters [of idle_loop 0 "\<lambda>t. 7"] by (simp add: idle_loop_def)
  moreover have "loop_step (\<lambda>t. 7) ?A ?B"
    using loop_step.enters [of ?A 1 "\<lambda>t. 7"] by (simp add: idle_loop_def loop_defs)
  ultimately show "loop_run (\<lambda>t. 7) ?B" by (meson loop_run.intros)
qed (simp_all add: loop_defs)

end
