(* ===== verification/SessionLife.thy ===== *)
theory SessionLife
  imports SessionProtocol Engine
begin

text \<open>
  The life of a session (\<open>src/cronet/session.py\<close>): what its methods make of its engine, the
  \<open>with\<close> block, and \<open>stream\<close> from its arguments on. A session's engine is the pair of \<open>Engine\<close>'s
  theory, the bookkeeping and what the library holds. An operation that would wait for ever has
  the value \<open>None\<close>.
\<close>

section \<open>The engine of a session\<close>

type_synonym handle = "engine \<times> library"

definition fresh_handle :: handle where
  "fresh_handle = (new_engine, \<lparr>nat_calls = {}, nat_cancelled = {}, nat_destroyed = 0\<rparr>)"

definition session_closed :: "handle \<Rightarrow> bool" where
  "session_closed h = engine_closed (fst h)"

definition session_start_net_log :: "bool \<Rightarrow> ustr \<Rightarrow> handle \<Rightarrow> (exn + unit) \<times> handle" where
  "session_start_net_log started path h =
     (case start_net_log started path (fst h) of (r, e) \<Rightarrow> (r, (e, snd h)))"

definition session_stop_net_log :: "handle \<Rightarrow> (exn + unit) \<times> handle" where
  "session_stop_net_log h = (case stop_net_log (fst h) of (r, e) \<Rightarrow> (r, (e, snd h)))"

text \<open>\<open>close\<close>, which \<open>__exit__\<close> calls, and which \<open>aclose\<close> calls on a thread of its own.\<close>

definition session_close :: "handle \<Rightarrow> handle option" where
  "session_close h = engine_close h"

text \<open>\<open>with session: body\<close>: \<open>__exit__\<close> returns nothing, so what the body raised goes on.\<close>

definition with_session :: "(handle \<Rightarrow> (exn + 'a) \<times> handle) \<Rightarrow> handle \<Rightarrow> ((exn + 'a) \<times> handle) option" where
  "with_session body h =
     (case body h of (r, h) \<Rightarrow> map_option (Pair r) (session_close h))"

section \<open>A stream from its arguments on\<close>

text \<open>
  \<open>Session.stream\<close>: the target is checked and the call composed and started as for a request. The
  Set-Cookie headers of the response are not given to the jar.
\<close>

definition session_stream ::
  "nat \<Rightarrow> ('j, 'c, 's) services \<Rightarrow> session \<Rightarrow> string \<Rightarrow> string \<Rightarrow> request_options \<Rightarrow> 'j option \<Rightarrow>
    ((exn + response) \<times> life list \<times> 'j option) option" where
  "session_stream fuel sv ses verb url opts cookies =
     (case target url opts of
        Inl e \<Rightarrow> Some (Inl e, [], cookies)
      | Inr t \<Rightarrow>
          (case build_call (sv_backends sv) (sv_draw sv 0) verb t opts (ses_headers ses) cookies
                  (redirect_limit ses opts) of
             (Inl e, cookies) \<Rightarrow> Some (Inl e, [], cookies)
           | (Inr settings, cookies) \<Rightarrow>
               (case sv_start sv 0 settings of
                  Inl e \<Rightarrow> Some (Inl e, [], cookies)
                | Inr (s, E) \<Rightarrow>
                    (case stream_call fuel (sv_lib sv) E (sv_seconds sv) ses t opts s of
                       None \<Rightarrow> None
                     | Some (r, w, events) \<Rightarrow> Some (r, events, cookies)))))"

section \<open>Closing\<close>

lemma close_idle:
  "eng_in_flight e = 0 \<Longrightarrow> engine_close (e, n) =
     Some (if eng_open e then (e\<lparr>eng_open := False\<rparr>, run_finalizer (native_cancel (eng_live e) n)) else (e, n))"
  by (simp add: engine_close_def begin_close_def may_finish_def)

lemma close_busy: "eng_open e \<Longrightarrow> eng_in_flight e \<noteq> 0 \<Longrightarrow> engine_close (e, n) = None"
  by (simp add: engine_close_def begin_close_def may_finish_def)

lemma closed_close: "\<not> eng_open e \<Longrightarrow> engine_close (e, n) = Some (e, n)"
  by (simp add: engine_close_def begin_close_def)

text \<open>
  A block that has closed what it started leaves a closed session behind, its engine destroyed,
  whatever it raised; closing it again does nothing, and nothing reaches the library any more.
\<close>

theorem with_block_closes:
  assumes "body h = (r, (e, n))" and "eng_in_flight e = 0" and "eng_open e \<or> nat_destroyed n = 1"
  shows "\<exists>h'. with_session body h = Some (r, h') \<and> session_closed h' \<and> nat_destroyed (snd h') \<noteq> 0 \<and>
    session_close h' = Some h' \<and> engine_start create why settings h' = (Inl SessionClosed, h') \<and>
    session_start_net_log started path h' = (Inl SessionClosed, h') \<and>
    session_stop_net_log h' = (Inl SessionClosed, h')"
proof -
  obtain h' where h: "engine_close (e, n) = Some h'" by (simp add: close_idle [OF assms(2)])
  obtain e' n' where p: "h' = (e', n')" by (metis prod.exhaust)
  have shut: "\<not> eng_open e'" "nat_destroyed n' \<noteq> 0"
    using h assms(3) by (auto simp: p close_idle [OF assms(2)] run_finalizer_def native_cancel_def split: if_splits)
  then have claimed: "claim e' = Inl SessionClosed" by (simp add: claim_def)
  have "engine_start create why settings h' = (Inl SessionClosed, h')"
    by (simp add: p engine_start_def claimed split: prod.splits)
  moreover have "session_close h' = Some h'" by (simp add: p session_close_def closed_close shut(1))
  ultimately show ?thesis
    using h shut claimed assms(1)
    by (auto simp: p with_session_def session_close_def session_closed_def engine_closed_def
        session_start_net_log_def session_stop_net_log_def start_net_log_def stop_net_log_def)
qed

text \<open>The steps of the other threads, while one thread does not let go of its call.\<close>

definition moves_around :: "nat \<Rightarrow> nat \<Rightarrow> system \<Rightarrow> system \<Rightarrow> bool" where
  "moves_around t c s s' \<longleftrightarrow> engine_step s s' \<and> snd (snd s') t = Owning c"

lemma owned_blocks:
  assumes "engine_run (e, n, ts)" and "ts t = Owning c"
  shows "\<not> may_finish e" and "nat_destroyed n = 0" and "ts u \<noteq> Finalizing"
proof -
  have inv: "engine_inv (e, n, ts)" by (rule engine_run_inv [OF assms(1)])
  have t: "t \<in> holders ts" using assms(2) by (simp add: places_in)
  moreover have "finite (holders ts)"
    using inv by (simp add: engine_inv_def claims_counted_def holders_finite)
  ultimately have "card (holders ts) \<noteq> 0" by auto
  with inv show "\<not> may_finish e" by (simp add: engine_inv_def claims_counted_def may_finish_def)
  show "nat_destroyed n = 0" using inv t by (auto simp: engine_inv_def closed_in_order_def split: if_splits)
  show "ts u \<noteq> Finalizing"
    using inv t by (auto simp: engine_inv_def closed_in_order_def places_def split: if_splits)
qed

lemma keeps_waiting:
  assumes "engine_step (e, n, ts) (e', n', ts')" and "\<not> may_finish e" and "ts u = Waiting"
  shows "ts' u = Waiting"
  using assms by (cases rule: engine_step.cases) auto



text \<open>On one thread: \<open>close\<close> returns once the call was closed before it, and not otherwise.\<close>

lemma close_order:
  assumes "engine_start create why settings (e, n) = (Inr c, (e', n'))" and "eng_in_flight e = 0"
  shows "session_close (e', n') = None" and "\<exists>h. session_close (free_call c (e', n')) = Some h \<and> session_closed h"
proof -
  obtain req mem keep where b: "build_request settings = (req, mem, keep)" by (metis prod_cases3)
  have s: "eng_open e'" "eng_in_flight e' = 1"
    using assms by (auto simp: b engine_start_def claim_def register_def split: if_splits option.splits)
  show "session_close (e', n') = None" by (simp add: session_close_def close_busy s)
  have "eng_in_flight (release_claim (discard c e')) = 0" by (simp add: release_claim_def discard_def s(2))
  from close_idle [OF this, of "native_free c n'"]
  show "\<exists>h. session_close (free_call c (e', n')) = Some h \<and> session_closed h"
    by (auto simp: session_close_def free_call_def session_closed_def engine_closed_def)
qed

section \<open>Streams and the jar\<close>

text \<open>
  A stream sends what the jar holds, as every call does, and stores nothing of what its response
  sets: the jar afterwards is the one that composing the call left.
\<close>

theorem stream_stores_nothing:
  assumes "session_stream fuel sv ses verb url opts cookies = Some (r, events, after)"
  shows "after = (case target url opts of
      Inl e \<Rightarrow> cookies
    | Inr t \<Rightarrow> snd (build_call (sv_backends sv) (sv_draw sv 0) verb t opts (ses_headers ses) cookies
        (redirect_limit ses opts)))"
  using assms by (auto simp: session_stream_def split: sum.splits prod.splits option.splits)

end
