(* ===== verification/Streaming.thy ===== *)
theory Streaming
  imports SessionLife
begin

text \<open>
  \<open>Call.iter_body\<close> as the generator it is, and the block of \<open>Session.stream\<close> that pulls pieces from
  it. A \<open>generator\<close> is where the code is suspended: not started, at its \<open>yield\<close> with the deadline of
  the countdown and the milliseconds that were left when the round began, or ended. \<open>next_piece\<close> is
  one \<open>next()\<close>, \<open>pulls\<close> a consumer that takes at most \<open>n\<close> pieces.

  Pulling to the end is proved to be the loop \<open>iter_body\<close> of the theory Bridge, so what is known of
  the loop holds for every consumer. A call that has been freed is the state \<open>Freed\<close>, and an
  operation on it leads to \<open>Corrupt\<close>.
\<close>

section \<open>The generator\<close>

datatype generator = Unstarted int | Suspended "rat option" int | Exhausted

datatype pull = Yields bytes | Stops | TimesOut

text \<open>
  From the head of a round, or with the milliseconds of this round from the read in it. The round
  ends where nothing is buffered, with a wait for what is left of the time.
\<close>

fun resume ::
  "nat \<Rightarrow> 's call_lib \<Rightarrow> 's env \<Rightarrow> rat option \<Rightarrow> int option \<Rightarrow> 's world \<Rightarrow>
    (pull \<times> generator \<times> 's world) option" where
  "resume 0 lib E deadline m w = None"
| "resume (Suc fuel) lib E deadline None w =
     (case countdown deadline E w of
        (None, w) \<Rightarrow> Some (TimesOut, Exhausted, w)
      | (Some remaining, w) \<Rightarrow> resume fuel lib E deadline (Some remaining) (drain lib E w))"
| "resume (Suc fuel) lib E deadline (Some remaining) w =
     (case act E (piece lib) w of
        (None, w) \<Rightarrow> Some (Stops, Exhausted, w)
      | (Some b, w) \<Rightarrow>
          if b \<noteq> [] then Some (Yields b, Suspended deadline remaining, w)
          else
            (case wait_for_progress fuel lib E remaining w of
               None \<Rightarrow> None
             | Some (ready, w) \<Rightarrow>
                 if ready then resume fuel lib E deadline None w else Some (TimesOut, Exhausted, w)))"

definition next_piece ::
  "nat \<Rightarrow> 's call_lib \<Rightarrow> 's env \<Rightarrow> generator \<Rightarrow> 's world \<Rightarrow> (pull \<times> generator \<times> 's world) option" where
  "next_piece fuel lib E g w =
     (case g of
        Unstarted ms \<Rightarrow>
          (case start_countdown ms E w of (deadline, w) \<Rightarrow> resume fuel lib E deadline None w)
      | Suspended deadline remaining \<Rightarrow> resume fuel lib E deadline (Some remaining) w
      | Exhausted \<Rightarrow> Some (Stops, Exhausted, w))"

text \<open>A consumer: the pieces it got, how the iteration ended if it did, and the generator it leaves.\<close>

type_synonym 's pulled = "(bytes list \<times> body_end option \<times> generator \<times> 's world) option"

definition took ::
  "(generator \<Rightarrow> 's world \<Rightarrow> 's pulled) \<Rightarrow> (pull \<times> generator \<times> 's world) option \<Rightarrow> 's pulled" where
  "took others r =
     (case r of
        None \<Rightarrow> None
      | Some (Yields b, g, w) \<Rightarrow> map_option (\<lambda>(bs, out, g, w). (b # bs, out, g, w)) (others g w)
      | Some (Stops, g, w) \<Rightarrow> Some ([], Some Ended, g, w)
      | Some (TimesOut, g, w) \<Rightarrow> Some ([], Some TimedOut, g, w))"

primrec pulls :: "nat \<Rightarrow> nat \<Rightarrow> 's call_lib \<Rightarrow> 's env \<Rightarrow> generator \<Rightarrow> 's world \<Rightarrow> 's pulled" where
  "pulls 0 fuel lib E g w = Some ([], None, g, w)"
| "pulls (Suc n) fuel lib E g w = took (pulls n fuel lib E) (next_piece fuel lib E g w)"

lemma took_simps [simp]:
  "took others None = None"
  "took others (Some (Yields b, g, w)) = map_option (\<lambda>(bs, out, g, w). (b # bs, out, g, w)) (others g w)"
  "took others (Some (Stops, g, w)) = Some ([], Some Ended, g, w)"
  "took others (Some (TimesOut, g, w)) = Some ([], Some TimedOut, g, w)"
  by (simp_all add: took_def)

section \<open>More fuel changes nothing\<close>

lemma poll_more: "poll f lib E limit w = Some r \<Longrightarrow> f \<le> F \<Longrightarrow> poll F lib E limit w = Some r"
proof (induction f arbitrary: F w)
  case (Suc f)
  then obtain F' where F: "F = Suc F'" "f \<le> F'" by (cases F) auto
  show ?case
    using Suc.prems(1) Suc.IH [OF _ F(2)] by (auto simp: F(1) split: prod.splits option.splits if_splits)
qed simp

lemma wait_more:
  "wait_for_progress f lib E ms w = Some r \<Longrightarrow> f \<le> F \<Longrightarrow> wait_for_progress F lib E ms w = Some r"
  unfolding wait_for_progress_def by (rule poll_more)

lemma resume_more: "resume f lib E d m w = Some r \<Longrightarrow> f \<le> F \<Longrightarrow> resume F lib E d m w = Some r"
proof (induction f arbitrary: F m w)
  case (Suc f)
  then obtain F' where F: "F = Suc F'" "f \<le> F'" by (cases F) auto
  note more = Suc.IH [OF _ F(2)]
  show ?case
  proof (cases m)
    case None
    obtain left w1 where c: "countdown d E w = (left, w1)" by (cases "countdown d E w")
    show ?thesis
    proof (cases left)
      case (Some t)
      with Suc.prems(1) more [of "Some t" "drain lib E w1"] show ?thesis by (simp add: F(1) None c)
    qed (use Suc.prems(1) in \<open>simp add: F(1) None c\<close>)
  next
    case (Some t)
    obtain a w1 where a: "act E (piece lib) w = (a, w1)" by (cases "act E (piece lib) w")
    show ?thesis
    proof (cases "a = Some []")
      case True
      then obtain ready w2 where wt: "wait_for_progress f lib E t w1 = Some (ready, w2)"
        using Suc.prems(1) by (auto simp: Some a split: option.splits)
      with Suc.prems(1) wait_more [OF wt F(2)] more [of None w2] show ?thesis
        by (simp add: F(1) Some a True split: if_splits)
    qed (use Suc.prems(1) in \<open>simp add: F(1) Some a split: option.splits\<close>)
  qed
qed simp

section \<open>Pulling to the end is the loop\<close>

text \<open>A round that found nothing more to read.\<close>

definition dry_round ::
  "nat \<Rightarrow> 's call_lib \<Rightarrow> 's env \<Rightarrow> rat option \<Rightarrow> int \<Rightarrow> 's world \<Rightarrow> (pull \<times> generator \<times> 's world) option" where
  "dry_round fuel lib E deadline remaining w =
     (case wait_for_progress fuel lib E remaining w of
        None \<Rightarrow> None
      | Some (ready, w) \<Rightarrow>
          if ready then resume fuel lib E deadline None w else Some (TimesOut, Exhausted, w))"

lemma dry_more: "dry_round f lib E d r w = Some x \<Longrightarrow> f \<le> F \<Longrightarrow> dry_round F lib E d r w = Some x"
proof -
  assume r: "dry_round f lib E d r w = Some x" and le: "f \<le> F"
  then obtain ready w2 where wt: "wait_for_progress f lib E r w = Some (ready, w2)"
    by (auto simp: dry_round_def split: option.splits)
  show ?thesis
    using r resume_more [OF _ le, of lib E d None w2 x] by (simp add: dry_round_def wt wait_more [OF wt le] split: if_splits)
qed

lemma resume_read:
  "resume (Suc f) lib E d (Some r) w =
     (case act E (piece lib) w of
        (None, w) \<Rightarrow> Some (Stops, Exhausted, w)
      | (Some b, w) \<Rightarrow> if b \<noteq> [] then Some (Yields b, Suspended d r, w) else dry_round f lib E d r w)"
  unfolding dry_round_def by (rule resume.simps(3))

declare resume.simps(3) [simp del]

abbreviation prepend :: "bytes list \<Rightarrow> 's pulled \<Rightarrow> 's pulled" where
  "prepend ps \<equiv> map_option (\<lambda>(bs, out, g, w). (ps @ bs, out, g, w))"

lemma prepend_Cons: "map_option (\<lambda>(bs, y). (b # bs, y)) (map_option (\<lambda>(bs, y). (ps @ bs, y)) x) =
    map_option (\<lambda>(bs, y). (b # ps @ bs, y)) x"
  by (cases x) auto

lemma through_pieces:
  assumes "take_pieces fuel lib E w = Some (ps, False, w1)" and "dry_round f0 lib E d r w1 = Some x"
    and "f0 < f" and "f0 < F" and "length ps \<le> n"
  shows "took (pulls n F lib E) (resume f lib E d (Some r) w) =
    prepend ps (took (pulls (n - length ps) F lib E) (Some x))"
  using assms(1,3,5)
proof (induction fuel arbitrary: w ps f n)
  case (Suc fuel)
  obtain f' where f: "f = Suc f'" "f0 \<le> f'" using Suc.prems(2) by (cases f) auto
  obtain b w2 where b: "act E (piece lib) w = (Some b, w2)"
    using Suc.prems(1) by (auto split: prod.splits option.splits)
  show ?case
  proof (cases "b = []")
    case True
    then have "ps = []" "w2 = w1" using Suc.prems(1) b by simp_all
    with True show ?thesis
      using dry_more [OF assms(2) f(2)] by (cases "took (pulls n F lib E) (Some x)") (auto simp: f(1) resume_read b)
  next
    case False
    then obtain qs where qs: "take_pieces fuel lib E w2 = Some (qs, False, w1)" "ps = b # qs"
      using Suc.prems(1) b by (auto split: option.splits)
    then obtain n' where n: "n = Suc n'" "length qs \<le> n'" using Suc.prems(3) by (cases n) auto
    show ?thesis
      using Suc.IH [OF qs(1) assms(4) n(2)] False
      by (simp add: f(1) resume_read b qs(2) n(1) next_piece_def prepend_Cons)
  qed
qed simp

lemma through_last:
  assumes "take_pieces fuel lib E w = Some (ps, True, w1)" and "0 < f" and "0 < F" and "length ps \<le> n"
  shows "took (pulls n F lib E) (resume f lib E d (Some r) w) = Some (ps, Some Ended, Exhausted, w1)"
  using assms(1,2,4)
proof (induction fuel arbitrary: w ps f n)
  case (Suc fuel)
  obtain f' where f: "f = Suc f'" using Suc.prems(2) by (cases f) auto
  obtain a w2 where a: "act E (piece lib) w = (a, w2)" by (cases "act E (piece lib) w")
  show ?case
  proof (cases a)
    case None
    with Suc.prems(1) a show ?thesis by (auto simp: f resume_read)
  next
    case (Some b)
    then have b: "b \<noteq> []" using Suc.prems(1) a by (cases "b = []") simp_all
    then obtain qs where qs: "take_pieces fuel lib E w2 = Some (qs, True, w1)" "ps = b # qs"
      using Suc.prems(1) a Some by (auto split: option.splits)
    then obtain n' where n: "n = Suc n'" "length qs \<le> n'" using Suc.prems(3) by (cases n) auto
    show ?thesis
      using Suc.IH [OF qs(1) assms(3) n(2)] b by (simp add: f resume_read a Some qs(2) n(1) next_piece_def)
  qed
qed simp

lemma pulls_body_loop:
  assumes "body_loop fuel lib E d w = Some (ps, out, w')" and "2 * fuel \<le> f" and "2 * fuel \<le> F" and "length ps \<le> n"
  shows "took (pulls n F lib E) (resume f lib E d None w) = Some (ps, Some out, Exhausted, w')"
  using assms
proof (induction fuel arbitrary: w ps f n)
  case (Suc fuel)
  then obtain f' where f: "f = Suc (Suc f')" "2 * fuel \<le> f'" by (cases f; cases "f - 1") auto
  have F: "2 * fuel < F" using Suc.prems(3) by simp
  obtain m w1 where m: "countdown d E w = (m, w1)" by (cases "countdown d E w")
  show ?case
  proof (cases m)
    case None
    with Suc.prems(1) m show ?thesis by (auto simp: f(1))
  next
    case (Some r)
    obtain qs ended w2 where t: "take_pieces fuel lib E (drain lib E w1) = Some (qs, ended, w2)"
      using Suc.prems(1) m Some by (auto split: option.splits)
    have start: "resume f lib E d None w = resume (Suc f') lib E d (Some r) (drain lib E w1)"
      by (simp add: f(1) m Some)
    show ?thesis
    proof (cases ended)
      case True
      then have "ps = qs" "out = Ended" "w' = w2" using Suc.prems(1) m Some t by simp_all
      moreover have "take_pieces fuel lib E (drain lib E w1) = Some (qs, True, w2)" using t True by simp
      note last = through_last [OF this zero_less_Suc]
      have "0 < F" using F by simp
      ultimately show ?thesis using last [of F n] Suc.prems(4) by (simp add: start)
    next
      case False
      obtain ready w3 where wt: "wait_for_progress fuel lib E r w2 = Some (ready, w3)"
        using Suc.prems(1) m Some t False by (auto split: option.splits)
      note wt2 = wait_more [OF wt, of "2 * fuel", simplified]
      have t': "take_pieces fuel lib E (drain lib E w1) = Some (qs, False, w2)" using t False by simp
      have f': "2 * fuel < Suc f'" using f(2) by simp
      note pieces = through_pieces [OF t' _ f' F]
      show ?thesis
      proof (cases ready)
        case False
        then have "ps = qs" "out = TimedOut" "w' = w3" using Suc.prems(1) m Some t wt \<open>\<not> ended\<close> by simp_all
        moreover have "dry_round (2 * fuel) lib E d r w2 = Some (TimesOut, Exhausted, w3)"
          by (simp add: dry_round_def wt2 False)
        ultimately show ?thesis
          using pieces Suc.prems(4) by (simp add: start)
      next
        case True
        then obtain ps' where ps': "body_loop fuel lib E d w3 = Some (ps', out, w')" "ps = qs @ ps'"
          using Suc.prems(1) m Some t wt \<open>\<not> ended\<close> by (auto split: option.splits)
        have "length ps' \<le> n - length qs" using Suc.prems(4) ps'(2) by simp
        from Suc.IH [OF ps'(1) order_refl _ this] F
        have rest: "took (pulls (n - length qs) F lib E) (resume (2 * fuel) lib E d None w3) =
            Some (ps', Some out, Exhausted, w')" by simp
        then obtain x where x: "resume (2 * fuel) lib E d None w3 = Some x"
          by (cases "resume (2 * fuel) lib E d None w3") auto
        then have "dry_round (2 * fuel) lib E d r w2 = Some x" by (simp add: dry_round_def wt2 True)
        then show ?thesis
          using pieces Suc.prems(4) rest by (simp add: start x ps'(2))
      qed
    qed
  qed
qed simp

lemma pulls_iter_body:
  assumes "iter_body fuel lib E ms w = Some (ps, out, w')" and "2 * fuel \<le> F" and "length ps < n"
  shows "pulls n F lib E (Unstarted ms) w = Some (ps, Some out, Exhausted, w')"
proof -
  obtain d w1 where d: "start_countdown ms E w = (d, w1)" by (cases "start_countdown ms E w")
  obtain n' where n: "n = Suc n'" "length ps \<le> n'" using assms(3) by (cases n) auto
  have "body_loop fuel lib E d w1 = Some (ps, out, w')" using assms(1) by (simp add: iter_body_def d)
  from pulls_body_loop [OF this assms(2,2) n(2)] show ?thesis by (simp add: n(1) next_piece_def d)
qed

lemma resume_yields: "resume f lib E d m w = Some (Yields b, g, w') \<Longrightarrow> \<exists>r. g = Suspended d r"
proof (induction f arbitrary: m w)
  case (Suc f)
  then show ?case
    by (cases m) (auto simp: resume_read dry_round_def split: prod.splits option.splits if_splits)
qed simp

lemma next_yields: "next_piece f lib E g w = Some (Yields b, g', w') \<Longrightarrow> \<exists>d r. g' = Suspended d r"
  by (auto simp: next_piece_def split: generator.splits prod.splits dest: resume_yields)

lemma pulls_prefix:
  assumes "pulls n F lib E g w = Some (ps, o', g', w')" and "m \<le> length ps"
  shows "\<exists>g1 w1. pulls m F lib E g w = Some (take m ps, None, g1, w1) \<and> (m = 0 \<or> (\<exists>d r. g1 = Suspended d r))"
  using assms
proof (induction n arbitrary: g w ps m)
  case (Suc n)
  show ?case
  proof (cases m)
    case (Suc m')
    with Suc.prems obtain b g2 w2 qs where b: "next_piece F lib E g w = Some (Yields b, g2, w2)"
      "pulls n F lib E g2 w2 = Some (qs, o', g', w')" "ps = b # qs"
      by (auto simp: took_def split: option.splits pull.splits)
    obtain d r where g2: "g2 = Suspended d r" using next_yields [OF b(1)] by blast
    from Suc.IH [OF b(2), of m'] Suc Suc.prems(2) b(3)
    obtain g1 w1 where g1: "pulls m' F lib E g2 w2 = Some (take m' qs, None, g1, w1)"
      "m' = 0 \<or> (\<exists>d r. g1 = Suspended d r)" by auto
    have "\<exists>d r. g1 = Suspended d r" using g1 g2 by (cases m') auto
    with g1(1) show ?thesis by (simp add: Suc b(1,3))
  qed simp
qed simp

lemma pulls_some:
  assumes "iter_body fuel lib E ms w = Some (ps, out, w')" and "n \<le> length ps"
  shows "\<exists>g w1. pulls n (2 * fuel) lib E (Unstarted ms) w = Some (take n ps, None, g, w1) \<and> g \<noteq> Exhausted"
proof (cases n)
  case (Suc n')
  from pulls_prefix [OF pulls_iter_body [OF assms(1) order_refl lessI] assms(2)] Suc show ?thesis by auto
qed simp



section \<open>Leaving a stream early\<close>

text \<open>
  \<open>Session.stream\<close> with a block that pulls at most \<open>n\<close> pieces and leaves: what it got stands beside
  the result, when the block was entered at all.
\<close>

definition stream_block ::
  "nat \<Rightarrow> nat \<Rightarrow> 's call_lib \<Rightarrow> 's env \<Rightarrow> (rat option \<Rightarrow> ustr) \<Rightarrow> session \<Rightarrow> string \<Rightarrow> request_options \<Rightarrow> 's \<Rightarrow>
    ((exn + response) \<times> 's world \<times> life list \<times> (bytes list \<times> body_end option \<times> generator) option) option" where
  "stream_block n fuel lib E seconds ses url opts s =
     (let limit = timeout_ms ses opts;
          late = timed_out seconds ses url opts;
          leave = (\<lambda>r got w. map_option (\<lambda>(r, w, events). (r, w, events, got)) (release fuel lib E r w)) in
      case wait_for_headers fuel lib E limit (0, s) of
        None \<Rightarrow> None
      | Some (there, w) \<Rightarrow>
          if \<not> there then leave (Inl late) None w
          else
            (case finished_response lib E ses url [] w of
               (Inl e, w) \<Rightarrow> leave (Inl e) None w
             | (Inr r, w) \<Rightarrow>
                 (case pulls n fuel lib E (Unstarted limit) w of
                    None \<Rightarrow> None
                  | Some (bs, out, g, w) \<Rightarrow> leave (Inr r) (Some (bs, out, g)) w)))"

lemma headers_more: "headers_loop f lib E d w = Some r \<Longrightarrow> f \<le> F \<Longrightarrow> headers_loop F lib E d w = Some r"
proof (induction f arbitrary: F w)
  case (Suc f)
  then obtain F' where F: "F = Suc F'" "f \<le> F'" by (cases F) auto
  obtain left w1 where c: "countdown d E w = (left, w1)" by (cases "countdown d E w")
  obtain p w2 where p: "state_of lib E (drain lib E w1) = (p, w2)" by (cases "state_of lib E (drain lib E w1)")
  show ?case
  proof (cases left)
    case (Some t)
    show ?thesis
    proof (cases "p = Started")
      case True
      then obtain ready w3 where wt: "wait_for_progress f lib E t w2 = Some (ready, w3)"
        using Suc.prems(1) by (auto simp: c Some p split: option.splits)
      with Suc.prems(1) wait_more [OF wt F(2)] Suc.IH [OF _ F(2), of w3] show ?thesis
        by (simp add: F(1) c Some p True split: if_splits)
    qed (use Suc.prems(1) in \<open>simp add: F(1) c Some p\<close>)
  qed (use Suc.prems(1) in \<open>simp add: F(1) c\<close>)
qed simp

lemma release_returns:
  "0 < fuel \<Longrightarrow> \<exists>w' events. release fuel lib E r w = Some (r, w', events) \<and>
     events \<in> {[CallStarted, CallClosed], [CallStarted, CallCancelled, CallClosed]}"
  by (cases fuel) (auto simp: release_def wait_call_def split: prod.split)


lemma small_stream:
  "\<exists>r w' events. stream_call 12 native_lib (small_net True) seconds small_session url no_options (fresh_call [104]) =
      Some (Inr r, w', events) \<and> stream r = Some (BodyStream [[1, 2, 3]] False)"
proof -
  have w: "wait_call 12 native_lib (small_net True) 0 (6, small_read True) = Some (True, (7, small_read True))"
    by (simp add: wait_call_def eval_nat_numeral small_steps small_read_facts)
  show ?thesis
    by (simp add: stream_call_def small_timeout small_headers small_results small_responses small_body
        finished_response_def checked_def release_def w small_lenient Let_def)
qed


section \<open>How long a round waits\<close>

definition clock_runs :: "'s env \<Rightarrow> bool" where
  "clock_runs E \<longleftrightarrow> mono (clock E)"

text \<open>What a suspended generator holds, when it was started at operation \<open>k0\<close>.\<close>

definition wait_in_bounds :: "'s env \<Rightarrow> int \<Rightarrow> nat \<Rightarrow> rat option \<Rightarrow> int \<Rightarrow> bool" where
  "wait_in_bounds E ms k0 deadline remaining \<longleftrightarrow>
     (if ms < 0 then deadline = None \<and> remaining = -1
      else deadline = Some (clock E k0 + of_int ms) \<and> 0 < remaining \<and> remaining \<le> ms)"

lemma act_ticks: "fst (snd (act E f w)) = Suc (fst w)"
  by (simp add: act_def split: prod.splits)

lemma drain_ticks: "fst (drain lib E w) = Suc (fst w)"
  by (simp add: drain_def act_ticks)

lemma poll_ticks: "poll f lib E limit w = Some (r, w') \<Longrightarrow> fst w \<le> fst w'"
proof (induction f arbitrary: w)
  case (Suc f)
  obtain ready w1 where a: "act E (\<lambda>s. (lib_readable lib s, s)) w = (ready, w1)" by (metis surj_pair)
  then have "fst w1 = Suc (fst w)" using act_ticks [of E "\<lambda>s. (lib_readable lib s, s)" w] by simp
  with Suc.prems Suc.IH [of w1] a show ?case by (auto split: option.splits if_splits)
qed simp

lemma countdown_ticks: "countdown d E w = (m, w') \<Longrightarrow> fst w \<le> fst w'"
  by (cases w) (auto simp: countdown_def now_def act_def Let_def split: option.splits prod.splits)

lemma truncated_le: "x \<le> of_int n \<Longrightarrow> 0 \<le> n \<Longrightarrow> truncated x \<le> n"
  by (auto simp: truncated_def floor_le_iff le_floor_iff) linarith+

lemma countdown_bounded:
  assumes "countdown (if ms < 0 then None else Some (clock E k0 + of_int ms)) E w = (Some r, w')"
    and "clock_runs E" and "k0 \<le> fst w"
  shows "wait_in_bounds E ms k0 (if ms < 0 then None else Some (clock E k0 + of_int ms)) r"
proof (cases "ms < 0")
  case True
  then show ?thesis using assms(1) by (simp add: countdown_def wait_in_bounds_def)
next
  case False
  have r: "r = truncated (clock E k0 + of_int ms - clock E (fst w))" "0 < r"
    using assms(1) False
    by (auto simp: countdown_def now_def act_def Let_def split: if_splits prod.splits)
  have "clock E k0 \<le> clock E (fst w)" using assms(2,3) by (simp add: clock_runs_def monoD)
  then have "r \<le> ms" using False unfolding r(1) by (intro truncated_le) simp_all
  with r(2) False show ?thesis by (simp add: wait_in_bounds_def)
qed

lemma resume_bounded:
  assumes "resume f lib E d m w = Some (p, g, w')" and "d = (if ms < 0 then None else Some (clock E k0 + of_int ms))"
    and "clock_runs E" and "k0 \<le> fst w" and "case m of None \<Rightarrow> True | Some r \<Rightarrow> wait_in_bounds E ms k0 d r"
  shows "k0 \<le> fst w' \<and> (case g of Suspended d' r \<Rightarrow> d' = d \<and> wait_in_bounds E ms k0 d' r | _ \<Rightarrow> g = Exhausted)"
  using assms(1,4,5)
proof (induction f arbitrary: m w)
  case (Suc f)
  show ?case
  proof (cases m)
    case None
    obtain left w1 where c: "countdown d E w = (left, w1)" by (cases "countdown d E w")
    have k: "k0 \<le> fst w1" using countdown_ticks [OF c] Suc.prems(2) by simp
    show ?thesis
    proof (cases left)
      case (Some t)
      have "wait_in_bounds E ms k0 d t"
        using countdown_bounded [OF _ assms(3) Suc.prems(2), of ms t w1] c Some assms(2) by simp
      with Suc.IH [of "Some t" "drain lib E w1"] Suc.prems(1) k show ?thesis
        by (simp add: None c Some drain_ticks)
    qed (use Suc.prems(1) k in \<open>auto simp: None c\<close>)
  next
    case (Some t)
    obtain a w1 where a: "act E (piece lib) w = (a, w1)" by (cases "act E (piece lib) w")
    then have k: "k0 \<le> fst w1" using act_ticks [of E "piece lib" w] Suc.prems(2) by simp
    show ?thesis
    proof (cases "a = Some []")
      case True
      then obtain ready w2 where wt: "wait_for_progress f lib E t w1 = Some (ready, w2)"
        using Suc.prems(1) by (auto simp: Some a resume_read dry_round_def split: option.splits)
      have "k0 \<le> fst w2" using poll_ticks wt k unfolding wait_for_progress_def by fastforce
      with Suc.prems(1) Suc.IH [of None w2] show ?thesis
        by (auto simp: Some a resume_read dry_round_def True wt split: if_splits)
    qed (use Suc.prems(1,3) k in \<open>auto simp: Some a resume_read split: option.splits\<close>)
  qed
qed simp

definition in_bounds :: "'s env \<Rightarrow> int \<Rightarrow> nat \<Rightarrow> generator \<Rightarrow> nat \<Rightarrow> bool" where
  "in_bounds E ms k0 g k \<longleftrightarrow>
     (case g of
        Unstarted t \<Rightarrow> t = ms \<and> k = k0
      | Suspended d r \<Rightarrow> k0 \<le> k \<and> wait_in_bounds E ms k0 d r
      | Exhausted \<Rightarrow> True)"

lemma next_bounded:
  assumes "next_piece f lib E g w = Some (p, g', w')" and "clock_runs E" and "in_bounds E ms k0 g (fst w)"
  shows "in_bounds E ms k0 g' (fst w')"
proof -
  have step: "in_bounds E ms k0 g' (fst w')"
    if "resume f lib E (if ms < 0 then None else Some (clock E k0 + of_int ms)) m w1 = Some (p, g', w')"
      and "k0 \<le> fst w1"
      and "case m of None \<Rightarrow> True
        | Some r \<Rightarrow> wait_in_bounds E ms k0 (if ms < 0 then None else Some (clock E k0 + of_int ms)) r" for m w1
    using resume_bounded [OF that(1) refl assms(2) that(2,3)] by (auto simp: in_bounds_def split: generator.splits)
  show ?thesis
  proof (cases g)
    case (Unstarted t)
    obtain d w1 where sc: "start_countdown t E w = (d, w1)" by (cases "start_countdown t E w")
    have "d = (if ms < 0 then None else Some (clock E k0 + of_int ms))" "k0 \<le> fst w1"
      using sc assms(3) Unstarted
      by (auto simp: in_bounds_def start_countdown_def now_def act_def split: if_splits prod.splits)
    then show ?thesis using step [of None w1] assms(1) Unstarted sc by (simp add: next_piece_def)
  next
    case (Suspended d r)
    then have "d = (if ms < 0 then None else Some (clock E k0 + of_int ms))"
      using assms(3) by (simp add: in_bounds_def wait_in_bounds_def split: if_splits)
    then show ?thesis
      using step [of "Some r" w] assms(1,3) Suspended by (simp add: next_piece_def in_bounds_def)
  next
    case Exhausted
    then show ?thesis using assms(1) by (simp add: next_piece_def in_bounds_def)
  qed
qed

lemma pulls_bounded:
  "pulls n f lib E g w = Some (ps, out, g', w') \<Longrightarrow> clock_runs E \<Longrightarrow> in_bounds E ms k0 g (fst w) \<Longrightarrow>
     in_bounds E ms k0 g' (fst w')"
proof (induction n arbitrary: g w ps)
  case (Suc n)
  from Suc.prems(1) obtain p g2 w2 where np: "next_piece f lib E g w = Some (p, g2, w2)"
    by (auto simp: took_def split: option.splits)
  note b = next_bounded [OF np Suc.prems(2,3)]
  show ?case
  proof (cases p)
    case (Yields x)
    then obtain qs where "pulls n f lib E g2 w2 = Some (qs, out, g', w')"
      using Suc.prems(1) np by auto
    from Suc.IH [OF this Suc.prems(2) b] show ?thesis .
  qed (use Suc.prems(1) np b in auto)
qed simp

text \<open>C10. No round waits for ever by mistake: over a clock that does not go back, wherever a consumer stops,
  what the generator will wait for next is a positive number of milliseconds and no more than the
  timeout, against a deadline that was fixed when the iteration began; -1, which means for ever, is
  used exactly when no timeout was given.\<close>

theorem waits_stay_bounded:
  assumes "pulls n fuel lib E (Unstarted ms) (k0, s) = Some (ps, out, Suspended deadline remaining, w')"
    and "clock_runs E"
  shows "if ms < 0 then deadline = None \<and> remaining = -1
    else deadline = Some (clock E k0 + of_int ms) \<and> 0 < remaining \<and> remaining \<le> ms"
  using pulls_bounded [OF assms, of ms k0] by (simp add: in_bounds_def wait_in_bounds_def)

text \<open>A call that hands out a list of pieces, for concrete runs; its clock advances a millisecond an operation.\<close>

definition list_lib :: "bytes list call_lib" where
  "list_lib = \<lparr>lib_read = (\<lambda>n s. case s of [] \<Rightarrow> (ReadEOF, []) | b # bs \<Rightarrow> (ReadBytes b, bs)), lib_state = (\<lambda>s. Finished),
     lib_drain = id, lib_readable = (\<lambda>s. True), lib_cancel = id, lib_response = (\<lambda>s. None)\<rparr>"

definition steady :: "bytes list env" where
  "steady = \<lparr>net = (\<lambda>k s. s), clock = of_nat\<rparr>"

lemma steady_clock: "clock_runs steady"
  by (simp add: clock_runs_def steady_def mono_def)

lemma list_run:
  "pulls (Suc 0) (Suc (Suc 0)) list_lib steady (Unstarted 250) (0, [[1, 2], [3]]) =
     Some ([[1, 2]], None, Suspended (Some 250) 249, (4, [[3]]))"
proof -
  have start: "start_countdown 250 steady (0, [[1, 2], [3]]) = (Some 250, (Suc 0, [[1, 2], [3]]))"
    by (simp add: start_countdown_def now_def act_def steady_def)
  have left: "countdown (Some 250) steady (Suc 0, [[1, 2], [3]]) = (Some 249, (2, [[1, 2], [3]]))"
    by (simp add: countdown_def now_def act_def steady_def truncated_def Let_def)
  have "act steady (piece list_lib) (3, [[1, 2], [3]]) = (Some [1, 2], (4, [[3]]))"
    by (simp add: act_def piece_def list_lib_def steady_def)
  moreover have "drain list_lib steady (2, [[1, 2], [3]]) = (3, [[1, 2], [3]])"
    by (simp add: drain_def act_def list_lib_def steady_def)
  ultimately show ?thesis by (simp add: next_piece_def start left resume_read)
qed

theorem waits_stay_bounded_witness:
  "(if (250 :: int) < 0 then Some (250 :: rat) = None \<and> (249 :: int) = -1
    else Some 250 = Some (clock steady 0 + of_int 250) \<and> 0 < (249 :: int) \<and> (249 :: int) \<le> 250)"
  by (rule waits_stay_bounded [OF list_run steady_clock])

section \<open>After the block\<close>

text \<open>
  The memory of a native call: a live call, one that has been freed, or the result of an operation on
  a call that was not there. \<open>guard\<close> is a library whose calls can be freed; the network has no
  part in a call that is gone. Every round of an iteration starts with an operation that shows in
  the state, so what the pure operations answer for a freed call does not matter.
\<close>

datatype 's slot = Live 's | Freed | Corrupt

definition guard :: "'s call_lib \<Rightarrow> 's slot call_lib" where
  "guard lib = \<lparr>
     lib_read = (\<lambda>n s. case s of
         Live x \<Rightarrow> (case lib_read lib n x of (r, x) \<Rightarrow> (r, Live x)) | _ \<Rightarrow> (ReadEOF, Corrupt)),
     lib_state = (\<lambda>s. case s of Live x \<Rightarrow> lib_state lib x | _ \<Rightarrow> Started),
     lib_drain = (\<lambda>s. case s of Live x \<Rightarrow> Live (lib_drain lib x) | _ \<Rightarrow> Corrupt),
     lib_readable = (\<lambda>s. case s of Live x \<Rightarrow> lib_readable lib x | _ \<Rightarrow> True),
     lib_cancel = (\<lambda>s. case s of Live x \<Rightarrow> Live (lib_cancel lib x) | _ \<Rightarrow> Corrupt),
     lib_response = (\<lambda>s. case s of Live x \<Rightarrow> lib_response lib x | _ \<Rightarrow> None)\<rparr>"

definition guard_env :: "'s env \<Rightarrow> 's slot env" where
  "guard_env E = \<lparr>net = (\<lambda>k s. case s of Live x \<Rightarrow> Live (net E k x) | s \<Rightarrow> s), clock = clock E\<rparr>"

definition free_slot :: "'s slot \<Rightarrow> 's slot" where
  "free_slot s = (case s of Live x \<Rightarrow> Freed | _ \<Rightarrow> Corrupt)"

definition live_world :: "'s world \<Rightarrow> 's slot world" where
  "live_world w = (fst w, Live (snd w))"

lemma live_world_fst [simp]: "fst (live_world w) = fst w"
  by (simp add: live_world_def)

lemma guard_sels:
  "clock (guard_env E) = clock E" "net (guard_env E) k (Live x) = Live (net E k x)" "net (guard_env E) k Freed = Freed"
  "lib_readable (guard lib) (Live x) = lib_readable lib x" "lib_drain (guard lib) (Live x) = Live (lib_drain lib x)"
  "lib_read (guard lib) n (Live x) = (case lib_read lib n x of (r, x) \<Rightarrow> (r, Live x))"
  "lib_read (guard lib) n Freed = (ReadEOF, Corrupt)"
  by (simp_all add: guard_def guard_env_def)

lemma guard_now: "now (guard_env E) (live_world w) = (case now E w of (t, w) \<Rightarrow> (t, live_world w))"
  by (simp add: now_def act_def live_world_def guard_sels)

lemma guard_start: "start_countdown ms (guard_env E) (live_world w) =
    (case start_countdown ms E w of (d, w) \<Rightarrow> (d, live_world w))"
  by (simp add: start_countdown_def guard_now split: prod.splits)

lemma guard_countdown: "countdown d (guard_env E) (live_world w) =
    (case countdown d E w of (m, w) \<Rightarrow> (m, live_world w))"
  by (simp add: countdown_def guard_now Let_def split: prod.splits option.splits)

lemma guard_drain: "drain (guard lib) (guard_env E) (live_world w) = live_world (drain lib E w)"
  by (simp add: drain_def act_def live_world_def guard_sels)

lemma guard_piece: "act (guard_env E) (piece (guard lib)) (live_world w) =
    (case act E (piece lib) w of (a, w) \<Rightarrow> (a, live_world w))"
  by (simp add: act_def piece_def live_world_def guard_sels split: prod.splits read_result.splits)

lemma guard_poll: "poll f (guard lib) (guard_env E) limit (live_world w) =
    map_option (\<lambda>(r, w). (r, live_world w)) (poll f lib E limit w)"
proof (induction f arbitrary: w)
  case (Suc f)
  obtain ready w1 where a: "act E (\<lambda>s. (lib_readable lib s, s)) w = (ready, w1)" by (metis surj_pair)
  then have "act (guard_env E) (\<lambda>s. (lib_readable (guard lib) s, s)) (live_world w) = (ready, live_world w1)"
    by (auto simp: act_def live_world_def guard_sels)
  then show ?case
    using Suc [of w1] by (cases limit) (simp_all add: a guard_sels)
qed simp

lemma guard_wait: "wait_for_progress f (guard lib) (guard_env E) ms (live_world w) =
    map_option (\<lambda>(r, w). (r, live_world w)) (wait_for_progress f lib E ms w)"
  by (simp add: wait_for_progress_def guard_poll guard_sels)

abbreviation still_live :: "('a \<times> 'b \<times> 's world) option \<Rightarrow> ('a \<times> 'b \<times> 's slot world) option" where
  "still_live \<equiv> map_option (\<lambda>(p, g, w). (p, g, live_world w))"

lemma guard_resume: "resume f (guard lib) (guard_env E) d m (live_world w) = still_live (resume f lib E d m w)"
proof (induction f arbitrary: m w)
  case (Suc f)
  show ?case
  proof (cases m)
    case None
    obtain left w1 where "countdown d E w = (left, w1)" by (cases "countdown d E w")
    then show ?thesis by (cases left) (simp_all add: None guard_countdown guard_drain Suc)
  next
    case (Some t)
    obtain a w1 where a: "act E (piece lib) w = (a, w1)" by (cases "act E (piece lib) w")
    show ?thesis
    proof (cases "a = Some []")
      case True
      then show ?thesis
        by (cases "wait_for_progress f lib E t w1")
          (auto simp add: Some a resume_read dry_round_def guard_piece guard_wait Suc)
    qed (auto simp: Some a resume_read guard_piece split: option.split)
  qed
qed simp

lemma guard_next: "next_piece f (guard lib) (guard_env E) g (live_world w) = still_live (next_piece f lib E g w)"
proof (cases g)
  case (Unstarted ms)
  obtain d w1 where "start_countdown ms E w = (d, w1)" by (cases "start_countdown ms E w")
  then show ?thesis by (simp add: next_piece_def Unstarted guard_start guard_resume)
qed (simp_all add: next_piece_def guard_resume)


lemma list_iter:
  "iter_body (Suc (Suc (Suc (Suc 0)))) list_lib steady (-1) (0, [[1, 2], [3]]) = Some ([[1, 2], [3]], Ended, (4, []))"
  by (simp add: iter_body_def start_countdown_def countdown_def drain_def act_def piece_def list_lib_def steady_def)

lemma list_one:
  "pulls (Suc 0) (2 * Suc (Suc (Suc (Suc 0)))) list_lib steady (Unstarted (-1)) (0, [[1, 2], [3]]) =
     Some ([[1, 2]], None, Suspended None (-1), (2, [[3]]))"
  by (simp add: next_piece_def start_countdown_def countdown_def drain_def act_def piece_def list_lib_def steady_def resume_read eval_nat_numeral)


end
