(* ===== verification/BuildTools.thy ===== *)
theory BuildTools
  imports Generator
begin

text \<open>
  The build scripts around the generator: \<open>ruff_format\<close>, \<open>generate\<close> and \<open>main\<close> of
  \<open>scripts/generate_binding.py\<close>, over the files they read and write, and the hook of
  \<open>hatch_build.py\<close>. A file is its decoded text; the formatter is a parameter, a function of the file
  name and the source that answers with its standard output or with why it could not run. The
  parsed command line is the switch \<open>check\<close> and the two paths.
\<close>

section \<open>Files\<close>

type_synonym files = "string \<Rightarrow> string option"

type_synonym formatter = "string \<Rightarrow> string \<Rightarrow> string + string"

datatype generator_exn = FileNotFound string | BadHeader header_error | NoFormatter string

datatype notice = OutOfDate string string | Wrote string nat nat nat

definition carriage_return :: char where
  "carriage_return = char_of (13 :: nat)"

text \<open>The newlines of a text that is read: \<open>CR LF\<close> and a lone \<open>CR\<close> are a line feed.\<close>

fun universal_newlines :: "string \<Rightarrow> string" where
  "universal_newlines [] = []"
| "universal_newlines [c] = (if c = carriage_return then [newline] else [c])"
| "universal_newlines (c # d # s) =
     (if c = carriage_return then newline # universal_newlines (if d = newline then s else d # s)
      else c # universal_newlines (d # s))"

definition read_text :: "files \<Rightarrow> string \<Rightarrow> generator_exn + string" where
  "read_text fs path =
     (case fs path of None \<Rightarrow> Inl (FileNotFound path) | Some raw \<Rightarrow> Inr (universal_newlines raw))"

text \<open>A header that the generator will not read is a \<open>HeaderError\<close>, as is a formatter that will not run.\<close>

definition header_read :: "header_error + 'a \<Rightarrow> generator_exn + 'a" where
  "header_read m = (case m of Inl e \<Rightarrow> Inl (BadHeader e) | Inr x \<Rightarrow> Inr x)"

section \<open>The command\<close>

definition ruff_format :: "formatter \<Rightarrow> string \<Rightarrow> string \<Rightarrow> generator_exn + string" where
  "ruff_format ruff src filename =
     (case ruff filename src of
        Inl failure \<Rightarrow> Inl (NoFormatter failure)
      | Inr stdout \<Rightarrow> Inr (universal_newlines stdout))"

definition generated_source :: "formatter \<Rightarrow> files \<Rightarrow> string \<Rightarrow> string \<Rightarrow> generator_exn + string" where
  "generated_source ruff fs header output =
     bindE (read_text fs header) (\<lambda>h.
     bindE (header_read (generate h)) (\<lambda>ls.
     ruff_format ruff (join [newline] ls @ [newline]) output))"

definition generator_main ::
  "formatter \<Rightarrow> bool \<Rightarrow> string \<Rightarrow> string \<Rightarrow> files \<Rightarrow> (generator_exn + int \<times> notice option) \<times> files" where
  "generator_main ruff check header output fs =
     (case generated_source ruff fs header output of
        Inl e \<Rightarrow> (Inl e, fs)
      | Inr generated \<Rightarrow>
          if check then
            (let current = (case fs output of None \<Rightarrow> [] | Some raw \<Rightarrow> universal_newlines raw) in
             (if current = generated then Inr (0, None) else Inr (1, Some (OutOfDate output header)), fs))
          else
            (case bindE (read_text fs header) (\<lambda>h. header_read (parse h)) of
               Inl e \<Rightarrow> (Inl e, fs)
             | Inr abi \<Rightarrow>
                 (Inr (0, Some (Wrote output (length (abi_functions abi)) (length (abi_structs abi))
                    (length (abi_constants abi) + length (abi_enum_members abi)))),
                  fs(output := Some generated))))"

text \<open>\<open>sys.exit(main())\<close>, and the status an exception that nobody catches ends the process with.\<close>

definition exit_status :: "generator_exn + int \<times> notice option \<Rightarrow> int" where
  "exit_status r = (case r of Inl e \<Rightarrow> 1 | Inr (code, note) \<Rightarrow> code)"

section \<open>The wheel\<close>

datatype build_value = Flag bool | Tag string

definition WHEEL_TAG :: string where
  "WHEEL_TAG = ''py3-none-linux_x86_64''"

definition wheel_hook :: "(string \<Rightarrow> build_value option) \<Rightarrow> (string \<Rightarrow> build_value option)" where
  "wheel_hook build_data = build_data(''pure_python'' := Some (Flag False), ''tag'' := Some (Tag WHEEL_TAG))"

section \<open>Laws\<close>

lemma cr_not_lf [simp]: "carriage_return \<noteq> newline" "newline \<noteq> carriage_return"
  by (simp_all add: carriage_return_def newline_def)

lemma no_cr_left: "carriage_return \<notin> set (universal_newlines s)"
  by (induction s rule: universal_newlines.induct) auto

lemma newlines_kept: "carriage_return \<notin> set s \<Longrightarrow> universal_newlines s = s"
  by (induction s rule: universal_newlines.induct) auto

lemma newlines_once [simp]: "universal_newlines (universal_newlines s) = universal_newlines s"
  by (rule newlines_kept [OF no_cr_left])

lemma formatted_newlines: "ruff_format ruff src f = Inr t \<Longrightarrow> universal_newlines t = t"
  by (auto simp: ruff_format_def split: sum.splits)

lemma generated_newlines: "generated_source ruff fs h o' = Inr t \<Longrightarrow> universal_newlines t = t"
  by (auto simp: generated_source_def bindE_eq_Inr dest: formatted_newlines)

lemma generated_parses:
  "generated_source ruff fs h o' = Inr t \<Longrightarrow>
     \<exists>abi. bindE (read_text fs h) (\<lambda>h. header_read (parse h)) = Inr abi"
proof -
  assume "generated_source ruff fs h o' = Inr t"
  then obtain x ls where x: "read_text fs h = Inr x" and "header_read (generate x) = Inr ls"
    by (auto simp: generated_source_def bindE_eq_Inr)
  then have "generate x = Inr ls" by (simp add: header_read_def split: sum.splits)
  then obtain abi where "parse x = Inr abi" by (auto simp: generate_def bindE_eq_Inr)
  with x show ?thesis by (simp add: header_read_def)
qed

lemma generated_elsewhere: "fs h = gs h \<Longrightarrow> generated_source ruff fs h o' = generated_source ruff gs h o'"
  by (simp add: generated_source_def read_text_def)

text \<open>What is written is what is checked: a run of the generator either fails and writes nothing, or
  writes its output file and no other and exits with 0, and then, whatever newlines the formatter
  uses, a check of that file against the same header exits with 0 and without a notice.\<close>

theorem regenerated_is_fresh:
  "case generator_main ruff False header output fs of
     (Inl e, fs') \<Rightarrow> fs' = fs \<and> generator_main ruff True header output fs = (Inl e, fs)
   | (Inr (code, note), fs') \<Rightarrow>
       code = 0 \<and> fs' = fs(output := fs' output) \<and> fs' output \<noteq> None \<and>
       (if header = output then True
        else generator_main ruff True header output fs' = (Inr (0, None), fs'))"
proof (cases "generated_source ruff fs header output")
  case (Inl e)
  then show ?thesis by (simp add: generator_main_def)
next
  case (Inr t)
  obtain abi where abi: "bindE (read_text fs header) (\<lambda>h. header_read (parse h)) = Inr abi"
    using generated_parses [OF Inr] by blast
  have "generated_source ruff (fs(output := Some t)) header output = Inr t" if "header \<noteq> output"
    using that Inr generated_elsewhere [of "fs(output := Some t)" header fs] by simp
  then show ?thesis
    using Inr abi generated_newlines [OF Inr] by (simp add: generator_main_def)
qed

text \<open>
  The gate of the test suite: \<open>--check\<close> writes nothing, and exits with 0 exactly when the committed
  file, an absent one counting as empty, reads as the text the header generates.
\<close>

theorem check_is_exact:
  "snd (generator_main ruff True header output fs) = fs \<and>
   (exit_status (fst (generator_main ruff True header output fs)) = 0 \<longleftrightarrow>
     generated_source ruff fs header output =
       Inr (case fs output of None \<Rightarrow> [] | Some raw \<Rightarrow> universal_newlines raw))"
  by (auto simp: generator_main_def exit_status_def Let_def split: sum.splits)

text \<open>A header of one function, all the way through.\<close>

definition small_header :: string where
  "small_header = ''CRONET_EXPORT void cronet_go(void);''"

lemma small_header_parts:
  "universal_newlines small_header = small_header" "strip_comments small_header = small_header"
  "re_sub directive_re [] small_header = small_header" "structs_in small_header = Inr []"
  "functions_in small_header = Inr [(''cronet_go'', ''void'', [])]"
  "constants_in small_header = []" "enum_members_in small_header = []" "opaque_in small_header = []"
  by code_simp+

definition small_abi :: abi where
  "small_abi = \<lparr>abi_constants = [], abi_enum_members = [], abi_opaque = [], abi_structs = [],
     abi_functions = [(''cronet_go'', ''void'', [])]\<rparr>"

lemma small_header_abi: "parse small_header = Inr small_abi"
  by (simp add: parse_def small_header_parts small_abi_def)

lemma void_is_none: "ctypes_for small_abi ''void'' = Inr ''None''"
  by code_simp

lemma small_header_generates:
  "\<exists>t. generator_main (\<lambda>f s. Inr s) False ''cronet.h'' ''_abi.py'' [''cronet.h'' \<mapsto> small_header] =
     (Inr (0, Some (Wrote ''_abi.py'' 1 0 0)), [''cronet.h'' \<mapsto> small_header, ''_abi.py'' \<mapsto> t])"
proof -
  let ?fs = "[''cronet.h'' \<mapsto> small_header]"
  have readable: "read_text ?fs ''cronet.h'' = Inr small_header"
    by (simp add: read_text_def small_header_parts)
  have parts: "abi_structs small_abi = []" "abi_functions small_abi = [(''cronet_go'', ''void'', [])]"
    "abi_constants small_abi = []" "abi_enum_members small_abi = []"
    by (simp_all add: small_abi_def)
  have "\<exists>ls. generate small_header = Inr ls"
    by (simp add: generate_def small_header_abi render_def render_function_def parts void_is_none)
  then obtain t where t: "generated_source (\<lambda>f s. Inr s) ?fs ''cronet.h'' ''_abi.py'' = Inr t"
    by (auto simp: generated_source_def readable header_read_def ruff_format_def)
  then show ?thesis
    by (auto simp: generator_main_def readable header_read_def small_header_abi parts)
qed

section \<open>What the generator does not notice\<close>

text \<open>
  Three things a header may say that are read wrongly without an error: a constant that is not a
  decimal number is cut at its first digit, an enumerator without a value is left out, and an array
  member becomes a single field of its element's type.
\<close>

theorem header_misread:
  "constants_in ''#define CRONET_FLAGS 0x10'' = [(''FLAGS'', 0)]"
  "enum_members_in ''typedef enum { CRONET_A, CRONET_B = 1 } cronet_e;'' = [(''B'', 1)]"
  "parse_fields ''int32_t room[4]; int32_t tail;'' = Inr [(''room[4]'', ''int32_t''), (''tail'', ''int32_t'')]"
  by code_simp+

end
