(* ===== verification/Declarators.thy ===== *)
theory Declarators
  imports Generator
begin

text \<open>
  The generator's reading of a C declaration (\<open>normalize_type\<close> and \<open>split_declarator\<close> of
  \<open>scripts/generate_binding.py\<close>) against its tokens. The code spaces the stars out, drops \<open>const\<close>,
  joins the words, collapses white space with a regular expression and strips the ends; the
  reference below only takes the tokens.
\<close>

section \<open>Tokens\<close>

definition is_token :: "string \<Rightarrow> bool" where
  "is_token w \<longleftrightarrow> w \<noteq> [] \<and> list_all (\<lambda>c. \<not> re_space c) w"

text \<open>The words of a declaration, each star one of its own, without \<open>const\<close>.\<close>

definition tokens :: "string \<Rightarrow> string list" where
  "tokens s = filter (\<lambda>w. w \<noteq> ''const'') (words (spaced_stars s))"

lemma space_facts [simp]: "re_space CHR '' ''" "\<not> re_space CHR ''*''"
  by (simp_all add: re_space_def)

lemma words_from_run: "list_all (\<lambda>c. \<not> re_space c) t \<Longrightarrow> words_from w (t @ s) = words_from (w @ t) s"
  by (induction t arbitrary: w) auto

lemma words_from_tokens: "list_all (\<lambda>c. \<not> re_space c) w \<Longrightarrow> list_all is_token (words_from w s)"
  by (induction w s rule: words_from.induct) (auto simp: is_token_def)

lemma tokens_are_tokens: "list_all is_token (tokens s)"
  using words_from_tokens [of "[]" "spaced_stars s"] by (simp add: tokens_def words_def list_all_iff)

lemma is_token_starts: "is_token t \<Longrightarrow> \<exists>c cs. t = c # cs \<and> \<not> re_space c"
  by (cases t) (auto simp: is_token_def)

lemma words_join: "list_all is_token ts \<Longrightarrow> words (join '' '' ts) = ts"
proof (induction ts rule: induct_list012)
  case (2 t)
  then show ?case using words_from_run [of t "[]" "[]"] by (auto simp: words_def is_token_def)
next
  case (3 t u ts)
  have "list_all (\<lambda>c. \<not> re_space c) t" "t \<noteq> []" using "3.prems" by (auto simp: is_token_def)
  then have "words (t @ '' '' @ join '' '' (u # ts)) = t # words (join '' '' (u # ts))"
    using words_from_run [of t "[]" "'' '' @ join '' '' (u # ts)"] by (simp add: words_def)
  with 3 show ?case by simp
qed (simp add: words_def)

section \<open>The regular expression changes nothing\<close>

lemma match_none: "\<not> P c \<Longrightarrow> match_here [Rep 1 P] (p, c # s) caps = None"
  by simp

lemma match_one:
  "P c \<Longrightarrow> (s = [] \<or> \<not> P (hd s)) \<Longrightarrow> match_here [Rep 1 P] (p, c # s) caps = Some ((Some c, s), caps)"
  by (cases s) (simp_all add: advance_def)

lemma search_past:
  "list_all (\<lambda>c. \<not> re_space c) t \<Longrightarrow> \<exists>p'. search_from [Rep 1 re_space] p skipped (t @ s) =
     search_from [Rep 1 re_space] p' (rev t @ skipped) s"
proof (induction t arbitrary: p skipped)
  case (Cons c t)
  then have "search_from [Rep 1 re_space] p skipped ((c # t) @ s) =
      search_from [Rep 1 re_space] (Some c) (c # skipped) (t @ s)"
    by (simp add: search_from.simps [of _ p skipped "c # t @ s"] match_none del: match_here.simps One_nat_def)
  with Cons show ?case by simp
qed auto

lemma search_end: "search_from [Rep 1 re_space] p skipped [] = None"
  by (simp add: search_from.simps [of _ p skipped "[]"])

lemma search_space:
  "s = [] \<or> \<not> re_space (hd s) \<Longrightarrow>
     search_from [Rep 1 re_space] p skipped (CHR '' '' # s) = Some (rev skipped, (Some (CHR '' ''), s), [])"
  by (simp add: search_from.simps [of _ p skipped "CHR '' '' # s"] match_one del: match_here.simps One_nat_def)

lemma join_starts: "list_all is_token (u # ts) \<Longrightarrow> join '' '' (u # ts) \<noteq> [] \<and> \<not> re_space (hd (join '' '' (u # ts)))"
  using is_token_starts [of u] by (cases ts) auto

lemma sub_join: "list_all is_token ts \<Longrightarrow> sub_from [Rep 1 re_space] '' '' (p, join '' '' ts) = join '' '' ts"
proof (induction ts arbitrary: p rule: induct_list012)
  case 1
  show ?case by (simp add: sub_from.simps [of _ _ "(p, [])"] search_end del: One_nat_def)
next
  case (2 t)
  then have "list_all (\<lambda>c. \<not> re_space c) t" by (simp add: is_token_def)
  from search_past [OF this, of p "[]" "[]"] have "search_from [Rep 1 re_space] p [] t = None"
    by (auto simp: search_end simp del: One_nat_def)
  then show ?case by (simp add: sub_from.simps [of _ _ "(p, t)"] del: One_nat_def)
next
  case (3 t u ts)
  then have "is_token t" and later: "list_all is_token (u # ts)" by simp_all
  then have "list_all (\<lambda>c. \<not> re_space c) t" by (simp add: is_token_def)
  from search_past [OF this(1), of p "[]" "CHR '' '' # join '' '' (u # ts)"] search_space join_starts [OF later]
  have "search_from [Rep 1 re_space] p [] (t @ CHR '' '' # join '' '' (u # ts)) =
      Some (t, (Some (CHR '' ''), join '' '' (u # ts)), [])" by auto
  with "3.IH"(2) [OF later] show ?case
    by (simp add: sub_from.simps [of _ _ "(p, t @ CHR '' '' # join '' '' (u # ts))"] del: One_nat_def)
qed

lemma join_ends: "list_all is_token ts \<Longrightarrow> ts \<noteq> [] \<Longrightarrow> join '' '' ts \<noteq> [] \<and> \<not> re_space (last (join '' '' ts))"
proof (induction ts rule: induct_list012)
  case (2 t)
  then show ?case by (auto simp: is_token_def list_all_iff)
next
  case (3 t u ts)
  then show ?case by (simp split: if_splits)
qed simp

lemma strip_join:
  assumes "list_all is_token ts"
  shows "strip (join '' '' ts) = join '' '' ts"
proof (cases ts)
  case Nil
  then show ?thesis by (simp add: strip_def)
next
  case (Cons u us)
  have keeps: "dropWhile re_space s = s" if "s \<noteq> []" and "\<not> re_space (hd s)" for s
    using that by (cases s) auto
  have "join '' '' ts \<noteq> []" "\<not> re_space (hd (join '' '' ts))" "\<not> re_space (last (join '' '' ts))"
    using join_starts [of u us] join_ends [of ts] assms Cons by auto
  then show ?thesis by (simp add: strip_def keeps hd_rev)
qed

lemma normalize_tokens: "normalize_type s = join '' '' (tokens s)"
  using sub_join [OF tokens_are_tokens] strip_join [OF tokens_are_tokens]
  by (simp add: normalize_type_def tokens_def re_sub_def)

section \<open>Stars\<close>

definition star_token :: "string \<Rightarrow> bool" where
  "star_token w \<longleftrightarrow> w = ''*'' \<or> CHR ''*'' \<notin> set w"

lemma spaced_simps:
  "spaced_stars [] = []" "spaced_stars (c # s) = (if c = CHR ''*'' then '' * '' else [c]) @ spaced_stars s"
  "spaced_stars (s @ t) = spaced_stars s @ spaced_stars t"
  by (simp_all add: spaced_stars_def)

lemma star_tokens: "CHR ''*'' \<notin> set w \<Longrightarrow> list_all star_token (words_from w (spaced_stars s))"
  by (induction s arbitrary: w) (auto simp: spaced_simps star_token_def)

lemma spaced_plain: "CHR ''*'' \<notin> set t \<Longrightarrow> spaced_stars t = t"
  by (induction t) (auto simp: spaced_simps)

lemma spaced_token:
  assumes "is_token t" and "star_token t"
  shows "words_from [] (spaced_stars t @ CHR '' '' # s) = t # words_from [] s" and "words_from [] (spaced_stars t) = [t]"
proof -
  have plain: "list_all (\<lambda>c. \<not> re_space c) t" "t \<noteq> []" using assms(1) by (auto simp: is_token_def)
  show "words_from [] (spaced_stars t @ CHR '' '' # s) = t # words_from [] s"
    using assms(2) plain words_from_run [OF plain(1), of "[]" "CHR '' '' # s"]
    by (auto simp: star_token_def spaced_plain spaced_simps)
  show "words_from [] (spaced_stars t) = [t]"
    using assms(2) plain words_from_run [OF plain(1), of "[]" "[]"]
    by (auto simp: star_token_def spaced_plain spaced_simps)
qed

lemma words_spaced_join:
  "list_all (\<lambda>t. is_token t \<and> star_token t) ts \<Longrightarrow> words_from [] (spaced_stars (join '' '' ts)) = ts"
  by (induction ts rule: induct_list012) (auto simp: spaced_simps spaced_token)

lemma tokens_join_tokens: "tokens (join '' '' (tokens s)) = tokens s"
proof -
  have "list_all star_token (tokens s)"
    using star_tokens [of "[]" s] by (simp add: tokens_def words_def list_all_iff)
  with tokens_are_tokens [of s] have "words_from [] (spaced_stars (join '' '' (tokens s))) = tokens s"
    by (intro words_spaced_join) (simp add: list_all_iff)
  then show ?thesis by (simp add: tokens_def words_def)
qed

section \<open>Declarations\<close>


text \<open>Two spellings of one parameter.\<close>

lemma spellings_agree:
  "split_declarator ''const  cronet_header* headers'' = split_declarator ''cronet_header const *headers ''"
  by code_simp

end
