(* ===== verification/Json.thy ===== *)
theory Json
  imports Request
begin

text \<open>
  JSON (\<open>src/cronet/_json.py\<close>): msgspec when it is installed, the standard library's \<open>json\<close> otherwise.
  Both are parameters, a decoder and an encoder each; \<open>json.dumps\<close> answers with text, which is
  encoded. \<open>backends_with\<close> puts the encoder into the backends a request is composed with.
\<close>

record 'v json_libraries =
  msgspec :: "((bytes \<Rightarrow> exn + 'v) \<times> ('v \<Rightarrow> exn + bytes)) option"
  json_loads :: "bytes \<Rightarrow> exn + 'v"
  json_dumps :: "'v \<Rightarrow> exn + ustr"

definition ACCELERATED :: "'v json_libraries \<Rightarrow> bool" where
  "ACCELERATED js \<longleftrightarrow> msgspec js \<noteq> None"

definition decode :: "'v json_libraries \<Rightarrow> bytes \<Rightarrow> exn + 'v" where
  "decode js data = (case msgspec js of Some (dec, enc) \<Rightarrow> dec data | None \<Rightarrow> json_loads js data)"

definition encode :: "'v json_libraries \<Rightarrow> 'v \<Rightarrow> exn + bytes" where
  "encode js v =
     (case msgspec js of
        Some (dec, enc) \<Rightarrow> enc v
      | None \<Rightarrow>
          bindE (json_dumps js v) (\<lambda>t. case utf8 t of None \<Rightarrow> Inl UnicodeEncodeError | Some b \<Rightarrow> Inr b))"

definition backends_with :: "json json_libraries \<Rightarrow> ('j, 'c) backends \<Rightarrow> ('j, 'c) backends" where
  "backends_with js env = env\<lparr>json_encode := encode js\<rparr>"

text \<open>
  The module reads back what it wrote, over either library, when the library does: the standard
  one has to be handed text that is not cut by a lone surrogate, and reads UTF-8.
\<close>

lemma encode_then_decode:
  assumes "encode js v = Inr b"
    and "case msgspec js of
        Some (dec, enc) \<Rightarrow> (enc v = Inr b \<longrightarrow> dec b = Inr v)
      | None \<Rightarrow> (\<forall>t. json_dumps js v = Inr t \<and> utf8 t = Some b \<longrightarrow> json_loads js b = Inr v)"
  shows "decode js b = Inr v"
  using assms by (auto simp: encode_def decode_def bindE_eq_Inr split: option.splits)

text \<open>A call that carries no JSON does not depend on which library is installed.\<close>

lemma body_without_json:
  "opt_json opts = None \<Longrightarrow> encode_body guess enc draw opts = encode_body guess enc' draw opts"
  unfolding encode_body_def by (simp cong: option.case_cong)

lemma backends_with_rest [simp]:
  "json_encode (backends_with js env) = encode js" "guess_type (backends_with js env) = guess_type env"
  "cookie_lib (backends_with js env) = cookie_lib env"
  by (simp_all add: backends_with_def)

lemma backends_irrelevant:
  assumes "opt_json opts = None"
  shows "build_call (backends_with js env) draw verb url opts defaults cookies limit =
    build_call env draw verb url opts defaults cookies limit"
  by (simp only: build_call_def backends_with_rest body_without_json [OF assms, of _ "encode js" _ "json_encode env"])

end
