(* ===== verification/Spec2Isabelle.thy ===== *)
theory Spec2Isabelle
  imports Responses UrlLaws BodyLaws Multipart Redirect NativeCall SessionProtocol Engine ProbeOutput Binding
    EventLoop Streaming BuildTools Declarators Json
begin

text \<open>
  A verification development of Cronet, Chromium's network stack as a Python HTTP client: the package
  \<open>src/cronet\<close>, the two scripts that generate its binding and probe a proxy, the build hook, and as
  much of the C++ below as the package talks to directly.

  \<^bold>\<open>How the program is put together.\<close> A session (\<open>session.py\<close>) turns a method, a URL and options into a
  call: the options are checked, encoded and laid over the session's headers (\<open>request.py\<close>,
  \<open>headers.py\<close>, \<open>cookies.py\<close>), the bridge (\<open>_bridge.py\<close>) writes the call into C memory and starts it
  on the session's engine, and the native call (\<open>native/call.cc\<close>) buffers what the network delivers
  until its owner reads it. The owner waits on a descriptor, blocking or in an event loop, reads the
  body in pieces and copies the metadata out, as a response (\<open>response.py\<close>) or as an exception
  (\<open>errors.py\<close>). With a cookie jar the session follows redirects itself, one call per hop. The
  declarations of the C ABI (\<open>_abi.py\<close>) are generated from \<open>native/cronet.h\<close> and checked against the
  library when it is loaded (\<open>_binding.py\<close>).

  \<^bold>\<open>Which theory models what.\<close>
    \<^item> Prelude, Text: the error monad, list operations, Python text, UTF-8 and latin-1.
    \<^item> Headers, Wire, Errors, Responses, Tls: \<open>headers.py\<close>, the records that cross the boundary,
      \<open>errors.py\<close>, \<open>response.py\<close>, \<open>tls.py\<close>.
    \<^item> Url, UrlLaws, Body, BodyLaws, Multipart: \<open>urllib.parse\<close> as the package uses it, the URL functions
      and the body encoders of \<open>request.py\<close>, each against a reader of its format.
    \<^item> Cookies, Request, Redirect: \<open>cookies.py\<close>, the composition of a call, \<open>next_hop\<close> and
      \<open>RedirectChain\<close> of \<open>request.py\<close>. Json: \<open>_json.py\<close>.
    \<^item> NativeCall: \<open>CallState\<close> and its callbacks, with any interleaving of owner and network.
    \<^item> Marshal, Bridge: the structs over an explicit memory, and \<open>Call\<close> with its loops.
    \<^item> Engine: \<open>Engine\<close> of \<open>_bridge.py\<close> under any interleaving of threads.
    \<^item> Session, SessionLaws, SessionProtocol, SessionLife, EventLoop: \<open>session.py\<close>, both session types,
      streaming, closing, and \<open>AsyncSession._progress\<close> under any interleaving of tasks.
    \<^item> Streaming: \<open>Call.iter_body\<close> as the generator it is, and the block of \<open>Session.stream\<close> that pulls
      from it and may leave early.
    \<^item> Regex, Generator, Declarators, Abi, BuildTools, Binding: \<open>generate_binding.py\<close>, the header and the committed
      binding, the generator's command, \<open>hatch_build.py\<close> and \<open>_binding.py\<close>.
    \<^item> Socks5, ProbeOutput: \<open>probe_socks5_udp.py\<close>, the conversation and what it prints.

  \<^bold>\<open>State and operations.\<close> An object is a record and each of its methods a function that returns the new
  record beside its result; an exception is the left side of a sum, one constructor for each class
  that is raised. Where threads, tasks or the network interleave, the critical sections are the
  functions and an inductive step relation runs them in any order: \<open>call_run\<close> for a native call,
  \<open>engine_step\<close> for an engine, \<open>loop_step\<close> for an event loop. Integers that cross the boundary are words
  of their C width. Text that goes into URLs and headers is a string of code points below 256; text
  that is encoded as UTF-8 is a list of code points, surrogates included.

  \<^bold>\<open>Interfaces.\<close> \<open>header_map\<close> is what the request builder needs of headers, \<open>cookie_store\<close> what the
  redirect walk needs of a jar, \<open>body_source\<close> what a streaming reader needs of a call, \<open>leased\<close> what
  closing an engine needs of its bookkeeping. Each is interpreted on the program's own operations in
  the theory that provides them, \<open>body_source\<close> on the model of the native call.

  \<^bold>\<open>What the lemmas show.\<close> The native buffer refines a bounded queue and its transfer cannot stall; a
  stream hands over the body without gap or repetition, and the whole of it when it ends by itself,
  whether its generator is run as a loop or pulled piece by piece, and may be left at any point;
  what a round waits is bounded by the timeout; the engine's bookkeeping refines a lease, is destroyed once and empty, and closing ends except
  for a thread that closes from inside its own call; requests end, return complete responses, close each native
  call exactly once, keep the protocol that was required and keep credentials at the first origin;
  both session types agree; URLs, forms, multipart bodies, credentials, requests, configurations and
  responses survive the trip through their encodings; declarations of the header are read by
  their tokens, and the generated binding has the layout of the header and is what is committed; the probe
  reports success exactly when it has proof, and prints what its exit code says. The theorems about
  behaviour that surprises are kept beside the others: a broken stream that looks complete, an iterator
  that reads a freed call after its block, a session-wide Authorization header that goes to every
  origin, a name with a zero character that passes the header guard, a user name that crashes the probe, a header the generator misreads.

  \<^bold>\<open>Bounds and fuel.\<close> A loop whose end depends on the network takes fuel, and the value \<open>None\<close> means only
  that the fuel ran out. That it does not is proved: \<open>walk_fuel\<close> is the redirect limit and two more, as
  each hop but the last is a redirect that counts; \<open>stream_fuel\<close> and \<open>request_fuel\<close> add to the number
  of operations after which the network is finished the size of a full native buffer, as each
  further read empties at least one byte of it. Recursions on text, on received segments and on the
  three attempts of the probe are total as they stand. Lengths are bounded where the C types bound
  them, at 64 bits.

  \<^bold>\<open>Parameters.\<close> The standard library's cookie jar, media type tables and codecs, msgspec and \<open>json\<close>, the
  random draws, \<open>ruff\<close>, the dynamic loader, Chromium below the callbacks of a call and the clock are
  arguments of the definitions that use them.

  \<^bold>\<open>Not modelled.\<close> \<open>__init__.py\<close> only names what the package exports. Command line parsing of the
  scripts, the wording of the generator's notices and of the fixed messages of the package are left
  out; so is the finalizer that the garbage collector runs for a session nobody closed. Of the native code, \<open>engine.cc\<close> and
  \<open>global_state.cc\<close> are calls into Chromium, which is not in the repository. The generator's
  reader of headers is defined on any text, and is evaluated on short ones; what the whole header
  declares is given as data in the theory Abi.
\<close>

section \<open>From the caller's headers to the wire\<close>

text \<open>What the library reads of a call the package composed.\<close>

definition on_the_wire :: "call_settings \<Rightarrow> native_request option" where
  "on_the_wire cs = (case build_request cs of (req, mem, keep) \<Rightarrow> request_spec mem req)"

definition wire_headers :: "native_request \<Rightarrow> pairs" where
  "wire_headers nr = map (\<lambda>(n, v). (of_latin1 n, of_latin1 v)) (spec_headers nr)"

definition nul :: char where
  "nul = CHR 0x00"

definition nul_free :: "string \<Rightarrow> bool" where
  "nul_free s \<longleftrightarrow> nul \<notin> set s"

lemma nul_byte: "(of_char nul :: 8 word) = 0"
  by (simp add: nul_def of_char_def)

lemma byte_zero: "(of_char c :: 8 word) = 0 \<longleftrightarrow> c = nul"
  using latin1_inj [of "[c]" "[nul]"] by (simp add: nul_byte del: latin1_inj)

lemma c_text_latin1: "nul_free s \<Longrightarrow> c_text (latin1 s) = latin1 s"
  by (auto simp: nul_free_def c_text_def latin1_def byte_zero takeWhile_eq_all_conv)

lemma c_text_cut:
  assumes "nul_free s"
  shows "c_text (latin1 (s @ nul # t)) = latin1 s"
proof -
  have "w \<in> set (latin1 s) \<Longrightarrow> w \<noteq> 0" for w
    using assms by (auto simp: latin1_def byte_zero nul_free_def)
  then show ?thesis by (simp add: c_text_def takeWhile_append2 nul_byte)
qed

lemma on_the_wire_read:
  assumes "length (call_headers cs) < 2 ^ 64" and "length (call_body cs) < 2 ^ 64"
  shows "\<exists>nr. on_the_wire cs = Some nr \<and> spec_body nr = call_body cs \<and>
    spec_headers nr = map (\<lambda>(n, v). (c_text (latin1 n), c_text (latin1 v))) (call_headers cs)"
proof -
  obtain req mem keep where b: "build_request cs = (req, mem, keep)" by (metis prod_cases3)
  show ?thesis by (simp add: on_the_wire_def b request_read(1) [OF b assms])
qed

lemma wire_headers_exact:
  assumes "list_all (\<lambda>(n, v). nul_free n \<and> nul_free v) ps"
  shows "map (\<lambda>(n, v). (of_latin1 n, of_latin1 v)) (map (\<lambda>(n, v). (c_text (latin1 n), c_text (latin1 v))) ps) = ps"
  using assms by (induction ps) (auto simp: c_text_latin1)

text \<open>C19. What the network stack is asked to send is what the caller and the session asked for: their
  merged headers in their order and spelling, byte for byte, followed by at most one each of
  Content-Type, Authorization and Cookie, and only for names nobody spoke for; none of them is a
  header the stack owns, and the body is the body. Texts with a zero character are set apart.\<close>

theorem sent_headers_exact:
  assumes "check_headers session_headers ''the session'' = Inr ()"
    and "check_headers (opt_headers opts) ''a request'' = Inr ()"
    and "build_call env draw verb url opts (mk_headers session_headers) cookies limit = (Inr cs, cookies')"
    and "length (call_headers cs) < 2 ^ 64" and "length (call_body cs) < 2 ^ 64"
    and "list_all (\<lambda>(n, v). nul_free n \<and> nul_free v) (call_headers cs)"
  shows "\<exists>added nr. on_the_wire cs = Some nr \<and> spec_body nr = call_body cs \<and>
    wire_headers nr = header_items (merged_headers opts (mk_headers session_headers)) @ added \<and>
    set (map fst added) \<subseteq> {''content-type'', ''authorization'', ''cookie''} \<and> distinct (map fst added) \<and>
    list_all (\<lambda>p. \<not> contains (merged_headers opts (mk_headers session_headers)) (fst p)) added \<and>
    list_all (\<lambda>p. \<not> stack_owned (fst p)) (wire_headers nr)"
proof -
  obtain added where added: "call_headers cs = header_items (merged_headers opts (mk_headers session_headers)) @ added"
    "set (map fst added) \<subseteq> {''content-type'', ''authorization'', ''cookie''}" "distinct (map fst added)"
    "list_all (\<lambda>p. \<not> contains (merged_headers opts (mk_headers session_headers)) (fst p)) added"
    using call_headers_appended [OF assms(3)] by blast
  obtain nr where nr: "on_the_wire cs = Some nr" "spec_body nr = call_body cs"
    "spec_headers nr = map (\<lambda>(n, v). (c_text (latin1 n), c_text (latin1 v))) (call_headers cs)"
    using on_the_wire_read [OF assms(4,5)] by blast
  have "wire_headers nr = call_headers cs"
    by (simp only: wire_headers_def nr(3) wire_headers_exact [OF assms(6)])
  with call_headers_unowned [OF assms(1-3)] added nr show ?thesis by auto
qed

definition example_call :: call_settings where
  "example_call = Request.plain_call no_options [(''X-A'', ''1'')] [(''cookie'', ''a=b'')]"

lemma example_call_parts:
  "call_headers example_call = [(''X-A'', ''1''), (''cookie'', ''a=b'')]" "call_body example_call = []"
  by code_simp+

theorem sent_headers_exact_witness:
  "\<exists>added nr. on_the_wire example_call = Some nr \<and> spec_body nr = call_body example_call \<and>
    wire_headers nr = header_items (merged_headers no_options (mk_headers (PairHeaders [(''X-A'', ''1'')]))) @ added \<and>
    set (map fst added) \<subseteq> {''content-type'', ''authorization'', ''cookie''} \<and> distinct (map fst added) \<and>
    list_all (\<lambda>p. \<not> contains (merged_headers no_options (mk_headers (PairHeaders [(''X-A'', ''1'')]))) (fst p)) added \<and>
    list_all (\<lambda>p. \<not> stack_owned (fst p)) (wire_headers nr)"
proof (rule sent_headers_exact)
  show "check_headers (PairHeaders [(''X-A'', ''1'')]) ''the session'' = Inr ()" by code_simp
  show "check_headers (opt_headers no_options) ''a request'' = Inr ()"
    by (simp add: no_options_def check_headers_def)
  show "build_call plain_backends (\<lambda>_. 0) ''GET'' ''https://h/'' no_options
      (mk_headers (PairHeaders [(''X-A'', ''1'')])) (Some ()) 0 = (Inr example_call, Some ())"
    using plain_build [OF plain_session_no_cookie(1)] by (simp add: mk_headers_def example_call_def)
  show "list_all (\<lambda>(n, v). nul_free n \<and> nul_free v) (call_headers example_call)"
    by (simp add: example_call_parts nul_free_def nul_def)
qed (simp_all add: example_call_parts)

text \<open>C39. A zero character takes a header past the guard: the name of a header the stack owns, followed by
  a zero character and anything else, is accepted, and what the library reads is the bare name.\<close>

theorem nul_evades_check:
  assumes "stack_owned n" and "nul_free n" and "nul_free v"
    and "call_headers cs = [(n @ nul # rest, v)]" and "length (call_body cs) < 2 ^ 64"
  shows "check_headers (PairHeaders (call_headers cs)) source = Inr () \<and>
    (\<exists>nr. on_the_wire cs = Some nr \<and> wire_headers nr = [(n, v)])"
proof -
  have "lower_char nul = nul" by (simp add: nul_def lower_char_def)
  then have "nul \<in> set (lower (n @ nul # rest))" by (force simp: lower_def)
  moreover have "nul_free m" if "m \<in> fst ` set STACK_OWNED_HEADERS" for m
    using that by (auto simp: STACK_OWNED_HEADERS_def nul_free_def nul_def)
  ultimately have "\<not> stack_owned (n @ nul # rest)" by (auto simp: stack_owned_def nul_free_def)
  then have "check_headers (PairHeaders (call_headers cs)) source = Inr ()"
    by (simp only: check_headers_def source_pairs.simps check_pairs_ok assms(4)) simp
  moreover have "\<exists>nr. on_the_wire cs = Some nr \<and> wire_headers nr = [(n, v)]"
    using on_the_wire_read [of cs] assms(5)
    by (auto simp: assms(4) wire_headers_def c_text_cut [OF assms(2), simplified] c_text_latin1 [OF assms(3)])
  ultimately show ?thesis ..
qed

definition smuggled_host :: call_settings where
  "smuggled_host = \<lparr>call_method = ''GET'', call_url = ''https://h/'',
     call_headers = [(''Host'' @ nul # ''x'', ''other'')], call_body = [], call_priority = 4,
     call_max_redirects = 20, call_disable_cache = False\<rparr>"

theorem nul_evades_check_witness:
  "check_headers (PairHeaders (call_headers smuggled_host)) ''a request'' = Inr () \<and>
   (\<exists>nr. on_the_wire smuggled_host = Some nr \<and> wire_headers nr = [(''Host'', ''other'')])"
proof (rule nul_evades_check)
  show "stack_owned ''Host''" by code_simp
qed (simp_all add: smuggled_host_def nul_free_def nul_def)

end
